(* ===== verification/Rust_Std.thy ===== *)
theory Rust_Std
  imports Prelude
begin

text \<open>
  The collections of Rust's standard library the modelled code uses:
  \<^verbatim>\<open>slice::binary_search_by\<close> (the bisection the pinned toolchain runs, so that its
  answer is defined on every slice, and the law that fixes it on strictly sorted ones),
  \<^verbatim>\<open>Vec::insert\<close> and \<^verbatim>\<open>Vec::remove\<close>, \<^verbatim>\<open>BTreeMap\<close> and \<^verbatim>\<open>BTreeSet\<close> as strictly
  sorted lists behind the interface \<open>ordered_map\<close>, \<^verbatim>\<open>str::trim\<close>.
\<close>

section \<open>Binary search\<close>

datatype ordering = Less | Equal | Greater

definition cmp :: "'a::linorder \<Rightarrow> 'a \<Rightarrow> ordering" where
  "cmp a b = (if a < b then Less else if a = b then Equal else Greater)"

lemma cmp_eqs [simp]:
  "cmp a b = Less \<longleftrightarrow> a < b" "cmp a b = Equal \<longleftrightarrow> a = b" "cmp a b = Greater \<longleftrightarrow> b < a"
  by (auto simp: cmp_def)

text \<open>The bisection loop: \<open>sz\<close> elements from \<open>base\<close> are still candidates.\<close>

function bisect :: "('a \<Rightarrow> ordering) \<Rightarrow> 'a list \<Rightarrow> nat \<Rightarrow> nat \<Rightarrow> nat" where
  "bisect f xs sz base =
     (if 1 < sz
      then let half = sz div 2; mid = base + half
           in bisect f xs (sz - half) (if f (xs ! mid) = Greater then base else mid)
      else base)"
  by pat_completeness auto
termination
  by (relation "measure (\<lambda>(f, xs, sz, base). sz)") auto

declare bisect.simps [simp del]

text \<open>\<open>Inr i\<close>: found at \<open>i\<close>; \<open>Inl i\<close>: absent, \<open>i\<close> is where it would be inserted.\<close>

definition binary_search_by :: "('a \<Rightarrow> ordering) \<Rightarrow> 'a list \<Rightarrow> nat + nat" where
  "binary_search_by f xs =
     (if xs = [] then Inl 0
      else let base = bisect f xs (length xs) 0
           in case f (xs ! base) of
                Equal \<Rightarrow> Inr base
              | Less \<Rightarrow> Inl (base + 1)
              | Greater \<Rightarrow> Inl base)"

definition binary_search :: "'a::linorder list \<Rightarrow> 'a \<Rightarrow> nat + nat" where
  "binary_search xs k = binary_search_by (\<lambda>x. cmp x k) xs"

definition vec_insert :: "nat \<Rightarrow> 'a \<Rightarrow> 'a list \<Rightarrow> 'a list" where
  "vec_insert i x xs = take i xs @ x # drop i xs"

definition vec_remove :: "nat \<Rightarrow> 'a list \<Rightarrow> 'a list" where
  "vec_remove i xs = take i xs @ drop (Suc i) xs"

text \<open>
  On a slice whose first \<open>p\<close> elements compare \<open>Less\<close> or \<open>Equal\<close> and whose rest compare
  \<open>Greater\<close>, the loop ends on the last element of the first group (or on \<open>0\<close>).
\<close>

lemma bisect_bounds: "0 < sz \<Longrightarrow> base \<le> bisect f xs sz base \<and> bisect f xs sz base < base + sz"
proof (induction f xs sz base rule: bisect.induct)
  case (1 f xs sz base)
  show ?case
  proof (cases "1 < sz")
    case True
    let ?b = "if f (xs ! (base + sz div 2)) = Greater then base else base + sz div 2"
    have "?b \<le> bisect f xs (sz - sz div 2) ?b
          \<and> bisect f xs (sz - sz div 2) ?b < ?b + (sz - sz div 2)"
      using "1.IH" [OF True refl refl] True by simp
    moreover have "?b + (sz - sz div 2) \<le> base + sz" by simp
    moreover have "base \<le> ?b" by simp
    ultimately show ?thesis
      using True by (subst (1 2) bisect.simps) (auto simp: Let_def)
  next
    case False
    with "1.prems" show ?thesis by (simp add: bisect.simps)
  qed
qed

lemma bisect_partition:
  assumes low: "\<And>i. i < p \<Longrightarrow> f (xs ! i) \<noteq> Greater"
    and high: "\<And>i. p \<le> i \<Longrightarrow> i < length xs \<Longrightarrow> f (xs ! i) = Greater"
  shows "0 < sz \<Longrightarrow> base + sz \<le> length xs \<Longrightarrow> base \<le> p - 1 \<Longrightarrow> p \<le> base + sz \<Longrightarrow>
    bisect f xs sz base = p - 1"
proof (induction sz arbitrary: base rule: less_induct)
  case (less sz)
  show ?case
  proof (cases "1 < sz")
    case True
    let ?half = "sz div 2"
    have half: "0 < ?half" "?half < sz" using True by auto
    show ?thesis
    proof (cases "f (xs ! (base + ?half)) = Greater")
      case gr: True
      then have "p \<le> base + ?half" using low [of "base + ?half"] by (meson not_le)
      then have "bisect f xs (sz - ?half) base = p - 1"
        using less half by (intro less.IH) auto
      with True gr show ?thesis by (subst bisect.simps) (simp add: Let_def)
    next
      case ng: False
      then have "base + ?half < p"
        using high [of "base + ?half"] half less.prems by (meson add_less_cancel_left not_le less_le_trans)
      then have "bisect f xs (sz - ?half) (base + ?half) = p - 1"
        using less half by (intro less.IH) auto
      with True ng show ?thesis by (subst bisect.simps) (simp add: Let_def)
    qed
  next
    case False
    with less.prems have "p - 1 = base" by auto
    with False show ?thesis by (simp add: bisect.simps)
  qed
qed

text \<open>The position of a key among strictly sorted keys: how many of them are smaller.\<close>

definition rank :: "'a::linorder list \<Rightarrow> 'a \<Rightarrow> nat" where
  "rank ks k = length (takeWhile (\<lambda>x. x < k) ks)"

lemma rank_le [simp]: "rank ks k \<le> length ks"
  by (simp add: rank_def length_takeWhile_le)

lemma rank_below: "i < rank ks k \<Longrightarrow> ks ! i < k"
  by (metis rank_def nth_mem set_takeWhileD takeWhile_nth)

lemma rank_above:
  assumes "sorted_wrt (<) ks" and "rank ks k \<le> i" and "i < length ks"
  shows "k \<le> ks ! i"
proof -
  have "rank ks k < length ks" using assms(2,3) by simp
  then have "\<not> ks ! rank ks k < k"
    unfolding rank_def using nth_length_takeWhile by fastforce
  moreover have "ks ! rank ks k \<le> ks ! i"
    using assms by (cases "rank ks k = i") (auto simp: sorted_wrt_iff_nth_less less_imp_le)
  ultimately show ?thesis by simp
qed

lemma rank_mem:
  assumes "sorted_wrt (<) ks"
  shows "k \<in> set ks \<longleftrightarrow> rank ks k < length ks \<and> ks ! rank ks k = k"
proof
  assume "k \<in> set ks"
  then obtain i where i: "i < length ks" "ks ! i = k" by (auto simp: in_set_conv_nth)
  then have "\<not> i < rank ks k" using rank_below [of i ks k] by auto
  then have le: "rank ks k \<le> i" by simp
  with i(1) have lt: "rank ks k < length ks" by simp
  from rank_above [OF assms order_refl lt] have "k \<le> ks ! rank ks k" .
  moreover have "ks ! rank ks k \<le> k"
    using le i assms by (cases "rank ks k = i") (auto simp: sorted_wrt_iff_nth_less less_imp_le)
  ultimately show "rank ks k < length ks \<and> ks ! rank ks k = k" using lt by simp
qed (metis nth_mem)

lemma binary_search_by_sorted [sorted_vec]:
  assumes sorted: "sorted_wrt (<) (map key xs)"
  shows "binary_search_by (\<lambda>x. cmp (key x) k) xs =
    (if k \<in> key ` set xs then Inr (rank (map key xs) k) else Inl (rank (map key xs) k))"
proof (cases "xs = []")
  case True
  then show ?thesis by (simp add: binary_search_by_def rank_def)
next
  case False
  let ?r = "rank (map key xs) k" and ?f = "\<lambda>x. cmp (key x) k"
  have mem: "k \<in> key ` set xs \<longleftrightarrow> ?r < length xs \<and> key (xs ! ?r) = k"
    using rank_mem [OF sorted, of k] by auto
  have below: "key (xs ! i) < k" if "i < ?r" for i
    using rank_below [OF that] that rank_le [of "map key xs" k] by (simp add: less_le_trans)
  have above: "k \<le> key (xs ! i)" if "?r \<le> i" "i < length xs" for i
    using rank_above [OF sorted, of k i] that by simp
  have above': "k < key (xs ! i)" if "?r < i" "i < length xs" for i
  proof -
    have "key (xs ! ?r) < key (xs ! i)"
      using sorted that by (auto simp: sorted_wrt_iff_nth_less)
    with above [of ?r] that show ?thesis by (simp add: le_less_trans)
  qed
  show ?thesis
  proof (cases "k \<in> key ` set xs")
    case True
    then have r: "?r < length xs" "key (xs ! ?r) = k" by (simp_all add: mem)
    have "bisect ?f xs (length xs) 0 = Suc ?r - 1"
      by (rule bisect_partition)
        (use r below above' False in \<open>force simp: less_Suc_eq\<close>)+
    with True r False show ?thesis by (simp add: binary_search_by_def cmp_def)
  next
    case absent: False
    have gt: "k < key (xs ! i)" if "?r \<le> i" "i < length xs" for i
      using above [OF that] absent that by (force simp: le_less)
    have b: "bisect ?f xs (length xs) 0 = ?r - 1"
      by (rule bisect_partition)
        (use below gt False rank_le [of "map key xs" k] in \<open>force\<close>)+
    show ?thesis
    proof (cases "?r = 0")
      case True
      with gt [of 0] False absent b show ?thesis
        by (auto simp: binary_search_by_def split: ordering.split)
    next
      case pos: False
      then have "cmp (key (xs ! (?r - 1))) k = Less" using below [of "?r - 1"] by simp
      with pos False absent b show ?thesis
        by (auto simp: binary_search_by_def Let_def split: ordering.split)
    qed
  qed
qed

lemma binary_search_sorted [sorted_vec]:
  "sorted_wrt (<) xs \<Longrightarrow>
   binary_search xs k = (if k \<in> set xs then Inr (rank xs k) else Inl (rank xs k))"
  using binary_search_by_sorted [where key = "\<lambda>x. x" and xs = xs and k = k]
  by (simp add: binary_search_def list.map_ident)

section \<open>Sorted vectors\<close>

lemma take_rank: "take (rank xs k) xs = takeWhile (\<lambda>x. x < k) xs"
  by (metis rank_def takeWhile_eq_take)

lemma drop_rank: "drop (rank xs k) xs = dropWhile (\<lambda>x. x < k) xs"
  by (metis rank_def dropWhile_eq_drop)

lemma set_vec_insert [simp]: "set (vec_insert i x xs) = insert x (set xs)"
  unfolding vec_insert_def by (metis Un_insert_right append_take_drop_id list.set(2) set_append)

lemma length_vec_insert [simp]: "length (vec_insert i x xs) = Suc (length xs)"
  by (simp add: vec_insert_def)

lemma length_vec_remove: "i < length xs \<Longrightarrow> length (vec_remove i xs) = length xs - 1"
  by (simp add: vec_remove_def)

lemma map_vec_insert: "map f (vec_insert i x xs) = vec_insert i (f x) (map f xs)"
  by (simp add: vec_insert_def take_map drop_map)

lemma map_vec_remove: "map f (vec_remove i xs) = vec_remove i (map f xs)"
  by (simp add: vec_remove_def take_map drop_map)

lemma sorted_takeWhile_dropWhile:
  assumes "sorted_wrt (<) (xs :: 'a::linorder list)"
  shows "\<forall>a\<in>set (takeWhile (\<lambda>x. x < k) xs). a < k" "\<forall>b\<in>set (dropWhile (\<lambda>x. x < k) xs). k \<le> b"
proof -
  show "\<forall>a\<in>set (takeWhile (\<lambda>x. x < k) xs). a < k" by (auto dest: set_takeWhileD)
  show "\<forall>b\<in>set (dropWhile (\<lambda>x. x < k) xs). k \<le> b"
    using assms
  proof (induction xs)
    case (Cons x xs)
    then show ?case by auto
  qed simp
qed

lemma sorted_vec_insert [sorted_vec]:
  assumes "sorted_wrt (<) xs" and "k \<notin> set xs"
  shows "sorted_wrt (<) (vec_insert (rank xs k) k xs)"
proof -
  let ?a = "takeWhile (\<lambda>x. x < k) xs" and ?b = "dropWhile (\<lambda>x. x < k) xs"
  have split: "sorted_wrt (<) (?a @ ?b)" using assms(1) by simp
  have "\<forall>b\<in>set ?b. k < b"
    using sorted_takeWhile_dropWhile(2) [OF assms(1), of k] assms(2)
    by (metis le_neq_trans set_dropWhileD)
  with split sorted_takeWhile_dropWhile(1) [OF assms(1), of k] show ?thesis
    by (auto simp: vec_insert_def take_rank drop_rank sorted_wrt_append intro: less_trans)
qed

lemma sorted_vec_remove [sorted_vec]: "sorted_wrt P xs \<Longrightarrow> sorted_wrt P (vec_remove i xs)"
proof -
  assume "sorted_wrt P xs"
  then have "sorted_wrt P (take i xs @ drop i xs)" by simp
  then show ?thesis
    unfolding vec_remove_def sorted_wrt_append
    by (metis drop_Suc in_set_dropD sorted_wrt_drop drop_drop plus_1_eq_Suc)
qed

lemma set_vec_remove_subset: "set (vec_remove i xs) \<subseteq> set xs"
  unfolding vec_remove_def by (auto dest: in_set_takeD in_set_dropD)

lemma set_vec_remove [sorted_vec]:
  assumes "sorted_wrt (<) xs" and "k \<in> set xs"
  shows "set (vec_remove (rank xs k) xs) = set xs - {k}"
proof -
  have r: "rank xs k < length xs" "xs ! rank xs k = k"
    using rank_mem [OF assms(1)] assms(2) by auto
  have eq: "xs = take (rank xs k) xs @ k # drop (Suc (rank xs k)) xs"
    using id_take_nth_drop [OF r(1)] r(2) by simp
  have dist: "distinct xs" using assms(1) strict_sorted_iff by auto
  show ?thesis
    unfolding vec_remove_def using dist by (subst (3) eq) (subst (asm) eq, auto)
qed

section \<open>Sorted tables\<close>

text \<open>
  A table of entries strictly sorted by key, updated at the position the binary search
  returns, is a finite map.
\<close>

lemma table_split:
  assumes "sorted_wrt (<) (map fst t)" and "k \<in> fst ` set t"
  obtains xs v ys where "t = xs @ (k, v) # ys" "length xs = rank (map fst t) k"
    "k \<notin> fst ` set xs" "k \<notin> fst ` set ys"
proof -
  let ?i = "rank (map fst t) k"
  have i: "?i < length t" "fst (t ! ?i) = k"
    using rank_mem [OF assms(1), of k] assms(2) by auto
  then have t: "t = take ?i t @ (k, snd (t ! ?i)) # drop (Suc ?i) t"
    using id_take_nth_drop [OF i(1)] by (metis prod.collapse)
  have "distinct (map fst t)" using assms(1) strict_sorted_iff by auto
  then have "k \<notin> fst ` set (take ?i t)" "k \<notin> fst ` set (drop (Suc ?i) t)"
    by (subst (asm) t, simp)+
  then show ?thesis using that t i(1) by (metis length_take min.absorb4)
qed

lemma map_of_middle:
  "k \<notin> fst ` set xs \<Longrightarrow> map_of (xs @ (k, v) # ys) = (map_of (xs @ ys))(k \<mapsto> v)"
  by (induction xs) (auto simp: fun_upd_twist)

lemma table_found:
  assumes "sorted_wrt (<) (map fst t)" and "k \<in> fst ` set t"
  shows "map_of t k = Some (snd (t ! rank (map fst t) k)) \<and>
         fst (t ! rank (map fst t) k) = k \<and> rank (map fst t) k < length t"
proof -
  obtain xs w ys where t: "t = xs @ (k, w) # ys" "length xs = rank (map fst t) k"
    "k \<notin> fst ` set xs" "k \<notin> fst ` set ys"
    using table_split [OF assms] by blast
  have "t ! rank (map fst t) k = (k, w)" "rank (map fst t) k < length t"
    unfolding t(2) [symmetric] by (simp_all add: t(1))
  then show ?thesis using map_of_middle [OF t(3), of w ys] t(1) by simp
qed

lemma table_update:
  assumes "sorted_wrt (<) (map fst t)" and "k \<in> fst ` set t"
  shows "map_of (t[rank (map fst t) k := (k, v)]) = (map_of t)(k \<mapsto> v)"
    and "map fst (t[rank (map fst t) k := (k, v)]) = map fst t"
proof -
  obtain xs w ys where t: "t = xs @ (k, w) # ys" "length xs = rank (map fst t) k"
    "k \<notin> fst ` set xs" "k \<notin> fst ` set ys"
    using table_split [OF assms] by blast
  have u: "t[rank (map fst t) k := (k, v)] = xs @ (k, v) # ys"
    unfolding t(2) [symmetric] by (subst t(1)) simp
  show "map_of (t[rank (map fst t) k := (k, v)]) = (map_of t)(k \<mapsto> v)"
    unfolding u map_of_middle [OF t(3)] by (subst t(1)) (simp only: map_of_middle [OF t(3)] fun_upd_upd)
  show "map fst (t[rank (map fst t) k := (k, v)]) = map fst t"
    unfolding u by (subst t(1)) simp
qed

lemma table_remove:
  assumes "sorted_wrt (<) (map fst t)" and "k \<in> fst ` set t"
  shows "map_of (vec_remove (rank (map fst t) k) t) = (map_of t)(k := None)"
proof -
  obtain xs w ys where t: "t = xs @ (k, w) # ys" "length xs = rank (map fst t) k"
    "k \<notin> fst ` set xs" "k \<notin> fst ` set ys"
    using table_split [OF assms] by blast
  have "vec_remove (rank (map fst t) k) t = xs @ ys"
    unfolding t(2) [symmetric] vec_remove_def by (subst (1 2) t(1)) simp
  moreover have "map_of t = (map_of (xs @ ys))(k \<mapsto> w)"
    unfolding t(1) by (rule map_of_middle [OF t(3)])
  moreover have "map_of (xs @ ys) k = None"
    using t(3,4) by (simp add: map_of_eq_None_iff image_Un del: map_of_append)
  ultimately show ?thesis by (simp only: fun_upd_upd fun_upd_idem)
qed

lemma table_insert:
  assumes "k \<notin> fst ` set t"
  shows "map_of (vec_insert i (k, v) t) = (map_of t)(k \<mapsto> v)"
proof -
  have "k \<notin> fst ` set (take i t)"
    using assms by (auto dest: in_set_takeD)
  from map_of_middle [OF this, of v "drop i t"] show ?thesis
    unfolding vec_insert_def by (simp only: append_take_drop_id)
qed

section \<open>BTreeMap and BTreeSet\<close>

text \<open>
  A \<^verbatim>\<open>BTreeMap\<close> is its entries in key order; lookup is \<open>map_of\<close>. The interface
  \<open>ordered_map\<close> is what the clients rely on.
\<close>

fun bt_insert :: "'k::linorder \<Rightarrow> 'v \<Rightarrow> ('k \<times> 'v) list \<Rightarrow> ('k \<times> 'v) list" where
  "bt_insert k v [] = [(k, v)]"
| "bt_insert k v (e # es) =
     (case cmp (fst e) k of
        Less \<Rightarrow> e # bt_insert k v es
      | Equal \<Rightarrow> (k, v) # es
      | Greater \<Rightarrow> (k, v) # e # es)"

definition bt_remove :: "'k \<Rightarrow> ('k \<times> 'v) list \<Rightarrow> ('k \<times> 'v) list" where
  "bt_remove k es = filter (\<lambda>e. fst e \<noteq> k) es"

definition bt_inv :: "('k::linorder \<times> 'v) list \<Rightarrow> bool" where
  "bt_inv es \<longleftrightarrow> sorted_wrt (<) (map fst es)"

fun bs_insert :: "'k::linorder \<Rightarrow> 'k list \<Rightarrow> 'k list" where
  "bs_insert k [] = [k]"
| "bs_insert k (x # xs) =
     (case cmp x k of Less \<Rightarrow> x # bs_insert k xs | Equal \<Rightarrow> x # xs | Greater \<Rightarrow> k # x # xs)"

definition bs_append :: "'k::linorder list \<Rightarrow> 'k list \<Rightarrow> 'k list" where
  "bs_append xs ys = fold bs_insert ys xs"

locale ordered_map =
  fixes lookup :: "'m \<Rightarrow> 'k::linorder \<Rightarrow> 'v option"
    and upsert :: "'k \<Rightarrow> 'v \<Rightarrow> 'm \<Rightarrow> 'm"
    and discard :: "'k \<Rightarrow> 'm \<Rightarrow> 'm"
    and entries :: "'m \<Rightarrow> ('k \<times> 'v) list"
    and inv :: "'m \<Rightarrow> bool"
  assumes lookup_upsert: "lookup (upsert k v m) = (lookup m)(k \<mapsto> v)"
    and lookup_discard: "lookup (discard k m) = (lookup m)(k := None)"
    and inv_upsert: "inv m \<Longrightarrow> inv (upsert k v m)"
    and inv_discard: "inv m \<Longrightarrow> inv (discard k m)"
    and entries_sorted: "inv m \<Longrightarrow> sorted_wrt (<) (map fst (entries m))"
    and entries_lookup: "map_of (entries m) = lookup m"
begin

lemma entries_ext: "inv m \<Longrightarrow> inv n \<Longrightarrow> lookup m = lookup n \<Longrightarrow> entries m = entries n"
proof -
  assume inv: "inv m" "inv n" and eq: "lookup m = lookup n"
  have d: "distinct (map fst (entries m))" "distinct (map fst (entries n))"
    using inv entries_sorted strict_sorted_iff by auto
  have eq': "map_of (entries m) = map_of (entries n)" using eq by (simp add: entries_lookup)
  have "fst ` set (entries m) = fst ` set (entries n)"
    using eq' by (metis dom_map_of_conv_image_fst)
  then have keys: "map fst (entries m) = map fst (entries n)"
    using inv entries_sorted strict_sorted_equal by (metis list.set_map)
  have "entries xs = map (\<lambda>k. (k, the (lookup xs k))) (map fst (entries xs))"
    if d: "distinct (map fst (entries xs))" for xs
  proof -
    have "(fst e, the (map_of (entries xs) (fst e))) = e" if "e \<in> set (entries xs)" for e
      using map_of_is_SomeI [OF d, of "fst e" "snd e"] that by simp
    then show ?thesis by (simp add: entries_lookup [symmetric] map_idI)
  qed
  with d keys eq show ?thesis by metis
qed

lemma upsert_upsert: "inv m \<Longrightarrow> entries (upsert k v (upsert k w m)) = entries (upsert k v m)"
  by (intro entries_ext inv_upsert) (simp_all add: lookup_upsert)

end

lemma map_of_bt_insert [simp, staged_simps]: "map_of (bt_insert k v m) = (map_of m)(k \<mapsto> v)"
  by (induction m) (auto simp: cmp_def split: ordering.splits)

lemma map_of_bt_remove [simp, staged_simps]: "map_of (bt_remove k m) = (map_of m)(k := None)"
  by (induction m) (auto simp: bt_remove_def)

lemma set_fst_bt_insert: "fst ` set (bt_insert k v m) = insert k (fst ` set m)"
  by (metis dom_fun_upd dom_map_of_conv_image_fst map_of_bt_insert option.distinct(1))

lemma set_bt_insert: "set (bt_insert k v m) \<subseteq> insert (k, v) (set m)"
  by (induction k v m rule: bt_insert.induct) (auto split: ordering.splits simp: cmp_def split: if_splits)

lemma bt_inv_Nil [simp]: "bt_inv []"
  by (simp add: bt_inv_def)

lemma bt_inv_insert [simp, intro]: "bt_inv m \<Longrightarrow> bt_inv (bt_insert k v m)"
proof (induction m)
  case (Cons e m)
  have "\<forall>x\<in>fst ` set (bt_insert k v m). fst e < x" if "fst e < k"
    using Cons.prems that by (auto simp: set_fst_bt_insert bt_inv_def)
  with Cons show ?case
    by (auto simp: bt_inv_def cmp_def split: ordering.splits)
qed (simp add: bt_inv_def)

lemma bt_inv_remove [simp, intro]: "bt_inv m \<Longrightarrow> bt_inv (bt_remove k m)"
  by (simp add: bt_inv_def bt_remove_def sorted_wrt_map sorted_wrt_filter)

interpretation bt: ordered_map map_of bt_insert bt_remove "\<lambda>m. m" bt_inv
  by (unfold_locales, simp_all) (simp add: bt_inv_def)

lemma set_bs_insert [simp]: "set (bs_insert k xs) = insert k (set xs)"
  by (induction xs) (auto simp: cmp_def split: ordering.splits)

lemma sorted_bs_insert: "sorted_wrt (<) xs \<Longrightarrow> sorted_wrt (<) (bs_insert k xs)"
  by (induction xs) (auto simp: cmp_def split: ordering.splits)

lemma set_bs_append [simp]: "set (bs_append xs ys) = set xs \<union> set ys"
  by (induction ys arbitrary: xs) (auto simp: bs_append_def)

lemma sorted_bs_append: "sorted_wrt (<) xs \<Longrightarrow> sorted_wrt (<) (bs_append xs ys)"
  by (induction ys arbitrary: xs) (auto simp: bs_append_def sorted_bs_insert)

section \<open>Trimming\<close>

text \<open>
  The UTF-8 encodings of the code points with the Unicode property \<^verbatim>\<open>White_Space\<close>, which
  \<^verbatim>\<open>str::trim\<close> removes at both ends: U+0009..U+000D, U+0020, U+0085, U+00A0, U+1680,
  U+2000..U+200A, U+2028, U+2029, U+202F, U+205F, U+3000.
\<close>

definition white_space :: "nat list list" where
  "white_space =
     map (\<lambda>c. [c]) [9, 10, 11, 12, 13, 32] @
     [[194, 133], [194, 160], [225, 154, 128], [226, 129, 159], [227, 128, 128],
      [226, 128, 168], [226, 128, 169], [226, 128, 175]] @
     map (\<lambda>c. [226, 128, c]) [128 ..< 139]"

definition is_white_prefix :: "nat list \<Rightarrow> bool" where
  "is_white_prefix s \<longleftrightarrow> list_ex (\<lambda>w. take (length w) s = w) white_space"

definition is_white_suffix :: "nat list \<Rightarrow> bool" where
  "is_white_suffix s \<longleftrightarrow> list_ex (\<lambda>w. take (length w) (rev s) = rev w) white_space"

text \<open>\<^verbatim>\<open>s.trim() == s\<close>: nothing to remove at either end.\<close>

definition is_trimmed :: "string \<Rightarrow> bool" where
  "is_trimmed s \<longleftrightarrow>
     (let cs = map of_char s in \<not> is_white_prefix cs \<and> \<not> is_white_suffix cs)"

section \<open>Debug display of text\<close>

text \<open>
  \<^verbatim>\<open>{:?}\<close> of a \<^verbatim>\<open>str\<close>: quoted, with quote, backslash and the ASCII controls escaped. Bytes of
  characters beyond ASCII are copied, as the formatter does for every printable character.
\<close>

definition debug_char :: "char \<Rightarrow> string" where
  "debug_char c =
     (let n = of_char c :: nat in
      if n = 0 then [CHR 0x5C, CHR ''0'']
      else if n = 9 then [CHR 0x5C, CHR ''t'']
      else if n = 10 then [CHR 0x5C, CHR ''n'']
      else if n = 13 then [CHR 0x5C, CHR ''r'']
      else if n = 34 \<or> n = 92 then [CHR 0x5C, c]
      else if n < 16 then [CHR 0x5C, CHR ''u'', CHR ''{'', hex_digit n, CHR ''}'']
      else if n < 32 \<or> n = 127
      then [CHR 0x5C, CHR ''u'', CHR ''{'', hex_digit (n div 16), hex_digit (n mod 16), CHR ''}'']
      else [c])"

definition debug_str :: "string \<Rightarrow> string" where
  "debug_str s = [CHR 0x22] @ concat (map debug_char s) @ [CHR 0x22]"

end
