(* ===== verification/Sdk.thy ===== *)
theory Sdk
  imports Rust_Std
begin

text \<open>
  The module interface crate (\<^verbatim>\<open>crates/kernel/sdk/src/lib.rs\<close>): the envelopes a
  dispatch carries, its causal context, the errors, the declarations an op makes, the
  deterministic context \<^verbatim>\<open>Ctx\<close> and the \<^verbatim>\<open>Module\<close> trait.

  A module's code sees its siblings only through \<^verbatim>\<open>Ctx::query\<close> and
  \<^verbatim>\<open>Ctx::module_root\<close>. A run of module code is therefore a tree \<open>ctx_m\<close>: it either ends
  with a result or asks one of these two questions and goes on with the answer. Whoever
  runs the module (the host, a test double) supplies the answers, which is what lets the
  block engine record them and serve them again on a replay. Intents, events and
  declarations have no answer, so they are part of the result (\<open>dispatch_out\<close>).

  A trait object \<^verbatim>\<open>Box<dyn Module>\<close> is a value of the type \<open>'m\<close> together with the operations
  of the record \<open>module_ops\<close>, which the definitions that hold modules take as an argument.
\<close>

section \<open>Errors\<close>

text \<open>
  \<^verbatim>\<open>sdk::Error\<close>. \<open>Panicked\<close> is not a variant of the source: it is the model's value for a
  Rust panic (an \<^verbatim>\<open>expect\<close> or \<^verbatim>\<open>assert\<close> that fails), which unwinds instead of returning.
\<close>

datatype error =
    UnknownModule module_id
  | SelfQuery
  | QueryUnsupported
  | SyncUnsupported
  | SwapUnsupported
  | BudgetExceeded
  | ModuleError string
  | Panicked string

text \<open>\<^verbatim>\<open>Display\<close>, which is \<^verbatim>\<open>Debug\<close>.\<close>

fun error_to_string :: "error \<Rightarrow> string" where
  "error_to_string (UnknownModule mid) = ''UnknownModule('' @ mid @ '')''"
| "error_to_string SelfQuery = ''SelfQuery''"
| "error_to_string QueryUnsupported = ''QueryUnsupported''"
| "error_to_string SyncUnsupported = ''SyncUnsupported''"
| "error_to_string SwapUnsupported = ''SwapUnsupported''"
| "error_to_string BudgetExceeded = ''BudgetExceeded''"
| "error_to_string (ModuleError m) = ''Module('' @ m @ '')''"
| "error_to_string (Panicked m) = m"

text \<open>
  \<^verbatim>\<open>?\<close> in a \<^verbatim>\<open>&mut self\<close> method: an early return keeps what the receiver has become so far.
\<close>

definition st_then ::
  "'m \<times> ('e + 'a) \<Rightarrow> ('m \<Rightarrow> 'a \<Rightarrow> 'm \<times> ('e + 'b)) \<Rightarrow> 'm \<times> ('e + 'b)" where
  "st_then p k = (case p of (m, Inl e) \<Rightarrow> (m, Inl e) | (m, Inr a) \<Rightarrow> k m a)"

lemma st_then_simps [simp, result_simps]:
  "st_then (m, Inl e) k = (m, Inl e)"
  "st_then (m, Inr a) k = k m a"
  by (simp_all add: st_then_def)

section \<open>Envelopes\<close>

type_synonym state_root = bytes
type_synonym account_number = u64

definition ROOT_LEN :: nat where
  "ROOT_LEN = 32"

record msg =
  msg_target :: module_id
  msg_payload :: bytes

record event =
  ev_source :: module_id
  ev_payload :: bytes

datatype origin =
    External bytes
  | Module module_id
  | Program account_number
  | System

definition MAX_OUTPUT_BYTES :: nat where
  "MAX_OUTPUT_BYTES = 256 * 1024"

definition MAX_ASSIGNED_BYTES :: nat where
  "MAX_ASSIGNED_BYTES = 64 * 1024"

definition MAX_DELIVERIES_PER_BLOCK :: nat where
  "MAX_DELIVERIES_PER_BLOCK = 32"

text \<open>The actor string of an origin.\<close>

fun actor_string :: "origin \<Rightarrow> string" where
  "actor_string (Module mid) = mid"
| "actor_string (Program account) = ''acct:'' @ show_nat (unat account)"
| "actor_string (External bs) = ''ext:'' @ concat (map hex_byte bs)"
| "actor_string System = ''system''"

text \<open>\<^verbatim>\<open>{:?}\<close> of an origin and of its bytes, as refusals show them.\<close>

fun debug_bytes_tail :: "bytes \<Rightarrow> string" where
  "debug_bytes_tail [] = '']''"
| "debug_bytes_tail (b # bs) = '', '' @ show_nat (unat b) @ debug_bytes_tail bs"

fun debug_bytes :: "bytes \<Rightarrow> string" where
  "debug_bytes [] = ''[]''"
| "debug_bytes (b # bs) = ''['' @ show_nat (unat b) @ debug_bytes_tail bs"

fun debug_origin :: "origin \<Rightarrow> string" where
  "debug_origin (External bs) = ''External('' @ debug_bytes bs @ '')''"
| "debug_origin (Module mid) = ''Module('' @ debug_str mid @ '')''"
| "debug_origin (Program account) = ''Program('' @ show_nat (unat account) @ '')''"
| "debug_origin System = ''System''"

definition require_non_empty :: "string \<Rightarrow> string \<Rightarrow> error + unit" where
  "require_non_empty field value =
     (if value = [] then Inl (ModuleError (field @ '' must not be empty'')) else Inr ())"

definition KEY_SEP :: char where
  "KEY_SEP = char_of (31 :: nat)"

definition validate_id :: "string \<Rightarrow> string \<Rightarrow> nat \<Rightarrow> error + unit" where
  "validate_id field value max_bytes =
     (if value = [] then Inl (ModuleError (field @ '' must be non-empty''))
      else if length value > max_bytes
      then Inl (ModuleError (field @ '' is '' @ show_nat (length value) @
                             '' bytes; the cap is '' @ show_nat max_bytes))
      else if KEY_SEP \<in> set value
      then Inl (ModuleError (field @ '' must not contain the reserved separator''))
      else Inr ())"

section \<open>Declarations\<close>

text \<open>An op's declared output or stamp: the last value, or the first oversized one.\<close>

datatype declared = Nothing | Value bytes | Oversized nat nat

fun declare_value :: "declared \<Rightarrow> bytes \<Rightarrow> nat \<Rightarrow> declared" where
  "declare_value (Oversized len cap) bs c = Oversized len cap"
| "declare_value d bs c = (if length bs > c then Oversized (length bs) c else Value bs)"

fun into_value :: "declared \<Rightarrow> string \<Rightarrow> error + bytes option" where
  "into_value Nothing what = Inr None"
| "into_value (Value bs) what = Inr (Some bs)"
| "into_value (Oversized len cap) what =
     Inl (ModuleError (what @ '' exceeds cap ('' @ show_nat len @ '' > '' @ show_nat cap @ '')''))"

section \<open>Causal context\<close>

record call_id =
  ci_requester :: module_id
  ci_invocation :: string
  ci_step :: u64

record item_ref =
  ir_source :: module_id
  ir_item :: u64

datatype root = RootItem item_ref | RootCall call_id | RootChange module_id u64

datatype hop = HopDelivery item_ref | HopCall call_id | HopCompletion call_id

datatype cause = Direct | Chain root hop

fun root_for_call :: "cause \<Rightarrow> call_id \<Rightarrow> root" where
  "root_for_call Direct cid = RootCall cid"
| "root_for_call (Chain r h) cid = r"

fun root_for_item :: "cause \<Rightarrow> item_ref \<Rightarrow> root" where
  "root_for_item Direct item = RootItem item"
| "root_for_item (Chain r h) item = r"

record env =
  env_height :: u64
  env_consensus_time :: u64
  env_origin :: origin
  env_me :: module_id
  env_cause :: cause

section \<open>Outbound queues\<close>

record pending_item =
  pi_item :: u64
  pi_target :: module_id
  pi_payload :: bytes
  pi_cause :: cause

datatype delivery_outcome = DeliveryApplied | DeliveryFailed string | DeliveryUnrepresentable

record ack =
  ack_item :: u64
  ack_target :: module_id
  ack_outcome :: delivery_outcome

section \<open>The deterministic context and the module trait\<close>

text \<open>
  Module code asking its context: \<open>Query\<close> is \<^verbatim>\<open>Ctx::query\<close>, \<open>AskRoot\<close> is
  \<^verbatim>\<open>Ctx::module_root\<close>.
\<close>

datatype 'a ctx_m =
    Done 'a
  | Query module_id bytes "error + bytes \<Rightarrow> 'a ctx_m"
  | AskRoot module_id "state_root option \<Rightarrow> 'a ctx_m"

text \<open>
  What a run of \<^verbatim>\<open>execute\<close> or \<^verbatim>\<open>acknowledge\<close> leaves: the module (which keeps what it staged
  even when the run ends in an error), the verdict, and what went out through the context.
\<close>

record 'm dispatch_out =
  out_module :: 'm
  out_result :: "error + unit"
  out_msgs :: "msg list"
  out_events :: "event list"
  out_output :: declared
  out_assigned :: declared

record 'm module_ops =
  mod_id :: "'m \<Rightarrow> module_id"
  mod_root :: "'m \<Rightarrow> state_root"
  mod_execute :: "'m \<Rightarrow> env \<Rightarrow> msg \<Rightarrow> 'm dispatch_out ctx_m"
  mod_acknowledge :: "'m \<Rightarrow> env \<Rightarrow> ack \<Rightarrow> 'm dispatch_out ctx_m"
  mod_query :: "'m \<Rightarrow> env \<Rightarrow> bytes \<Rightarrow> (error + bytes) ctx_m"
  mod_pending_items :: "'m \<Rightarrow> error + pending_item list"
  mod_commit_block :: "'m \<Rightarrow> 'm \<times> (error + unit)"
  mod_abort_block :: "'m \<Rightarrow> 'm \<times> (error + unit)"
  mod_code_hash :: "'m \<Rightarrow> bytes option"
  mod_prepare_swap :: "'m \<Rightarrow> bytes \<Rightarrow> error + 'm"

text \<open>The trait's default \<^verbatim>\<open>acknowledge\<close>: a module without a queue is never acknowledged.\<close>

definition default_acknowledge :: "'m \<Rightarrow> env \<Rightarrow> ack \<Rightarrow> 'm dispatch_out ctx_m" where
  "default_acknowledge m env ack =
     Done \<lparr>out_module = m,
           out_result = Inl (ModuleError
             (''module has no outbound queue to acknowledge item '' @
              show_nat (unat (ack_item ack)) @ '' for '' @ ack_target ack)),
           out_msgs = [], out_events = [], out_output = Nothing, out_assigned = Nothing\<rparr>"

text \<open>The trait's default \<^verbatim>\<open>pending_items\<close>: no queue.\<close>

definition default_pending_items :: "'m \<Rightarrow> error + pending_item list" where
  "default_pending_items m = Inr []"

text \<open>
  The trait's default \<^verbatim>\<open>prepare_swap\<close>. A successful preparation is the module with the
  replacement installed; the caller that drops it keeps the running module.
\<close>

definition default_prepare_swap :: "'m \<Rightarrow> bytes \<Rightarrow> error + 'm" where
  "default_prepare_swap m artifact_bytes = Inl SwapUnsupported"

text \<open>A run that emitted and declared nothing.\<close>

definition quiet_out :: "'m \<Rightarrow> error + unit \<Rightarrow> 'm dispatch_out" where
  "quiet_out m r =
     \<lparr>out_module = m, out_result = r, out_msgs = [], out_events = [],
      out_output = Nothing, out_assigned = Nothing\<rparr>"

text \<open>
  The guard of a snapshot installation: the recomputed root must be the committed one.
\<close>

definition verify_snapshot_root :: "state_root \<Rightarrow> state_root \<Rightarrow> error + unit" where
  "verify_snapshot_root actual expected =
     (if actual \<noteq> expected
      then Inl (ModuleError
        (''snapshot root mismatch: recomputed StateRoot('' @ concat (map hex_byte actual) @
         ''), expected StateRoot('' @ concat (map hex_byte expected) @ '')''))
      else Inr ())"

text \<open>\<^verbatim>\<open>TestCtx::at_height\<close>: the environment of a direct system dispatch.\<close>

definition env_at_height :: "u64 \<Rightarrow> env" where
  "env_at_height h =
     \<lparr>env_height = h, env_consensus_time = h, env_origin = System, env_me = ''test'',
      env_cause = Direct\<rparr>"

section \<open>What the host relies on\<close>

text \<open>Every run of a tree, whatever the answers, ends with a result that satisfies \<open>P\<close>.\<close>

primrec ctx_all :: "('a \<Rightarrow> bool) \<Rightarrow> 'a ctx_m \<Rightarrow> bool" where
  "ctx_all P (Done a) = P a"
| "ctx_all P (Query target req k) = (\<forall>r. ctx_all P (k r))"
| "ctx_all P (AskRoot target k) = (\<forall>r. ctx_all P (k r))"

primrec ctx_bind :: "'a ctx_m \<Rightarrow> ('a \<Rightarrow> 'b ctx_m) \<Rightarrow> 'b ctx_m" where
  "ctx_bind (Done a) f = f a"
| "ctx_bind (Query target req k) f = Query target req (\<lambda>r. ctx_bind (k r) f)"
| "ctx_bind (AskRoot target k) f = AskRoot target (\<lambda>r. ctx_bind (k r) f)"

lemma ctx_all_bind: "ctx_all (\<lambda>a. ctx_all P (f a)) t \<Longrightarrow> ctx_all P (ctx_bind t f)"
  by (induction t) auto

text \<open>The result of a run that asks nothing.\<close>

fun run_quiet :: "'a ctx_m \<Rightarrow> 'a option" where
  "run_quiet (Done a) = Some a"
| "run_quiet _ = None"

text \<open>A module behind another representation: its outcomes carried over.\<close>

definition map_out :: "('m \<Rightarrow> 'n) \<Rightarrow> 'm dispatch_out \<Rightarrow> 'n dispatch_out" where
  "map_out f out =
     \<lparr>out_module = f (out_module out), out_result = out_result out, out_msgs = out_msgs out,
      out_events = out_events out, out_output = out_output out, out_assigned = out_assigned out\<rparr>"

definition map_step :: "('m \<Rightarrow> 'n) \<Rightarrow> 'm \<times> 'r \<Rightarrow> 'n \<times> 'r" where
  "map_step f p = (f (fst p), snd p)"

lemma ctx_all_map: "ctx_all P (map_ctx_m f t) = ctx_all (\<lambda>x. P (f x)) t"
  by (induction t) auto

text \<open>
  The staging contract of a module: \<open>base m\<close> is the module as of its last commit, which an
  abort returns to; running an op or an acknowledgement only stages, so it moves neither the
  base nor the root.
\<close>

locale module_laws =
  fixes ops :: "'m module_ops"
    and base :: "'m \<Rightarrow> 'm"
  assumes abort_base: "mod_abort_block ops m = (base m, Inr ())"
    and base_base: "base (base m) = base m"
    and root_base: "mod_root ops (base m) = mod_root ops m"
    and execute_base: "ctx_all (\<lambda>out. base (out_module out) = base m) (mod_execute ops m env msg)"
    and acknowledge_base:
      "ctx_all (\<lambda>out. base (out_module out) = base m) (mod_acknowledge ops m env ack)"

text \<open>
  The life of a module under any host: it runs ops and acknowledgements with whatever answers,
  commits and aborts, in any order.
\<close>

inductive ctx_leaf :: "'a ctx_m \<Rightarrow> 'a \<Rightarrow> bool" where
  leaf_done: "ctx_leaf (Done a) a"
| leaf_query: "ctx_leaf (k r) a \<Longrightarrow> ctx_leaf (Query target req k) a"
| leaf_root: "ctx_leaf (k r) a \<Longrightarrow> ctx_leaf (AskRoot target k) a"

inductive_simps ctx_leaf_simps [simp]:
  "ctx_leaf (Done a) b"
  "ctx_leaf (Query target req k) b"
  "ctx_leaf (AskRoot target k) b"

lemma ctx_all_leaf: "ctx_all P t \<longleftrightarrow> (\<forall>a. ctx_leaf t a \<longrightarrow> P a)"
  by (induction t) auto

lemma ctx_leaf_map: "ctx_leaf (map_ctx_m f t) b \<longleftrightarrow> (\<exists>a. ctx_leaf t a \<and> b = f a)"
  by (induction t) auto

lemma ctx_leaf_bind: "ctx_leaf (ctx_bind t f) b \<longleftrightarrow> (\<exists>a. ctx_leaf t a \<and> ctx_leaf (f a) b)"
  by (induction t) auto

inductive mod_step :: "'m module_ops \<Rightarrow> 'm \<Rightarrow> 'm \<Rightarrow> bool" for ops where
  step_execute: "ctx_leaf (mod_execute ops m env msg) out \<Longrightarrow> mod_step ops m (out_module out)"
| step_acknowledge:
    "ctx_leaf (mod_acknowledge ops m env ack) out \<Longrightarrow> mod_step ops m (out_module out)"
| step_commit: "mod_step ops m (fst (mod_commit_block ops m))"
| step_abort: "mod_step ops m (fst (mod_abort_block ops m))"

inductive_cases mod_stepE: "mod_step ops m m'"

lemma mod_reach_invariant:
  assumes "(mod_step ops)\<^sup>*\<^sup>* m m'" and "I m" and "\<And>a b. I a \<Longrightarrow> mod_step ops a b \<Longrightarrow> I b"
  shows "I m'"
  using assms by (induction rule: rtranclp_induct) auto

section \<open>Lemmas\<close>

lemma into_value_declare:
  "into_value (fold (\<lambda>bs d. declare_value d bs cap) (xs @ [x]) Nothing) what = Inr v \<longleftrightarrow>
   (\<forall>bs\<in>set (xs @ [x]). length bs \<le> cap) \<and> v = Some x"
proof -
  let ?run = "\<lambda>ys d. fold (\<lambda>bs d. declare_value d bs cap) ys d"
  have stuck: "?run ys (Oversized a b) = Oversized a b" for ys a b
    by (induction ys) auto
  have fits: "?run (ys @ [y]) d = Value y"
    if "\<forall>bs\<in>set (ys @ [y]). length bs \<le> cap" "\<forall>a b. d \<noteq> Oversized a b" for ys y d
    using that by (induction ys arbitrary: d) (case_tac [!] d, auto)
  have large: "\<exists>a b. ?run ys d = Oversized a b" if "\<not> (\<forall>bs\<in>set ys. length bs \<le> cap)" for ys d
    using that
  proof (induction ys arbitrary: d)
    case (Cons y ys)
    then show ?case using stuck by (cases d; cases "length y \<le> cap") auto
  qed simp
  show ?thesis
  proof (cases "\<forall>bs\<in>set (xs @ [x]). length bs \<le> cap")
    case True
    then show ?thesis using fits [OF True, of Nothing] by auto
  next
    case False
    then show ?thesis using large [OF False, of Nothing] by auto
  qed
qed

lemma show_nat_not_Nil [simp]: "show_nat n \<noteq> []"
  by (subst show_nat.simps) simp

lemma concat_hex_inj: "concat (map hex_byte a) = concat (map hex_byte b) \<longleftrightarrow> a = b"
proof
  show "concat (map hex_byte a) = concat (map hex_byte b) \<Longrightarrow> a = b"
  proof (induction a arbitrary: b)
    case Nil
    then show ?case by (cases b) (auto simp: hex_byte_def)
  next
    case (Cons x a)
    then show ?case
      by (cases b) (auto simp: hex_byte_def dest: Cons.IH intro!: hex_byte_inj [unfolded hex_byte_def])
  qed
qed simp

text \<open>The decimal reading of a digit string, the inverse of the display.\<close>

definition digit_value :: "char \<Rightarrow> nat" where
  "digit_value c = of_char c - 48"

definition read_nat :: "string \<Rightarrow> nat" where
  "read_nat s = fold (\<lambda>c acc. 10 * acc + digit_value c) s 0"

lemma digit_value_char [simp]: "d < 10 \<Longrightarrow> digit_value (char_of (48 + d)) = d"
  by (simp add: digit_value_def)

lemma read_show_nat [simp]: "read_nat (show_nat n) = n"
proof (induction n rule: show_nat.induct)
  case (1 n)
  show ?case
  proof (cases "n < 10")
    case True
    then show ?thesis by (subst show_nat.simps) (simp add: read_nat_def)
  next
    case False
    with 1 have "read_nat (show_nat (n div 10)) = n div 10" by simp
    with False show ?thesis
      by (subst show_nat.simps) (simp add: read_nat_def)
  qed
qed

lemma show_nat_inj [simp]: "show_nat a = show_nat b \<longleftrightarrow> a = b"
  by (metis read_show_nat)

text \<open>
  C33: the actor string separates the domains. Two external submitters, two program accounts
  and the system never share an actor string with each other, and a module id spelled with
  hexadecimal digits only (so any pure hex or pure decimal id) collides with none of them.
\<close>

theorem actor_string_separates:
  assumes "a \<noteq> b"
    and "\<And>i. a = Module i \<Longrightarrow> set i \<subseteq> set ''0123456789abcdef''"
    and "\<And>i. b = Module i \<Longrightarrow> set i \<subseteq> set ''0123456789abcdef''"
  shows "actor_string a \<noteq> actor_string b"
  using assms
  by (cases a; cases b) (auto simp: concat_hex_inj word_unat_eq_iff)

theorem actor_string_separates_witness:
  "actor_string (Module ''ab'') \<noteq> actor_string (External [171])
   \<and> actor_string (External [171]) \<noteq> actor_string (Program 171)"
  using actor_string_separates [of "Module ''ab''" "External [171]"]
    actor_string_separates [of "External [171]" "Program 171"]
  by simp

end
