(* ===== verification/Codec.thy ===== *)
theory Codec
  imports Sdk
begin

text \<open>
  The shared byte codecs of \<^verbatim>\<open>crates/kernel/sdk/src\<close>: the length-prefixed writers and the
  forward-only \<^verbatim>\<open>Cursor\<close> over untrusted bytes (\<^verbatim>\<open>codec.rs\<close>), the map preimage
  \<^verbatim>\<open>encode_pairs\<close> and the hex display (\<^verbatim>\<open>hash.rs\<close>), and the genesis-config encoding
  (\<^verbatim>\<open>genesis_config.rs\<close>).

  A \<^verbatim>\<open>&mut Cursor\<close> accessor is a reader: it takes the cursor and returns its verdict with
  the cursor as the accessor left it, also when it fails. The lemmas show that every
  accessor undoes its writer and leaves the rest of the buffer alone, that a successful
  read accounts for every byte it consumed, and that the two whole-buffer encodings are
  canonical: one value, one encoding.
\<close>

section \<open>Writers\<close>

definition push_bytes :: "bytes \<Rightarrow> bytes \<Rightarrow> bytes" where
  "push_bytes out bs = out @ u64_le (of_nat (length bs)) @ bs"

definition push_str :: "bytes \<Rightarrow> string \<Rightarrow> bytes" where
  "push_str out s = push_bytes out (as_bytes s)"

fun push_opt_bytes :: "bytes \<Rightarrow> bytes option \<Rightarrow> bytes" where
  "push_opt_bytes out (Some b) = push_bytes (out @ [1]) b"
| "push_opt_bytes out None = out @ [0]"

definition push_opt_str :: "bytes \<Rightarrow> string option \<Rightarrow> bytes" where
  "push_opt_str out s = push_opt_bytes out (map_option as_bytes s)"

fun push_opt_u64 :: "bytes \<Rightarrow> u64 option \<Rightarrow> bytes" where
  "push_opt_u64 out (Some v) = out @ [1] @ u64_le v"
| "push_opt_u64 out None = out @ [0]"

section \<open>UTF-8\<close>

text \<open>
  \<^verbatim>\<open>std::str::from_utf8\<close>: \<open>None\<close> for well-formed text, else the index of the first bad
  sequence and its length (\<open>None\<close> when the text ends inside it).
\<close>

definition is_cont :: "byte \<Rightarrow> bool" where
  "is_cont b \<longleftrightarrow> 128 \<le> unat b \<and> unat b < 192"

definition utf8_second :: "nat \<Rightarrow> byte \<Rightarrow> bool" where
  "utf8_second first b \<longleftrightarrow>
     (if first = 224 then 160 \<le> unat b \<and> unat b < 192
      else if first = 237 then 128 \<le> unat b \<and> unat b < 160
      else if first = 240 then 144 \<le> unat b \<and> unat b < 192
      else if first = 244 then 128 \<le> unat b \<and> unat b < 144
      else is_cont b)"

definition utf8_width :: "byte \<Rightarrow> nat" where
  "utf8_width b =
     (if unat b < 128 then 1
      else if 194 \<le> unat b \<and> unat b < 224 then 2
      else if 224 \<le> unat b \<and> unat b < 240 then 3
      else if 240 \<le> unat b \<and> unat b < 245 then 4
      else 0)"

text \<open>The error length of the sequence at the head, \<open>None\<close> when it is well formed.\<close>

definition utf8_head :: "bytes \<Rightarrow> nat option option" where
  "utf8_head bs =
     (case bs of
        [] \<Rightarrow> None
      | b # r \<Rightarrow>
          (case utf8_width b of
             0 \<Rightarrow> Some (Some 1)
           | w \<Rightarrow>
               if w = 1 then None
               else if r = [] then Some None
               else if \<not> utf8_second (unat b) (r ! 0) then Some (Some 1)
               else if w = 2 then None
               else if length r < 2 then Some None
               else if \<not> is_cont (r ! 1) then Some (Some 2)
               else if w = 3 then None
               else if length r < 3 then Some None
               else if \<not> is_cont (r ! 2) then Some (Some 3)
               else None))"

function utf8_check :: "nat \<Rightarrow> bytes \<Rightarrow> (nat \<times> nat option) option" where
  "utf8_check i bs =
     (if bs = [] then None
      else case utf8_head bs of
             Some e \<Rightarrow> Some (i, e)
           | None \<Rightarrow> let w = max 1 (utf8_width (hd bs)) in utf8_check (i + w) (drop w bs))"
  by pat_completeness auto
termination
  by (relation "measure (\<lambda>(i, bs). length bs)") auto

declare utf8_check.simps [simp del]

definition utf8_valid :: "bytes \<Rightarrow> bool" where
  "utf8_valid bs \<longleftrightarrow> utf8_check 0 bs = None"

fun utf8_error_to_string :: "nat \<times> nat option \<Rightarrow> string" where
  "utf8_error_to_string (i, Some l) =
     ''invalid utf-8 sequence of '' @ show_nat l @ '' bytes from index '' @ show_nat i"
| "utf8_error_to_string (i, None) =
     ''incomplete utf-8 byte sequence from index '' @ show_nat i"

definition from_utf8 :: "bytes \<Rightarrow> string + string" where
  "from_utf8 bs =
     (case utf8_check 0 bs of
        None \<Rightarrow> Inr (of_bytes bs)
      | Some e \<Rightarrow> Inl (utf8_error_to_string e))"

lemma from_utf8_as_bytes [simp, codec_simps]:
  "utf8_valid (as_bytes s) \<Longrightarrow> from_utf8 (as_bytes s) = Inr s"
  by (simp add: from_utf8_def utf8_valid_def)

section \<open>The cursor\<close>

record cursor =
  cur_buf :: bytes
  cur_max_field_len :: nat

type_synonym 'a reader = "cursor \<Rightarrow> (error + 'a) \<times> cursor"

definition rd_return :: "'a \<Rightarrow> 'a reader" where
  "rd_return x c = (Inr x, c)"

definition rd_fail :: "error \<Rightarrow> 'a reader" where
  "rd_fail e c = (Inl e, c)"

definition rd_then :: "'a reader \<Rightarrow> ('a \<Rightarrow> 'b reader) \<Rightarrow> 'b reader" where
  "rd_then r k c = (case r c of (Inl e, c') \<Rightarrow> (Inl e, c') | (Inr x, c') \<Rightarrow> k x c')"

definition usize_max :: nat where
  "usize_max = 2 ^ 64 - 1"

definition cursor_new :: "bytes \<Rightarrow> cursor" where
  "cursor_new buf = \<lparr>cur_buf = buf, cur_max_field_len = usize_max\<rparr>"

definition cursor_with_cap :: "bytes \<Rightarrow> nat \<Rightarrow> cursor" where
  "cursor_with_cap buf cap = \<lparr>cur_buf = buf, cur_max_field_len = cap\<rparr>"

definition cur_remaining :: "cursor \<Rightarrow> nat" where
  "cur_remaining c = length (cur_buf c)"

definition truncated :: "string \<Rightarrow> error" where
  "truncated what = ModuleError (what @ '' truncated'')"

text \<open>\<^verbatim>\<open>Cursor::array\<close>, and the fixed-width integers built on the same split.\<close>

definition cur_array :: "nat \<Rightarrow> string \<Rightarrow> bytes reader" where
  "cur_array n what c =
     (if length (cur_buf c) < n then (Inl (truncated what), c)
      else (Inr (take n (cur_buf c)), c\<lparr>cur_buf := drop n (cur_buf c)\<rparr>))"

definition cur_u64 :: "string \<Rightarrow> u64 reader" where
  "cur_u64 what = rd_then (cur_array 8 what) (\<lambda>bs. rd_return (u64_of_le bs))"

definition cur_u32 :: "string \<Rightarrow> u32 reader" where
  "cur_u32 what = rd_then (cur_array 4 what) (\<lambda>bs. rd_return (u32_of_le bs))"

definition cur_byte :: "string \<Rightarrow> byte reader" where
  "cur_byte what c =
     (case cur_buf c of
        [] \<Rightarrow> (Inl (truncated what), c)
      | b # rest \<Rightarrow> (Inr b, c\<lparr>cur_buf := rest\<rparr>))"

definition flag_error :: "string \<Rightarrow> byte \<Rightarrow> error" where
  "flag_error what other =
     ModuleError (what @ '' flag must be 0 or 1, got '' @ show_nat (unat other))"

definition cur_bool :: "string \<Rightarrow> bool reader" where
  "cur_bool what = rd_then (cur_byte what) (\<lambda>b.
     if b = 0 then rd_return False
     else if b = 1 then rd_return True
     else rd_fail (flag_error what b))"

definition cur_bytes :: "string \<Rightarrow> bytes reader" where
  "cur_bytes what = rd_then (cur_u64 what) (\<lambda>len c.
     if unat len > cur_max_field_len c
     then (Inl (ModuleError (what @ '' length '' @ show_nat (unat len) @
                 '' exceeds the field cap '' @ show_nat (cur_max_field_len c))), c)
     else if unat len > length (cur_buf c)
     then (Inl (ModuleError (what @ '' length '' @ show_nat (unat len) @
                 '' exceeds the '' @ show_nat (length (cur_buf c)) @ '' remaining bytes'')), c)
     else (Inr (take (unat len) (cur_buf c)), c\<lparr>cur_buf := drop (unat len) (cur_buf c)\<rparr>))"

definition not_utf8 :: "string \<Rightarrow> string \<Rightarrow> error" where
  "not_utf8 what e = ModuleError (what @ '' is not utf-8: '' @ e)"

definition cur_string :: "string \<Rightarrow> string reader" where
  "cur_string what = rd_then (cur_bytes what) (\<lambda>raw c.
     (map_err (not_utf8 what) (from_utf8 raw), c))"

definition cur_opt_str :: "nat \<Rightarrow> string \<Rightarrow> string option reader" where
  "cur_opt_str maxl what = rd_then (cur_byte what) (\<lambda>b.
     if b = 0 then rd_return None
     else if b = 1 then rd_then (cur_bytes what) (\<lambda>raw.
       if raw = [] then rd_fail (ModuleError (what @ '' flag set but empty''))
       else if length raw > maxl
       then rd_fail (ModuleError (what @ '' exceeds the '' @ show_nat maxl @ ''-byte limit''))
       else (\<lambda>c. case from_utf8 raw of
                   Inl e \<Rightarrow> (Inl (not_utf8 what e), c)
                 | Inr s \<Rightarrow> (Inr (Some s), c)))
     else rd_fail (flag_error what b))"

definition cur_opt_bytes :: "string \<Rightarrow> bytes option reader" where
  "cur_opt_bytes what = rd_then (cur_bool what) (\<lambda>present.
     if present then rd_then (cur_bytes what) (\<lambda>b. rd_return (Some b)) else rd_return None)"

definition cur_opt_u64 :: "string \<Rightarrow> u64 option reader" where
  "cur_opt_u64 what = rd_then (cur_bool what) (\<lambda>present.
     if present then rd_then (cur_u64 what) (\<lambda>v. rd_return (Some v)) else rd_return None)"

definition cur_bound :: "u64 \<Rightarrow> u64 \<Rightarrow> string \<Rightarrow> unit reader" where
  "cur_bound count min_each what c =
     (if unat count > length (cur_buf c) div max (unat min_each) 1
      then (Inl (ModuleError (what @ '' count '' @ show_nat (unat count) @ '' exceeds the '' @
                  show_nat (length (cur_buf c)) @ '' remaining bytes'')), c)
      else (Inr (), c))"

definition cur_finish :: "string \<Rightarrow> unit reader" where
  "cur_finish what c =
     (if cur_buf c = [] then (Inr (), c)
      else (Inl (ModuleError (what @ '' carries '' @ show_nat (length (cur_buf c)) @
                  '' trailing bytes'')), c))"

section \<open>Map preimage and hex\<close>

definition encode_pairs :: "(bytes \<times> bytes) list \<Rightarrow> bytes" where
  "encode_pairs m =
     fold (\<lambda>(k, v) out. push_bytes (push_bytes out k) v) m (u64_le (of_nat (length m)))"

definition hex_lower :: "bytes \<Rightarrow> string" where
  "hex_lower bs = fold (\<lambda>b s. s @ hex_byte b) bs []"

section \<open>Genesis config\<close>

definition CONFIG_KEY :: bytes where
  "CONFIG_KEY = as_bytes ''__config''"

datatype time_unit = Height | Millis

fun time_unit_encode :: "time_unit \<Rightarrow> bytes" where
  "time_unit_encode Height = as_bytes ''height''"
| "time_unit_encode Millis = as_bytes ''millis''"

text \<open>\<open>lossy\<close> is \<^verbatim>\<open>String::from_utf8_lossy\<close> followed by its debug display, used in the message only.\<close>

definition time_unit_decode :: "(bytes \<Rightarrow> string) \<Rightarrow> bytes \<Rightarrow> error + time_unit" where
  "time_unit_decode lossy bs =
     (if bs = as_bytes ''height'' then Inr Height
      else if bs = as_bytes ''millis'' then Inr Millis
      else Inl (ModuleError (''genesis config time_unit is '' @ lossy bs @
                             '', not \"height\" or \"millis\"'')))"

fun time_unit_per_second :: "time_unit \<Rightarrow> u64" where
  "time_unit_per_second Height = 1"
| "time_unit_per_second Millis = 1000"

text \<open>The loop of \<^verbatim>\<open>encode_config\<close>: a key that does not increase is a panic.\<close>

fun encode_config_loop :: "string option \<Rightarrow> bytes \<Rightarrow> (string \<times> bytes) list \<Rightarrow> error + bytes" where
  "encode_config_loop prev out [] = Inr out"
| "encode_config_loop prev out ((key, value) # params) =
     (if (case prev of None \<Rightarrow> True | Some p \<Rightarrow> p < key)
      then encode_config_loop (Some key) (push_bytes (push_str out key) value) params
      else Inl (Panicked ''genesis-config keys must be strictly increasing''))"

definition encode_config :: "(string \<times> bytes) list \<Rightarrow> error + bytes" where
  "encode_config params = encode_config_loop None (u64_le (of_nat (length params))) params"

fun decode_config_loop :: "nat \<Rightarrow> string option \<Rightarrow> (string \<times> bytes) list reader" where
  "decode_config_loop 0 prev = rd_return []"
| "decode_config_loop (Suc n) prev =
     rd_then (cur_string ''genesis-config key'') (\<lambda>key.
       if (case prev of None \<Rightarrow> False | Some p \<Rightarrow> p \<ge> key)
       then rd_fail (ModuleError ''genesis-config keys must be strictly increasing'')
       else rd_then (cur_bytes ''genesis-config value'') (\<lambda>value.
         rd_then (decode_config_loop n (Some key)) (\<lambda>params.
           rd_return ((key, value) # params))))"

definition decode_config :: "bytes \<Rightarrow> error + (string \<times> bytes) list" where
  "decode_config bs =
     fst ((rd_then (cur_u64 ''genesis-config parameter count'') (\<lambda>count.
           rd_then (cur_bound count 16 ''genesis-config parameter'') (\<lambda>_.
           rd_then (decode_config_loop (unat count) None) (\<lambda>params.
           rd_then (cur_finish ''genesis-config'') (\<lambda>_. rd_return params)))))
         (cursor_new bs))"

definition config_find :: "(string \<times> bytes) list \<Rightarrow> string \<Rightarrow> bytes option" where
  "config_find params key = map_option snd (find (\<lambda>(k, _). k = key) params)"

section \<open>The contract of a field\<close>

text \<open>
  A writer and a reader agree when a read succeeds exactly on the written form of a value
  that fits, consumes just that form and keeps the field cap.
\<close>

locale field_codec =
  fixes wr :: "'a \<Rightarrow> bytes"
    and rd :: "'a reader"
    and fits :: "nat \<Rightarrow> 'a \<Rightarrow> bool"
  assumes read_iff:
    "rd c = (Inr x, c') \<longleftrightarrow>
       fits (cur_max_field_len c') x \<and> c = c'\<lparr>cur_buf := wr x @ cur_buf c'\<rparr>"
begin

lemma read_back:
  "fits cap x \<Longrightarrow> rd (cursor_with_cap (wr x @ rest) cap) = (Inr x, cursor_with_cap rest cap)"
  by (simp add: read_iff cursor_with_cap_def)

lemma prefix_free:
  assumes "fits cap x" and "fits cap y" and "wr x @ r = wr y @ s"
  shows "x = y \<and> r = s"
  using read_back [OF assms(1), of r] read_back [OF assms(2), of s] assms(3)
  by (auto simp: cursor_with_cap_def)

lemma read_consumes:
  "rd c = (Inr x, c') \<Longrightarrow> cur_remaining c = length (wr x) + cur_remaining c'"
  by (auto simp: read_iff cur_remaining_def)

lemma list_prefix_free:
  assumes "list_all (fits cap) xs" and "list_all (fits cap) ys" and "length xs = length ys"
    and "concat (map wr xs) @ r = concat (map wr ys) @ s"
  shows "xs = ys \<and> r = s"
  using assms(3,1,2,4)
proof (induction xs ys rule: list_induct2)
  case Nil
  then show ?case by simp
next
  case (Cons x xs y ys)
  then show ?case using prefix_free [of cap x y] by simp
qed

lemma read_all:
  "fst (rd_then rd (\<lambda>x. rd_then (cur_finish what) (\<lambda>_. rd_return x)) c) = Inr x \<longleftrightarrow>
     fits (cur_max_field_len c) x \<and> cur_buf c = wr x"
proof -
  have "rd c = (Inr x, c\<lparr>cur_buf := []\<rparr>) \<longleftrightarrow> fits (cur_max_field_len c) x \<and> cur_buf c = wr x"
    unfolding read_iff by (cases c) auto
  moreover have "c' = c\<lparr>cur_buf := []\<rparr>" if "rd c = (Inr y, c')" "cur_buf c' = []" for y c'
    using that unfolding read_iff by (cases c; cases c') auto
  ultimately show ?thesis
    by (auto simp: rd_then_def rd_return_def cur_finish_def split: prod.splits sum.splits)
qed

end

lemma rd_then_Inr:
  "rd_then r k c = (Inr y, c'') \<longleftrightarrow> (\<exists>x c'. r c = (Inr x, c') \<and> k x c' = (Inr y, c''))"
  by (auto simp: rd_then_def split: prod.splits sum.splits)

lemma rd_return_Inr: "rd_return x c = (Inr y, c') \<longleftrightarrow> x = y \<and> c = c'"
  by (auto simp: rd_return_def)

lemma rd_fail_Inr: "rd_fail e c \<noteq> (Inr y, c')"
  by (simp add: rd_fail_def)

lemma rd_guard_Inr:
  "(if b then rd_fail e else r) c = (Inr y, c') \<longleftrightarrow> \<not> b \<and> r c = (Inr y, c')"
  by (simp add: rd_fail_def)

lemmas reader_iffs [codec_simps] = rd_then_Inr rd_return_Inr rd_fail_Inr rd_guard_Inr

lemma cur_array_Inr:
  "cur_array n what c = (Inr bs, c') \<longleftrightarrow>
     length bs = n \<and> c = c'\<lparr>cur_buf := bs @ cur_buf c'\<rparr>"
  by (cases c; cases c') (auto simp: cur_array_def)

lemma cur_byte_Inr:
  "cur_byte what c = (Inr b, c') \<longleftrightarrow> c = c'\<lparr>cur_buf := b # cur_buf c'\<rparr>"
  by (cases c; cases c') (auto simp: cur_byte_def split: list.splits)

definition field_bytes :: "bytes \<Rightarrow> bytes" where
  "field_bytes = push_bytes []"

definition fits_bytes :: "nat \<Rightarrow> bytes \<Rightarrow> bool" where
  "fits_bytes cap bs \<longleftrightarrow> length bs \<le> cap \<and> length bs < 2 ^ 64"

lemma push_bytes_field: "push_bytes out bs = out @ field_bytes bs"
  by (simp add: push_bytes_def field_bytes_def)

lemma push_str_field: "push_str out s = out @ field_bytes (as_bytes s)"
  by (simp add: push_str_def push_bytes_field)

lemma unat_of_nat_u64: "n < 2 ^ 64 \<Longrightarrow> unat (of_nat n :: u64) = n"
  by (simp add: unat_of_nat take_bit_nat_eq_self)

interpretation u64_field: field_codec u64_le "cur_u64 what" "\<lambda>_ _. True" for what
proof
  fix c c' :: cursor and x :: u64
  show "cur_u64 what c = (Inr x, c') \<longleftrightarrow> True \<and> c = c'\<lparr>cur_buf := u64_le x @ cur_buf c'\<rparr>"
    by (auto simp: cur_u64_def reader_iffs cur_array_Inr u64_le_u64_of_le intro: exI [of _ "u64_le x"])
qed

lemma cur_bytes_Inr:
  "cur_bytes what c = (Inr bs, c') \<longleftrightarrow>
     fits_bytes (cur_max_field_len c') bs \<and> c = c'\<lparr>cur_buf := field_bytes bs @ cur_buf c'\<rparr>"
  (is "?L \<longleftrightarrow> ?R")
proof
  assume ?L
  then obtain len d where d: "cur_u64 what c = (Inr len, d)"
    and le: "unat len \<le> cur_max_field_len d" "unat len \<le> length (cur_buf d)"
    and bs: "bs = take (unat len) (cur_buf d)" "c' = d\<lparr>cur_buf := drop (unat len) (cur_buf d)\<rparr>"
    by (auto simp: cur_bytes_def rd_then_Inr split: if_splits)
  have len: "length bs = unat len" and "unat len < 2 ^ 64"
    using bs le unsigned_less [of len, where 'a = nat] by auto
  moreover have "c = d\<lparr>cur_buf := u64_le len @ cur_buf d\<rparr>"
    using d u64_field.read_iff by simp
  moreover have "cur_buf d = bs @ cur_buf c'"
    using bs by simp
  moreover have "of_nat (length bs) = len"
    by (simp add: len)
  ultimately show ?R
    using bs le by (cases d) (simp add: fits_bytes_def field_bytes_def push_bytes_def)
next
  assume ?R
  then have "cur_u64 what c = (Inr (of_nat (length bs)), c'\<lparr>cur_buf := bs @ cur_buf c'\<rparr>)"
    using u64_field.read_iff by (simp add: field_bytes_def push_bytes_def)
  then show ?L
    using \<open>?R\<close> by (simp add: cur_bytes_def rd_then_def fits_bytes_def unat_of_nat_u64)
qed

interpretation bytes_field: field_codec field_bytes "cur_bytes what" fits_bytes for what
  by unfold_locales (rule cur_bytes_Inr)

definition fits_str :: "nat \<Rightarrow> string \<Rightarrow> bool" where
  "fits_str cap s \<longleftrightarrow> fits_bytes cap (as_bytes s) \<and> utf8_valid (as_bytes s)"

lemma from_utf8_Inr: "from_utf8 raw = Inr s \<longleftrightarrow> raw = as_bytes s \<and> utf8_valid (as_bytes s)"
  by (auto simp: from_utf8_def utf8_valid_def split: option.splits)

interpretation str_field: field_codec "\<lambda>s. field_bytes (as_bytes s)" "cur_string what" fits_str
  for what
proof
  fix c c' :: cursor and x
  show "cur_string what c = (Inr x, c') \<longleftrightarrow>
     fits_str (cur_max_field_len c') x \<and> c = c'\<lparr>cur_buf := field_bytes (as_bytes x) @ cur_buf c'\<rparr>"
    by (auto simp: cur_string_def rd_then_Inr map_err_eq_Inr from_utf8_Inr cur_bytes_Inr fits_str_def)
qed

definition fits_opt :: "(nat \<Rightarrow> 'a \<Rightarrow> bool) \<Rightarrow> nat \<Rightarrow> 'a option \<Rightarrow> bool" where
  "fits_opt fits cap x \<longleftrightarrow> (case x of None \<Rightarrow> True | Some y \<Rightarrow> fits cap y)"

lemma cur_bool_Inr:
  "cur_bool what c = (Inr b, c') \<longleftrightarrow>
     c = c'\<lparr>cur_buf := (if b then 1 else 0) # cur_buf c'\<rparr>"
  by (auto simp: cur_bool_def reader_iffs cur_byte_Inr split: if_splits intro: exI [of _ "0 :: byte"])

interpretation opt_bytes_field:
  field_codec "push_opt_bytes []" "cur_opt_bytes what" "fits_opt fits_bytes" for what
proof
  fix c c' :: cursor and x
  show "cur_opt_bytes what c = (Inr x, c') \<longleftrightarrow>
     fits_opt fits_bytes (cur_max_field_len c') x \<and> c = c'\<lparr>cur_buf := push_opt_bytes [] x @ cur_buf c'\<rparr>"
    by (cases x)
      (auto simp: cur_opt_bytes_def reader_iffs cur_bool_Inr cur_bytes_Inr fits_opt_def
        push_bytes_field split: if_splits)
qed

interpretation opt_u64_field:
  field_codec "push_opt_u64 []" "cur_opt_u64 what" "\<lambda>_ _. True" for what
proof
  fix c c' :: cursor and x
  show "cur_opt_u64 what c = (Inr x, c') \<longleftrightarrow>
     True \<and> c = c'\<lparr>cur_buf := push_opt_u64 [] x @ cur_buf c'\<rparr>"
    by (cases x)
      (auto simp: cur_opt_u64_def reader_iffs cur_bool_Inr u64_field.read_iff split: if_splits)
qed

lemma length_as_bytes_0: "as_bytes s = [] \<longleftrightarrow> s = []"
  by (metis length_0_conv length_as_bytes)

interpretation opt_str_field:
  field_codec "push_opt_str []" "cur_opt_str maxl what"
    "fits_opt (\<lambda>cap s. s \<noteq> [] \<and> length s \<le> maxl \<and> fits_str cap s)" for maxl what
proof
  fix c c' :: cursor and x
  have utf8: "(case from_utf8 raw of Inl e \<Rightarrow> (Inl (not_utf8 what e), d) | Inr s \<Rightarrow> (Inr (Some s), d)) = (Inr y, c') \<longleftrightarrow>
      d = c' \<and> (\<exists>s. y = Some s \<and> raw = as_bytes s \<and> utf8_valid (as_bytes s))" for raw d y
    using from_utf8_Inr [of raw] by (cases "from_utf8 raw") auto
  have "cur_opt_str maxl what c = (Inr x, c') \<longleftrightarrow>
      (\<exists>b d. c = d\<lparr>cur_buf := b # cur_buf d\<rparr> \<and>
        (b = 0 \<and> x = None \<and> d = c' \<or>
         b = 1 \<and> (\<exists>s. x = Some s \<and> s \<noteq> [] \<and> length s \<le> maxl \<and> fits_str (cur_max_field_len c') s \<and>
           d = c'\<lparr>cur_buf := field_bytes (as_bytes s) @ cur_buf c'\<rparr>)))"
    unfolding cur_opt_str_def reader_iffs cur_byte_Inr
    by (intro ex_cong1) (auto simp: reader_iffs cur_bytes_Inr utf8 fits_str_def length_as_bytes_0 not_less)
  then show "cur_opt_str maxl what c = (Inr x, c') \<longleftrightarrow>
     fits_opt (\<lambda>cap s. s \<noteq> [] \<and> length s \<le> maxl \<and> fits_str cap s) (cur_max_field_len c') x \<and>
     c = c'\<lparr>cur_buf := push_opt_str [] x @ cur_buf c'\<rparr>"
    by (cases x) (auto simp: fits_opt_def push_opt_str_def push_bytes_field)
qed

section \<open>Canonical encodings\<close>

lemma pair_codec:
  assumes "field_codec w1 r1 f1" and "field_codec w2 r2 f2"
  shows "field_codec (\<lambda>(x, y). w1 x @ w2 y)
           (rd_then r1 (\<lambda>x. rd_then r2 (\<lambda>y. rd_return (x, y))))
           (\<lambda>cap (x, y). f1 cap x \<and> f2 cap y)"
  using assms by (auto simp: field_codec_def reader_iffs)

interpretation pair_field:
  field_codec "\<lambda>(k, v). field_bytes k @ field_bytes v"
    "rd_then (cur_bytes a) (\<lambda>k. rd_then (cur_bytes b) (\<lambda>v. rd_return (k, v)))"
    "\<lambda>cap (k, v). fits_bytes cap k \<and> fits_bytes cap v" for a b
  by (intro pair_codec bytes_field.field_codec_axioms)

lemma encode_pairs_eq:
  "encode_pairs m = u64_le (of_nat (length m)) @ concat (map (\<lambda>(k, v). field_bytes k @ field_bytes v) m)"
proof -
  have "fold (\<lambda>(k, v) out. push_bytes (push_bytes out k) v) m out =
      out @ concat (map (\<lambda>(k, v). field_bytes k @ field_bytes v) m)" for out
    by (induction m arbitrary: out) (auto simp: push_bytes_field)
  then show ?thesis by (simp add: encode_pairs_def)
qed

text \<open>Maps that exist in memory: fewer than 2^64 entries, each key and value under 2^64 bytes.\<close>

definition map_fits :: "(bytes \<times> bytes) list \<Rightarrow> bool" where
  "map_fits m \<longleftrightarrow>
     length m < 2 ^ 64 \<and> list_all (\<lambda>(k, v). length k < 2 ^ 64 \<and> length v < 2 ^ 64) m"

lemma of_nat_u64_inj: "m < 2 ^ 64 \<Longrightarrow> n < 2 ^ 64 \<Longrightarrow> (of_nat m :: u64) = of_nat n \<longleftrightarrow> m = n"
  using unat_of_nat_u64 by metis

lemma encode_pairs_inj:
  assumes "map_fits m" and "map_fits m'" and "encode_pairs m = encode_pairs m'"
  shows "m = m'"
proof -
  have len: "length m = length m'"
    and pairs: "concat (map (\<lambda>(k, v). field_bytes k @ field_bytes v) m) =
                concat (map (\<lambda>(k, v). field_bytes k @ field_bytes v) m')"
    using assms by (auto simp: encode_pairs_eq u64_le_inj of_nat_u64_inj map_fits_def)
  have "list_all (\<lambda>(k, v). fits_bytes usize_max k \<and> fits_bytes usize_max v) m"
    "list_all (\<lambda>(k, v). fits_bytes usize_max k \<and> fits_bytes usize_max v) m'"
    using assms(1,2) by (auto simp: map_fits_def fits_bytes_def usize_max_def list_all_iff)
  then show ?thesis
    using pair_field.list_prefix_free [of usize_max m m' "[]" "[]"] len pairs by simp
qed

definition config_entry :: "string \<times> bytes \<Rightarrow> bytes" where
  "config_entry = (\<lambda>(k, v). field_bytes (as_bytes k) @ field_bytes v)"

definition increasing :: "string option \<Rightarrow> (string \<times> bytes) list \<Rightarrow> bool" where
  "increasing prev ps \<longleftrightarrow>
     sorted_wrt (<) (case prev of None \<Rightarrow> map fst ps | Some p \<Rightarrow> p # map fst ps)"

lemma increasing_Nil [simp]: "increasing prev []"
  by (simp add: increasing_def split: option.split)

lemma increasing_Cons:
  "increasing prev ((k, v) # ps) \<longleftrightarrow>
     (case prev of None \<Rightarrow> True | Some p \<Rightarrow> p < k) \<and> increasing (Some k) ps"
  by (auto simp: increasing_def split: option.split)

lemma encode_config_loop_Inr:
  "encode_config_loop prev out ps = Inr bs \<longleftrightarrow>
     increasing prev ps \<and> bs = out @ concat (map config_entry ps)"
  by (induction prev out ps rule: encode_config_loop.induct)
    (auto simp: increasing_Cons push_bytes_field push_str_field config_entry_def)

lemma decode_config_loop_Inr:
  "decode_config_loop n prev c = (Inr ps, c') \<longleftrightarrow>
     length ps = n \<and> increasing prev ps \<and>
     list_all (\<lambda>(k, v). fits_str (cur_max_field_len c') k \<and> fits_bytes (cur_max_field_len c') v) ps \<and>
     c = c'\<lparr>cur_buf := concat (map config_entry ps) @ cur_buf c'\<rparr>"
proof (induction n arbitrary: prev c ps)
  case 0
  then show ?case by (auto simp: rd_return_Inr)
next
  case (Suc n)
  show ?case
    by (cases ps)
      (auto simp: reader_iffs str_field.read_iff cur_bytes_Inr Suc.IH increasing_Cons
        config_entry_def not_le split: option.splits)
qed

text \<open>
  Parameter lists that exist in memory: every key is a \<^verbatim>\<open>str\<close> (well-formed UTF-8) and every
  length is under 2^64.
\<close>

definition params_fit :: "(string \<times> bytes) list \<Rightarrow> bool" where
  "params_fit ps \<longleftrightarrow>
     length ps < 2 ^ 64 \<and>
     list_all (\<lambda>(k, v). utf8_valid (as_bytes k) \<and> length k < 2 ^ 64 \<and> length v < 2 ^ 64) ps"

lemma config_entries_length: "16 * length ps \<le> length (concat (map config_entry ps))"
  by (induction ps) (auto simp: config_entry_def field_bytes_def push_bytes_def)

lemma fst_Inr: "fst p = Inr x \<longleftrightarrow> (\<exists>c. p = (Inr x, c))"
  by (cases p) auto

lemma cur_bound_Inr:
  "cur_bound n each what c = (Inr u, c') \<longleftrightarrow>
     unat n \<le> length (cur_buf c) div max (unat each) 1 \<and> c = c'"
  by (auto simp: cur_bound_def)

lemma cur_finish_Inr: "cur_finish what c = (Inr u, c') \<longleftrightarrow> cur_buf c = [] \<and> c = c'"
  by (auto simp: cur_finish_def)

lemma cursor_new_whole:
  "cursor_new bs = c\<lparr>cur_buf := w\<rparr> \<and> cur_buf c = [] \<longleftrightarrow> c = cursor_new [] \<and> bs = w"
  by (cases c) (auto simp: cursor_new_def)

lemma params_fit_cap:
  "params_fit ps \<longleftrightarrow>
     length ps < 2 ^ 64 \<and> list_all (\<lambda>(k, v). fits_str usize_max k \<and> fits_bytes usize_max v) ps"
  by (auto simp: params_fit_def fits_str_def fits_bytes_def usize_max_def list_all_iff)

lemma decode_config_Inr:
  "decode_config bs = Inr ps \<longleftrightarrow>
     params_fit ps \<and> increasing None ps \<and>
     bs = u64_le (of_nat (length ps)) @ concat (map config_entry ps)"
proof -
  have "decode_config bs = Inr ps \<longleftrightarrow>
      (\<exists>n c. length ps = unat n \<and> increasing None ps \<and>
         list_all (\<lambda>(k, v). fits_str (cur_max_field_len c) k \<and> fits_bytes (cur_max_field_len c) v) ps \<and>
         unat n \<le> length (concat (map config_entry ps)) div 16 \<and>
         cursor_new bs = c\<lparr>cur_buf := u64_le n @ concat (map config_entry ps)\<rparr> \<and> cur_buf c = [])"
    apply (auto simp: decode_config_def fst_Inr reader_iffs u64_field.read_iff cur_bound_Inr
        cur_finish_Inr decode_config_loop_Inr)
    subgoal by blast
    subgoal for n c by (rule exI [of _ c], rule exI [of _ n]) simp
    done
  also have "\<dots> \<longleftrightarrow> (\<exists>n. length ps = unat n \<and> increasing None ps \<and>
         list_all (\<lambda>(k, v). fits_str usize_max k \<and> fits_bytes usize_max v) ps \<and>
         unat n \<le> length (concat (map config_entry ps)) div 16 \<and>
         bs = u64_le n @ concat (map config_entry ps))"
    unfolding cursor_new_whole by (simp add: cursor_new_def)
  also have "\<dots> \<longleftrightarrow> params_fit ps \<and> increasing None ps \<and>
     bs = u64_le (of_nat (length ps)) @ concat (map config_entry ps)"
  proof -
    have "length ps \<le> length (concat (map config_entry ps)) div 16"
      using config_entries_length [of ps] by simp
    moreover have "length ps = unat n \<longleftrightarrow> length ps < 2 ^ 64 \<and> n = of_nat (length ps)" for n :: u64
      using unsigned_less [of n, where 'a = nat] by (auto simp: unat_of_nat_u64)
    ultimately show ?thesis
      unfolding params_fit_cap by (auto simp: unat_of_nat_u64)
  qed
  finally show ?thesis .
qed

lemma encode_config_Inr:
  "encode_config ps = Inr bs \<longleftrightarrow>
     increasing None ps \<and> bs = u64_le (of_nat (length ps)) @ concat (map config_entry ps)"
  by (simp add: encode_config_def encode_config_loop_Inr)

section \<open>Properties\<close>

text \<open>
  C30: a length-prefixed read succeeds exactly when the buffer starts with what
  \<^verbatim>\<open>push_bytes\<close> writes for a slice within the field cap; it returns that slice, leaves the rest of
  the buffer and keeps the cap. A forged length is never read past the buffer.
\<close>

theorem cursor_bytes_exact:
  "cur_bytes what (cursor_with_cap buf cap) = (Inr bs, c') \<longleftrightarrow>
     length bs \<le> cap \<and> length bs < 2 ^ 64 \<and>
     (\<exists>rest. buf = push_bytes [] bs @ rest \<and> c' = cursor_with_cap rest cap)"
  by (cases c') (auto simp: cur_bytes_Inr fits_bytes_def field_bytes_def cursor_with_cap_def)

text \<open>
  C31: the variable fields of a cursor are exact. A string, an optional bounded string, an optional
  byte string or an optional integer is read exactly when the buffer starts with what the matching
  writer writes for it, within the field cap; the reader consumes that and nothing more, and keeps
  the cap. An optional string that is flagged but empty, over its limit or not UTF-8 is never read.
\<close>

theorem cursor_fields_exact:
  "(cur_string what (cursor_with_cap buf cap) = (Inr s, c') \<longleftrightarrow>
      fits_str cap s \<and> (\<exists>rest. buf = push_str [] s @ rest \<and> c' = cursor_with_cap rest cap)) \<and>
   (cur_opt_str maxl what (cursor_with_cap buf cap) = (Inr os, c') \<longleftrightarrow>
      fits_opt (\<lambda>cap s. s \<noteq> [] \<and> length s \<le> maxl \<and> fits_str cap s) cap os \<and>
      (\<exists>rest. buf = push_opt_str [] os @ rest \<and> c' = cursor_with_cap rest cap)) \<and>
   (cur_opt_bytes what (cursor_with_cap buf cap) = (Inr ob, c') \<longleftrightarrow>
      fits_opt fits_bytes cap ob \<and> (\<exists>rest. buf = push_opt_bytes [] ob @ rest \<and> c' = cursor_with_cap rest cap)) \<and>
   (cur_opt_u64 what (cursor_with_cap buf cap) = (Inr on, c') \<longleftrightarrow>
      (\<exists>rest. buf = push_opt_u64 [] on @ rest \<and> c' = cursor_with_cap rest cap))"
  unfolding str_field.read_iff opt_str_field.read_iff opt_bytes_field.read_iff opt_u64_field.read_iff
  by (cases c') (auto simp: cursor_with_cap_def push_str_field)

text \<open>
  C28: the genesis-config codec is canonical: the strict decoder accepts exactly the bytes the
  encoder produces, and returns the parameters they were produced from. So one parameter set has
  one encoding, every other byte string is refused, and neither end can drift from the other.
\<close>

theorem genesis_config_canonical:
  "decode_config bs = Inr ps \<longleftrightarrow> params_fit ps \<and> encode_config ps = Inr bs"
  by (auto simp: decode_config_Inr encode_config_Inr)

text \<open>
  C32: the map preimage is injective: two maps with the same \<^verbatim>\<open>encode_pairs\<close> bytes are the same
  map, so equal module roots over a collision-free hash mean equal module state.
\<close>

theorem encode_pairs_injective:
  assumes "map_fits m" and "map_fits m'" and "encode_pairs m = encode_pairs m'"
  shows "m = m'"
  using assms by (rule encode_pairs_inj)

theorem encode_pairs_injective_witness:
  "map_fits [([1], [2, 3])] \<and> [([1], [2, 3])] = [([1 :: byte], [2 :: byte, 3])]"
  using encode_pairs_injective [of "[([1], [2, 3])]" "[([1], [2, 3])]"]
  by (simp add: map_fits_def)

end
