(* ===== verification/Staged_Store.thy ===== *)
theory Staged_Store
  imports Codec
begin

text \<open>
  The staged-over-committed overlay of \<^verbatim>\<open>crates/kernel/sdk/src/staged_store.rs\<close> over the
  \<^verbatim>\<open>MerkleStore\<close> trait of \<^verbatim>\<open>sdk/src/lib.rs\<close>, and the in-memory store \<^verbatim>\<open>MemStore\<close> of
  \<^verbatim>\<open>crates/kernel/sdk-testkit/src/lib.rs\<close>.

  A \<^verbatim>\<open>Box<dyn MerkleStore>\<close> is a state of the type \<open>'s\<close> with the operations of the record
  \<open>store_lib\<close>, which also carries SHA-256 (the crate \<^verbatim>\<open>sha2\<close>). What the overlay needs of a
  store is the locale \<open>merkle_laws\<close>: reads return one view, and a batch replaces the named
  keys of that view. \<^verbatim>\<open>MemStore\<close> satisfies it for every hash function. The overlay addresses
  the store by hashed key, so what it promises holds for sets of logical keys on which the
  hash has no collision.
\<close>

section \<open>The store trait\<close>

record 's store_lib =
  lib_sha256 :: "bytes \<Rightarrow> bytes"
  ms_get :: "'s \<Rightarrow> bytes \<Rightarrow> error + bytes option"
  ms_prefetch :: "'s \<Rightarrow> bytes list \<Rightarrow> error + unit"
  ms_get_committed :: "'s \<Rightarrow> bytes \<Rightarrow> error + bytes option"
  ms_commit_batch :: "'s \<Rightarrow> (bytes \<times> bytes option) list \<Rightarrow> 's \<times> (error + unit)"
  ms_root :: "'s \<Rightarrow> state_root"

text \<open>The trait's default \<^verbatim>\<open>prefetch\<close> ignores the hint.\<close>

definition default_prefetch :: "'s \<Rightarrow> bytes list \<Rightarrow> error + unit" where
  "default_prefetch s keys = Inr ()"

section \<open>The overlay\<close>

definition store_key :: "'s store_lib \<Rightarrow> bytes \<Rightarrow> bytes" where
  "store_key L key = lib_sha256 L key"

record 's staged_store =
  ss_store :: 's
  ss_pending :: "(bytes \<times> bytes option) list"

definition staged_new :: "'s \<Rightarrow> 's staged_store" where
  "staged_new store = \<lparr>ss_store = store, ss_pending = []\<rparr>"

definition staged_get :: "'s store_lib \<Rightarrow> 's staged_store \<Rightarrow> bytes \<Rightarrow> error + bytes option" where
  "staged_get L st key =
     (case map_of (ss_pending st) key of
        Some staged \<Rightarrow> Inr staged
      | None \<Rightarrow> ms_get L (ss_store st) (store_key L key))"

definition staged_prefetch :: "'s store_lib \<Rightarrow> 's staged_store \<Rightarrow> bytes list \<Rightarrow> error + unit" where
  "staged_prefetch L st keys =
     (let digests = map (store_key L) (filter (\<lambda>key. map_of (ss_pending st) key = None) keys)
      in ms_prefetch L (ss_store st) digests)"

definition staged_get_committed ::
  "'s store_lib \<Rightarrow> 's staged_store \<Rightarrow> bytes \<Rightarrow> error + bytes option" where
  "staged_get_committed L st key = ms_get_committed L (ss_store st) (store_key L key)"

definition stage :: "'s staged_store \<Rightarrow> bytes \<Rightarrow> bytes \<Rightarrow> 's staged_store" where
  "stage st key value = st\<lparr>ss_pending := bt_insert key (Some value) (ss_pending st)\<rparr>"

definition stage_delete :: "'s staged_store \<Rightarrow> bytes \<Rightarrow> 's staged_store" where
  "stage_delete st key = st\<lparr>ss_pending := bt_insert key None (ss_pending st)\<rparr>"

definition checkpoint :: "'s staged_store \<Rightarrow> (bytes \<times> bytes option) list" where
  "checkpoint st = ss_pending st"

definition restore :: "'s staged_store \<Rightarrow> (bytes \<times> bytes option) list \<Rightarrow> 's staged_store" where
  "restore st cp = st\<lparr>ss_pending := cp\<rparr>"

definition staged_writes :: "'s staged_store \<Rightarrow> (bytes \<times> bytes option) list" where
  "staged_writes st = ss_pending st"

definition staged_is_empty :: "'s staged_store \<Rightarrow> bool" where
  "staged_is_empty st \<longleftrightarrow> ss_pending st = []"

definition staged_commit ::
  "'s store_lib \<Rightarrow> 's staged_store \<Rightarrow> 's staged_store \<times> (error + unit)" where
  "staged_commit L st =
     (if ss_pending st = [] then (st, Inr ())
      else
        let writes = map (\<lambda>(key, value). (store_key L key, value)) (ss_pending st) in
        case ms_commit_batch L (ss_store st) writes of
          (store, Inl e) \<Rightarrow> (st\<lparr>ss_store := store\<rparr>, Inl e)
        | (store, Inr _) \<Rightarrow> (st\<lparr>ss_store := store, ss_pending := []\<rparr>, Inr ()))"

definition staged_abort :: "'s staged_store \<Rightarrow> 's staged_store" where
  "staged_abort st = st\<lparr>ss_pending := []\<rparr>"

definition staged_root :: "'s store_lib \<Rightarrow> 's staged_store \<Rightarrow> state_root" where
  "staged_root L st = ms_root L (ss_store st)"

section \<open>The in-memory store\<close>

record mem_store =
  mem_map :: "(bytes \<times> bytes) list"

definition mem_new :: mem_store where
  "mem_new = \<lparr>mem_map = []\<rparr>"

definition mem_get :: "mem_store \<Rightarrow> bytes \<Rightarrow> error + bytes option" where
  "mem_get s key = Inr (map_of (mem_map s) key)"

fun mem_write :: "bytes \<times> bytes option \<Rightarrow> mem_store \<Rightarrow> mem_store" where
  "mem_write (key, Some value) s = s\<lparr>mem_map := bt_insert key value (mem_map s)\<rparr>"
| "mem_write (key, None) s = s\<lparr>mem_map := bt_remove key (mem_map s)\<rparr>"

definition mem_commit_batch ::
  "mem_store \<Rightarrow> (bytes \<times> bytes option) list \<Rightarrow> mem_store \<times> (error + unit)" where
  "mem_commit_batch s writes = (fold mem_write writes s, Inr ())"

definition mem_root :: "(bytes \<Rightarrow> bytes) \<Rightarrow> mem_store \<Rightarrow> state_root" where
  "mem_root sha s = sha (encode_pairs (mem_map s))"

definition mem_lib :: "(bytes \<Rightarrow> bytes) \<Rightarrow> mem_store store_lib" where
  "mem_lib sha =
     \<lparr>lib_sha256 = sha, ms_get = mem_get, ms_prefetch = default_prefetch,
      ms_get_committed = mem_get, ms_commit_batch = mem_commit_batch, ms_root = mem_root sha\<rparr>"

section \<open>The contract of a store\<close>

definition apply_writes :: "('k \<times> 'v option) list \<Rightarrow> ('k \<rightharpoonup> 'v) \<Rightarrow> ('k \<rightharpoonup> 'v)" where
  "apply_writes ws m = fold (\<lambda>(k, v) m. m(k := v)) ws m"

locale merkle_laws =
  fixes L :: "'s store_lib"
    and view :: "'s \<Rightarrow> bytes \<rightharpoonup> bytes"
    and ok :: "'s \<Rightarrow> bool"
  assumes get_view: "ok s \<Longrightarrow> ms_get L s k = Inr (view s k)"
    and get_committed_view: "ok s \<Longrightarrow> ms_get_committed L s k = Inr (view s k)"
    and commit_batch_ok: "ok s \<Longrightarrow> snd (ms_commit_batch L s ws) = Inr ()"
    and commit_batch_view: "ok s \<Longrightarrow> view (fst (ms_commit_batch L s ws)) = apply_writes ws (view s)"
    and commit_batch_inv: "ok s \<Longrightarrow> ok (fst (ms_commit_batch L s ws))"

abbreviation "mem_view \<equiv> \<lambda>s. map_of (mem_map s)"
abbreviation "mem_ok \<equiv> \<lambda>s. bt_inv (mem_map s)"

interpretation mem: merkle_laws "mem_lib sha" "\<lambda>s. map_of (mem_map s)" "\<lambda>s. bt_inv (mem_map s)"
  for sha
proof
  fix s :: mem_store and ws :: "(bytes \<times> bytes option) list"
  show "map_of (mem_map (fst (ms_commit_batch (mem_lib sha) s ws))) =
        apply_writes ws (map_of (mem_map s))"
    unfolding mem_lib_def mem_commit_batch_def apply_writes_def
  proof (simp, induction ws arbitrary: s)
    case (Cons w ws)
    then show ?case by (cases w; cases "snd w") (auto simp: fun_upd_def)
  qed simp
  show "bt_inv (mem_map (fst (ms_commit_batch (mem_lib sha) s ws)))" if "bt_inv (mem_map s)"
    using that unfolding mem_lib_def mem_commit_batch_def
  proof (simp, induction ws arbitrary: s)
    case (Cons w ws)
    then show ?case by (cases w; cases "snd w") auto
  qed simp
qed (auto simp: mem_lib_def mem_get_def mem_commit_batch_def)

section \<open>The overlay over a lawful store\<close>

text \<open>What a read of the overlay sees, and what the store holds, per logical key.\<close>

definition committed ::
  "('s \<Rightarrow> bytes \<rightharpoonup> bytes) \<Rightarrow> 's store_lib \<Rightarrow> 's staged_store \<Rightarrow> bytes \<rightharpoonup> bytes" where
  "committed view L st k = view (ss_store st) (store_key L k)"

definition visible ::
  "('s \<Rightarrow> bytes \<rightharpoonup> bytes) \<Rightarrow> 's store_lib \<Rightarrow> 's staged_store \<Rightarrow> bytes \<rightharpoonup> bytes" where
  "visible view L st k =
     (case map_of (ss_pending st) k of Some v \<Rightarrow> v | None \<Rightarrow> committed view L st k)"

text \<open>The store is lawful, the overlay is a map and stays within the logical keys \<open>K\<close>.\<close>

definition staged_ok ::
  "('s \<Rightarrow> bool) \<Rightarrow> bytes set \<Rightarrow> 's staged_store \<Rightarrow> bool" where
  "staged_ok ok K st \<longleftrightarrow>
     ok (ss_store st) \<and> bt_inv (ss_pending st) \<and> fst ` set (ss_pending st) \<subseteq> K"

lemma staged_ok_new: "ok s \<Longrightarrow> staged_ok ok K (staged_new s)"
  by (simp add: staged_ok_def staged_new_def)

lemma staged_ok_stage [intro]: "staged_ok ok K st \<Longrightarrow> k \<in> K \<Longrightarrow> staged_ok ok K (stage st k v)"
  and staged_ok_delete [intro]: "staged_ok ok K st \<Longrightarrow> k \<in> K \<Longrightarrow> staged_ok ok K (stage_delete st k)"
  and staged_ok_abort [intro]: "staged_ok ok K st \<Longrightarrow> staged_ok ok K (staged_abort st)"
  by (auto simp: staged_ok_def stage_def stage_delete_def staged_abort_def set_fst_bt_insert)

lemma visible_stage [simp, staged_simps]:
  "visible view L (stage st k v) = (visible view L st)(k \<mapsto> v)"
  and visible_delete [simp, staged_simps]:
  "visible view L (stage_delete st k) = (visible view L st)(k := None)"
  and visible_abort [simp, staged_simps]:
  "visible view L (staged_abort st) = committed view L st"
  by (auto simp: visible_def stage_def stage_delete_def staged_abort_def committed_def fun_eq_iff
      split: option.split)

lemma committed_still [simp, staged_simps]:
  "committed view L (stage st k v) = committed view L st"
  "committed view L (stage_delete st k) = committed view L st"
  "committed view L (staged_abort st) = committed view L st"
  "ss_store (stage st k v) = ss_store st"
  "ss_store (stage_delete st k) = ss_store st"
  "ss_store (staged_abort st) = ss_store st"
  by (auto simp: stage_def stage_delete_def staged_abort_def committed_def fun_eq_iff)

lemma apply_writes_hashed:
  assumes "distinct (map fst ps)" and "inj_on h K" and "fst ` set ps \<subseteq> K" and "k \<in> K"
  shows "apply_writes (map (\<lambda>(key, v). (h key, v)) ps) m (h k) =
         (case map_of ps k of Some v \<Rightarrow> v | None \<Rightarrow> m (h k))"
  using assms(1,3)
proof (induction ps arbitrary: m)
  case Nil
  then show ?case by (simp add: apply_writes_def)
next
  case (Cons p ps)
  obtain a b where p: "p = (a, b)" by fastforce
  have "h a = h k \<longleftrightarrow> a = k"
    using assms(2,4) Cons.prems p by (auto dest: inj_onD)
  moreover have "map_of ps a = None"
    using Cons.prems p by (auto simp: map_of_eq_None_iff)
  ultimately show ?case
    using Cons p by (auto simp: apply_writes_def split: option.split)
qed

lemma bt_inv_distinct: "bt_inv m \<Longrightarrow> distinct (map fst m)"
  by (simp add: bt_inv_def strict_sorted_iff)

context merkle_laws
begin

lemma staged_get_visible:
  "staged_ok ok K st \<Longrightarrow> staged_get L st k = Inr (visible view L st k)"
  by (simp add: staged_get_def visible_def committed_def staged_ok_def get_view split: option.split)

lemma staged_get_committed_eq:
  "staged_ok ok K st \<Longrightarrow> staged_get_committed L st k = Inr (committed view L st k)"
  by (simp add: staged_get_committed_def committed_def staged_ok_def get_committed_view)

lemma staged_commit_ok:
  assumes "staged_ok ok K st"
  shows "snd (staged_commit L st) = Inr ()"
    and "ss_pending (fst (staged_commit L st)) = []"
    and "staged_ok ok K (fst (staged_commit L st))"
  using assms commit_batch_ok [of "ss_store st"] commit_batch_inv [of "ss_store st"]
  by (auto simp: staged_commit_def staged_ok_def Let_def split: prod.splits sum.splits)
    (metis Inl_Inr_False snd_conv fst_conv)+

lemma staged_commit_committed:
  assumes "staged_ok ok K st" and "inj_on (store_key L) K" and "k \<in> K"
  shows "committed view L (fst (staged_commit L st)) k = visible view L st k"
proof (cases "ss_pending st = []")
  case True
  then show ?thesis by (simp add: staged_commit_def visible_def)
next
  case False
  let ?ws = "map (\<lambda>(key, value). (store_key L key, value)) (ss_pending st)"
  have "ss_store (fst (staged_commit L st)) = fst (ms_commit_batch L (ss_store st) ?ws)"
    using False by (auto simp: staged_commit_def Let_def split: prod.splits sum.splits)
  moreover have "ok (ss_store st)" using assms(1) by (simp add: staged_ok_def)
  ultimately show ?thesis
    using apply_writes_hashed [OF bt_inv_distinct assms(2) _ assms(3), of "ss_pending st"] assms(1)
    by (simp add: committed_def visible_def commit_batch_view staged_ok_def split: option.split)
qed

lemma staged_commit_visible:
  assumes "staged_ok ok K st" and "inj_on (store_key L) K" and "k \<in> K"
  shows "visible view L (fst (staged_commit L st)) k = visible view L st k"
  using staged_commit_ok(2) [OF assms(1)] staged_commit_committed [OF assms]
  by (simp add: visible_def)

end

section \<open>The block overlay refines two maps\<close>

text \<open>
  The promise of the overlay: a committed map and a working map over logical keys. Writes go
  to the working map, an abort resets it and a commit publishes it.
\<close>

datatype overlay_op = OpStage bytes bytes | OpDelete bytes | OpAbort | OpCommit

fun overlay_keys :: "overlay_op \<Rightarrow> bytes set" where
  "overlay_keys (OpStage k v) = {k}"
| "overlay_keys (OpDelete k) = {k}"
| "overlay_keys OpAbort = {}"
| "overlay_keys OpCommit = {}"

record overlay_spec =
  spec_committed :: "bytes \<rightharpoonup> bytes"
  spec_working :: "bytes \<rightharpoonup> bytes"

fun spec_op :: "overlay_op \<Rightarrow> overlay_spec \<Rightarrow> overlay_spec" where
  "spec_op (OpStage k v) a = a\<lparr>spec_working := (spec_working a)(k \<mapsto> v)\<rparr>"
| "spec_op (OpDelete k) a = a\<lparr>spec_working := (spec_working a)(k := None)\<rparr>"
| "spec_op OpAbort a = a\<lparr>spec_working := spec_committed a\<rparr>"
| "spec_op OpCommit a = a\<lparr>spec_committed := spec_working a\<rparr>"

definition spec_init :: "('s \<Rightarrow> bytes \<rightharpoonup> bytes) \<Rightarrow> 's store_lib \<Rightarrow> 's \<Rightarrow> overlay_spec" where
  "spec_init view L store =
     \<lparr>spec_committed = (\<lambda>k. view store (store_key L k)),
      spec_working = (\<lambda>k. view store (store_key L k))\<rparr>"

fun run_overlay_op :: "'s store_lib \<Rightarrow> overlay_op \<Rightarrow> 's staged_store \<Rightarrow> 's staged_store" where
  "run_overlay_op L (OpStage k v) st = stage st k v"
| "run_overlay_op L (OpDelete k) st = stage_delete st k"
| "run_overlay_op L OpAbort st = staged_abort st"
| "run_overlay_op L OpCommit st = fst (staged_commit L st)"

definition overlay_sim ::
  "('s \<Rightarrow> bytes \<rightharpoonup> bytes) \<Rightarrow> 's store_lib \<Rightarrow> bytes set \<Rightarrow> 's staged_store \<Rightarrow> overlay_spec \<Rightarrow> bool" where
  "overlay_sim view L K st a \<longleftrightarrow>
     (\<forall>k\<in>K. committed view L st k = spec_committed a k \<and> visible view L st k = spec_working a k)"

context merkle_laws
begin

lemma overlay_step:
  assumes "staged_ok ok K st" and "inj_on (store_key L) K" and "overlay_keys op \<subseteq> K"
    and "overlay_sim view L K st a"
  shows "staged_ok ok K (run_overlay_op L op st) \<and>
         overlay_sim view L K (run_overlay_op L op st) (spec_op op a)"
  using assms staged_commit_ok(3) staged_commit_committed staged_commit_visible
  by (cases op) (auto simp: overlay_sim_def)

lemma overlay_run:
  assumes "staged_ok ok K st" and "inj_on (store_key L) K"
    and "\<Union> (overlay_keys ` set ops) \<subseteq> K" and "overlay_sim view L K st a"
  shows "staged_ok ok K (fold (run_overlay_op L) ops st) \<and>
         overlay_sim view L K (fold (run_overlay_op L) ops st) (fold spec_op ops a)"
  using assms
proof (induction ops arbitrary: st a)
  case (Cons op ops)
  then show ?case using overlay_step [of K st op a] by auto
qed simp

end

lemma no_commit_keeps_store:
  "OpCommit \<notin> set ops \<Longrightarrow> ss_store (fold (run_overlay_op L) ops st) = ss_store st"
proof (induction ops arbitrary: st)
  case (Cons op ops)
  then show ?case by (cases op) auto
qed simp

text \<open>
  C15: the staging overlay refines its contract. Over a lawful store, and for logical keys on
  which the hash has no collision, any sequence of stages, deletes, aborts and commits leaves
  \<^verbatim>\<open>get\<close> reading the working map (read-your-writes, a staged delete reads as absence) and
  \<^verbatim>\<open>get_committed\<close> reading the map as of the last commit.
\<close>

theorem overlay_refines_maps:
  assumes "merkle_laws L view ok" and "ok store" and "inj_on (store_key L) K"
    and "\<Union> (overlay_keys ` set ops) \<subseteq> K" and "k \<in> K"
  shows "staged_get L (fold (run_overlay_op L) ops (staged_new store)) k =
           Inr (spec_working (fold spec_op ops (spec_init view L store)) k) \<and>
         staged_get_committed L (fold (run_overlay_op L) ops (staged_new store)) k =
           Inr (spec_committed (fold spec_op ops (spec_init view L store)) k)"
proof -
  let ?st = "fold (run_overlay_op L) ops (staged_new store)"
  have "overlay_sim view L K (staged_new store) (spec_init view L store)"
    by (simp add: overlay_sim_def spec_init_def staged_new_def committed_def visible_def)
  then have "staged_ok ok K ?st"
    and "overlay_sim view L K ?st (fold spec_op ops (spec_init view L store))"
    using merkle_laws.overlay_run [OF assms(1) staged_ok_new [of ok, OF assms(2)] assms(3,4)] by auto
  then show ?thesis
    using merkle_laws.staged_get_visible [OF assms(1)] assms(5)
      merkle_laws.staged_get_committed_eq [OF assms(1)]
    by (auto simp: overlay_sim_def)
qed

theorem overlay_refines_maps_witness:
  "staged_get (mem_lib id) (fold (run_overlay_op (mem_lib id))
       [OpStage [1] [7], OpCommit, OpDelete [1]] (staged_new mem_new)) [1] = Inr None \<and>
   staged_get_committed (mem_lib id) (fold (run_overlay_op (mem_lib id))
       [OpStage [1] [7], OpCommit, OpDelete [1]] (staged_new mem_new)) [1] = Inr (Some [7])"
proof -
  have inj: "inj_on (store_key (mem_lib id)) UNIV"
    by (simp add: store_key_def mem_lib_def inj_on_def)
  show ?thesis
    using overlay_refines_maps [OF mem.merkle_laws_axioms [of id], where store = mem_new and K = UNIV
        and k = "[1]" and ops = "[OpStage [1] [7], OpCommit, OpDelete [1]]"] inj
    by (simp add: mem_new_def spec_init_def)
qed

text \<open>
  C16: only a commit moves authenticated state. Any run of stages, deletes and aborts leaves the
  root as it was, an abort after it restores exactly the state before it, and restoring a
  checkpoint taken before it does the same without losing what was staged earlier.
\<close>

theorem overlay_rollback_exact:
  assumes "OpCommit \<notin> set ops"
  shows "staged_root L (fold (run_overlay_op L) ops st) = staged_root L st \<and>
         staged_abort (fold (run_overlay_op L) ops st) = staged_abort st \<and>
         restore (fold (run_overlay_op L) ops st) (checkpoint st) = st"
  using no_commit_keeps_store [OF assms, of L st]
  by (auto simp: staged_root_def staged_abort_def restore_def checkpoint_def
      intro: staged_store.equality)

theorem overlay_rollback_exact_witness:
  "restore (fold (run_overlay_op (mem_lib id)) [OpStage [2] [9], OpAbort]
     (stage (staged_new mem_new) [1] [7])) (checkpoint (stage (staged_new mem_new) [1] [7])) =
   stage (staged_new mem_new) [1] [7]"
  using overlay_rollback_exact [of "[OpStage [2] [9], OpAbort]" "mem_lib id"] by simp

end
