(* ===== verification/Wire.thy ===== *)
theory Wire
  imports Staged_Store
begin

text \<open>
  The serialization seams. Module messages and replies travel as JSON through the pair
  \<^verbatim>\<open>encode\<close>/\<^verbatim>\<open>decode\<close> of \<^verbatim>\<open>crates/kernel/sdk/src/wire.rs\<close>, and modules store records with
  borsh. Both formats come from third-party crates (\<^verbatim>\<open>serde_json\<close>, \<^verbatim>\<open>borsh\<close>), so a format for
  a type is an argument, the record \<open>serde\<close>: \<^verbatim>\<open>to_vec\<close> and \<^verbatim>\<open>from_slice\<close> with its error text.
  Serializing the derived types of this repository into a vector does not fail, so
  \<open>to_vec\<close> returns the bytes and the callers' \<^verbatim>\<open>expect\<close> is never reached.

  What callers rely on is \<open>round_trips_on\<close>. The section at the end has a format with a total
  round trip for lists, built from three combinators, with which the hypotheses of the properties are
  shown to be satisfiable.
\<close>

record 'a serde =
  to_vec :: "'a \<Rightarrow> bytes"
  from_slice :: "bytes \<Rightarrow> string + 'a"

definition round_trips_on :: "'a set \<Rightarrow> 'a serde \<Rightarrow> bool" where
  "round_trips_on S W \<longleftrightarrow> (\<forall>x\<in>S. from_slice W (to_vec W x) = Inr x)"

definition wire_encode :: "'a serde \<Rightarrow> 'a \<Rightarrow> bytes" where
  "wire_encode W value = to_vec W value"

definition wire_decode :: "'a serde \<Rightarrow> bytes \<Rightarrow> string + 'a" where
  "wire_decode W bs = from_slice W bs"

lemma round_trips_onD: "round_trips_on S W \<Longrightarrow> x \<in> S \<Longrightarrow> from_slice W (to_vec W x) = Inr x"
  by (simp add: round_trips_on_def)

section \<open>A self-delimiting format\<close>

text \<open>A writer and a parser that returns the value and the rest of the input.\<close>

type_synonym 'a fmt = "('a \<Rightarrow> bytes) \<times> (bytes \<Rightarrow> ('a \<times> bytes) option)"

definition fmt_ok :: "'a fmt \<Rightarrow> bool" where
  "fmt_ok f \<longleftrightarrow> (\<forall>x rest. snd f (fst f x @ rest) = Some (x, rest))"

definition fmt_byte :: "byte fmt" where
  "fmt_byte = (\<lambda>b. [b], \<lambda>bs. case bs of [] \<Rightarrow> None | b # r \<Rightarrow> Some (b, r))"

definition fmt_pair :: "'a fmt \<Rightarrow> 'b fmt \<Rightarrow> ('a \<times> 'b) fmt" where
  "fmt_pair f g =
     (\<lambda>(x, y). fst f x @ fst g y,
      \<lambda>bs. case snd f bs of None \<Rightarrow> None
         | Some (x, r) \<Rightarrow> (case snd g r of None \<Rightarrow> None | Some (y, r') \<Rightarrow> Some ((x, y), r')))"

fun parse_list :: "nat \<Rightarrow> (bytes \<Rightarrow> ('a \<times> bytes) option) \<Rightarrow> bytes \<Rightarrow> ('a list \<times> bytes) option" where
  "parse_list 0 p bs = None"
| "parse_list (Suc n) p [] = None"
| "parse_list (Suc n) p (b # bs) =
     (if b = 0 then Some ([], bs)
      else case p bs of None \<Rightarrow> None
         | Some (x, r) \<Rightarrow>
             (case parse_list n p r of None \<Rightarrow> None | Some (xs, r') \<Rightarrow> Some (x # xs, r')))"

definition write_list :: "('a \<Rightarrow> bytes) \<Rightarrow> 'a list \<Rightarrow> bytes" where
  "write_list w xs = concat (map (\<lambda>x. 1 # w x) xs) @ [0]"

definition fmt_list :: "'a fmt \<Rightarrow> 'a list fmt" where
  "fmt_list f = (write_list (fst f), \<lambda>bs. parse_list (Suc (length bs)) (snd f) bs)"

definition fmt_map :: "('b \<Rightarrow> 'a) \<Rightarrow> ('a \<Rightarrow> 'b option) \<Rightarrow> 'a fmt \<Rightarrow> 'b fmt" where
  "fmt_map into back f =
     (\<lambda>x. fst f (into x),
      \<lambda>bs. case snd f bs of None \<Rightarrow> None
         | Some (y, r) \<Rightarrow> (case back y of None \<Rightarrow> None | Some x \<Rightarrow> Some (x, r)))"

definition serde_of :: "'a fmt \<Rightarrow> 'a serde" where
  "serde_of f =
     \<lparr>to_vec = fst f,
      from_slice = (\<lambda>bs. case snd f bs of Some (x, []) \<Rightarrow> Inr x | _ \<Rightarrow> Inl ''malformed'')\<rparr>"

lemma fmt_byte_ok: "fmt_ok fmt_byte"
  by (simp add: fmt_ok_def fmt_byte_def)

lemma fmt_pair_ok: "fmt_ok f \<Longrightarrow> fmt_ok g \<Longrightarrow> fmt_ok (fmt_pair f g)"
  by (auto simp: fmt_ok_def fmt_pair_def)

lemma fmt_map_ok: "fmt_ok f \<Longrightarrow> (\<And>x. back (into x) = Some x) \<Longrightarrow> fmt_ok (fmt_map into back f)"
  by (auto simp: fmt_ok_def fmt_map_def)

lemma parse_write_list:
  assumes "fmt_ok f" and "length xs < n"
  shows "parse_list n (snd f) (write_list (fst f) xs @ rest) = Some (xs, rest)"
  using assms(2)
proof (induction xs arbitrary: n)
  case Nil
  then show ?case by (cases n) (auto simp: write_list_def)
next
  case (Cons x xs)
  then obtain m where "n = Suc m" "length xs < m" by (cases n) auto
  then show ?case
    using Cons.IH [of m] assms(1) by (simp add: write_list_def fmt_ok_def)
qed

lemma length_write_list: "length xs < length (write_list w xs @ rest)"
  by (induction xs) (auto simp: write_list_def)

lemma fmt_list_ok:
  assumes "fmt_ok f"
  shows "fmt_ok (fmt_list f)"
  unfolding fmt_ok_def [of "fmt_list f"]
proof (intro allI)
  fix xs rest
  have "length xs < Suc (length (write_list (fst f) xs @ rest))"
    using length_write_list by (rule less_SucI)
  from parse_write_list [OF assms this]
  show "snd (fmt_list f) (fst (fmt_list f) xs @ rest) = Some (xs, rest)"
    by (simp only: fmt_list_def fst_conv snd_conv)
qed

lemma serde_of_round_trips:
  assumes "fmt_ok f"
  shows "round_trips_on S (serde_of f)"
proof -
  have "snd f (fst f x) = Some (x, [])" for x
    using assms [unfolded fmt_ok_def, rule_format, of x "[]"] by simp
  then show ?thesis by (simp add: round_trips_on_def serde_of_def)
qed

lemma serde_of_back: "fmt_ok f \<Longrightarrow> from_slice (serde_of f) (to_vec (serde_of f) x) = Inr x"
  using serde_of_round_trips [of f UNIV] by (simp add: round_trips_on_def)

definition fmt_bytes :: "bytes fmt" where
  "fmt_bytes = fmt_list fmt_byte"

definition fmt_str :: "string fmt" where
  "fmt_str = fmt_map as_bytes (\<lambda>bs. Some (of_bytes bs)) fmt_bytes"

definition fmt_option :: "'a fmt \<Rightarrow> 'a option fmt" where
  "fmt_option f =
     fmt_map (case_option [] (\<lambda>x. [x])) (\<lambda>xs. case xs of [] \<Rightarrow> Some None | x # _ \<Rightarrow> Some (Some x))
       (fmt_list f)"

lemma fmt_bytes_ok: "fmt_ok fmt_bytes"
  by (simp add: fmt_bytes_def fmt_list_ok fmt_byte_ok)

lemma fmt_str_ok: "fmt_ok fmt_str"
  by (simp add: fmt_str_def fmt_map_ok fmt_bytes_ok)

lemma fmt_option_ok: "fmt_ok f \<Longrightarrow> fmt_ok (fmt_option f)"
  unfolding fmt_option_def by (intro fmt_map_ok fmt_list_ok) (simp_all split: option.split)

lemmas fmt_oks = fmt_map_ok fmt_bytes_ok fmt_str_ok fmt_option_ok fmt_byte_ok fmt_pair_ok fmt_list_ok

end
