(* ===== verification/Kv.thy ===== *)
theory Kv
  imports Wire
begin

text \<open>
  The key-value module (\<^verbatim>\<open>crates/modules/system/kv/src\<close>): one write message, one read, size
  caps at write time, all state in a \<^verbatim>\<open>StagedStore\<close>. The properties: a write is either
  refused and stages nothing or is visible to the next read and changes no other key, and
  no over-cap value ever reaches the store, whatever the sequence of messages and blocks.
\<close>

section \<open>Wire surface\<close>

datatype kv_msg = KvSet bytes bytes
datatype kv_query_msg = KvGet bytes
datatype kv_reply = KvValue "bytes option"

record kv_wires =
  kvw_msg :: "kv_msg serde"
  kvw_query :: "kv_query_msg serde"
  kvw_reply :: "kv_reply serde"

section \<open>The module\<close>

definition MAX_KEY_LEN :: nat where
  "MAX_KEY_LEN = 4 * 1024"

definition MAX_VALUE_LEN :: nat where
  "MAX_VALUE_LEN = 2 ^ 20 - 4 * 1024"

record 's kv =
  kv_id :: module_id
  kv_staged :: "'s staged_store"

definition kv_new :: "module_id \<Rightarrow> 's \<Rightarrow> 's kv" where
  "kv_new mid store = \<lparr>kv_id = mid, kv_staged = staged_new store\<rparr>"

definition check_write_caps :: "bytes \<Rightarrow> bytes \<Rightarrow> error + unit" where
  "check_write_caps key value =
     (if length key > MAX_KEY_LEN
      then Inl (ModuleError (''key too large: '' @ show_nat (length key) @
                 '' bytes exceeds the '' @ show_nat MAX_KEY_LEN @ ''-byte cap''))
      else if length value > MAX_VALUE_LEN
      then Inl (ModuleError (''value too large: '' @ show_nat (length value) @
                 '' bytes exceeds the '' @ show_nat MAX_VALUE_LEN @ ''-byte cap''))
      else Inr ())"

definition kv_stage :: "'s kv \<Rightarrow> bytes \<Rightarrow> bytes \<Rightarrow> 's kv \<times> (error + unit)" where
  "kv_stage m key value =
     (case check_write_caps key value of
        Inl e \<Rightarrow> (m, Inl e)
      | Inr _ \<Rightarrow> (m\<lparr>kv_staged := stage (kv_staged m) key value\<rparr>, Inr ()))"

definition kv_commit_block :: "'s store_lib \<Rightarrow> 's kv \<Rightarrow> 's kv \<times> (error + unit)" where
  "kv_commit_block L m =
     (case staged_commit L (kv_staged m) of (st, r) \<Rightarrow> (m\<lparr>kv_staged := st\<rparr>, r))"

definition kv_set :: "'s store_lib \<Rightarrow> 's kv \<Rightarrow> bytes \<Rightarrow> bytes \<Rightarrow> 's kv \<times> (error + unit)" where
  "kv_set L m key value =
     (case kv_stage m key value of
        (m', Inl e) \<Rightarrow> (m', Inl e)
      | (m', Inr _) \<Rightarrow> kv_commit_block L m')"

text \<open>\<^verbatim>\<open>get\<close>: a failed store read is a panic.\<close>

definition kv_get :: "'s store_lib \<Rightarrow> 's kv \<Rightarrow> bytes \<Rightarrow> error + bytes option" where
  "kv_get L m key = map_err (\<lambda>_. Panicked ''get failed'') (staged_get L (kv_staged m) key)"

definition kv_execute :: "kv_wires \<Rightarrow> 's kv \<Rightarrow> env \<Rightarrow> msg \<Rightarrow> 's kv dispatch_out ctx_m" where
  "kv_execute W m env msg =
     (case map_err ModuleError (wire_decode (kvw_msg W) (msg_payload msg)) of
        Inl e \<Rightarrow> Done (quiet_out m (Inl e))
      | Inr (KvSet key value) \<Rightarrow>
          (case kv_stage m key value of (m', r) \<Rightarrow> Done (quiet_out m' r)))"

definition kv_query :: "'s store_lib \<Rightarrow> kv_wires \<Rightarrow> 's kv \<Rightarrow> bytes \<Rightarrow> error + bytes" where
  "kv_query L W m req =
     (case map_err ModuleError (wire_decode (kvw_query W) req) of
        Inl e \<Rightarrow> Inl e
      | Inr (KvGet key) \<Rightarrow>
          and_then (kv_get L m key) (\<lambda>v. Inr (wire_encode (kvw_reply W) (KvValue v))))"

definition kv_abort_block :: "'s kv \<Rightarrow> 's kv \<times> (error + unit)" where
  "kv_abort_block m = (m\<lparr>kv_staged := staged_abort (kv_staged m)\<rparr>, Inr ())"

definition kv_root :: "'s store_lib \<Rightarrow> 's kv \<Rightarrow> state_root" where
  "kv_root L m = staged_root L (kv_staged m)"

definition kv_ops :: "'s store_lib \<Rightarrow> kv_wires \<Rightarrow> 's kv module_ops" where
  "kv_ops L W =
     \<lparr>mod_id = kv_id,
      mod_root = kv_root L,
      mod_execute = kv_execute W,
      mod_acknowledge = default_acknowledge,
      mod_query = (\<lambda>m _ req. Done (kv_query L W m req)),
      mod_pending_items = default_pending_items,
      mod_commit_block = kv_commit_block L,
      mod_abort_block = kv_abort_block,
      mod_code_hash = (\<lambda>_. None),
      mod_prepare_swap = default_prepare_swap\<rparr>"

section \<open>Staging contract\<close>

lemma kv_stage_cases:
  "kv_stage m key value =
     (if length key \<le> MAX_KEY_LEN \<and> length value \<le> MAX_VALUE_LEN
      then (m\<lparr>kv_staged := stage (kv_staged m) key value\<rparr>, Inr ())
      else (m, check_write_caps key value))"
  by (auto simp: kv_stage_def check_write_caps_def)

definition kv_base :: "'s kv \<Rightarrow> 's kv" where
  "kv_base m = m\<lparr>kv_staged := staged_abort (kv_staged m)\<rparr>"

interpretation kv_laws: module_laws "kv_ops L W" kv_base for L W
  by unfold_locales
    (auto simp: kv_ops_def kv_base_def kv_abort_block_def kv_root_def staged_root_def
      staged_abort_def kv_execute_def kv_stage_cases stage_def quiet_out_def
      default_acknowledge_def split: sum.split kv_msg.split)

section \<open>Properties\<close>

text \<open>
  C26: a kv write is visible at once and is the only change. When the payload decodes to a
  write of \<open>key\<close> within the caps, \<^verbatim>\<open>execute\<close> succeeds, a query for \<open>key\<close> then answers the new
  value, and a query for any other key answers as before.
\<close>

theorem kv_write_read:
  assumes "merkle_laws L view ok" and "staged_ok ok K (kv_staged m)"
    and "from_slice (kvw_msg W) (msg_payload msg) = Inr (KvSet key val)"
    and "length key \<le> MAX_KEY_LEN" and "length val \<le> MAX_VALUE_LEN" and "key \<in> K"
    and "from_slice (kvw_query W) req = Inr (KvGet key')"
  shows "\<exists>m'. run_quiet (kv_execute W m env msg) = Some (quiet_out m' (Inr ())) \<and>
     kv_query L W m' req =
       (if key' = key then Inr (to_vec (kvw_reply W) (KvValue (Some val))) else kv_query L W m req)"
proof -
  let ?m = "m\<lparr>kv_staged := stage (kv_staged m) key val\<rparr>"
  have "staged_get L (kv_staged ?m) key' =
      Inr (if key' = key then Some val else visible view L (kv_staged m) key')"
    using merkle_laws.staged_get_visible [OF assms(1) staged_ok_stage [OF assms(2,6)]] by simp
  moreover have "staged_get L (kv_staged m) key' = Inr (visible view L (kv_staged m) key')"
    using merkle_laws.staged_get_visible [OF assms(1,2)] .
  ultimately have "kv_query L W ?m req =
      (if key' = key then Inr (to_vec (kvw_reply W) (KvValue (Some val))) else kv_query L W m req)"
    using assms(7) by (simp add: kv_query_def kv_get_def wire_decode_def wire_encode_def)
  moreover have "run_quiet (kv_execute W m env msg) = Some (quiet_out ?m (Inr ()))"
    using assms(3-5) by (simp add: kv_execute_def wire_decode_def kv_stage_cases)
  ultimately show ?thesis by blast
qed

definition kv_fmts :: kv_wires where
  "kv_fmts =
     \<lparr>kvw_msg = serde_of (fmt_map (\<lambda>m. case m of KvSet k v \<Rightarrow> (k, v)) (\<lambda>(k, v). Some (KvSet k v))
        (fmt_pair fmt_bytes fmt_bytes)),
      kvw_query = serde_of (fmt_map (\<lambda>q. case q of KvGet k \<Rightarrow> k) (\<lambda>k. Some (KvGet k)) fmt_bytes),
      kvw_reply = serde_of (fmt_map (\<lambda>r. case r of KvValue v \<Rightarrow> v) (\<lambda>v. Some (KvValue v))
        (fmt_option fmt_bytes))\<rparr>"

lemma kv_fmts_back:
  "from_slice (kvw_msg kv_fmts) (to_vec (kvw_msg kv_fmts) x) = Inr x"
  "from_slice (kvw_query kv_fmts) (to_vec (kvw_query kv_fmts) y) = Inr y"
  unfolding kv_fmts_def kv_wires.simps
  by (intro serde_of_back fmt_oks, simp split: kv_msg.split kv_query_msg.split)+

theorem kv_write_read_witness:
  "\<exists>m'. run_quiet (kv_execute kv_fmts (kv_new ''kv'' mem_new) (env_at_height 1)
        \<lparr>msg_target = ''kv'', msg_payload = to_vec (kvw_msg kv_fmts) (KvSet [1] [2])\<rparr>) =
      Some (quiet_out m' (Inr ())) \<and>
    kv_query (mem_lib id) kv_fmts m' (to_vec (kvw_query kv_fmts) (KvGet [1])) =
      Inr (to_vec (kvw_reply kv_fmts) (KvValue (Some [2])))"
  using kv_write_read [OF mem.merkle_laws_axioms [of id], where K = UNIV and key = "[1]"
      and val = "[2]" and key' = "[1]" and req = "to_vec (kvw_query kv_fmts) (KvGet [1])"
      and m = "kv_new ''kv'' mem_new" and W = kv_fmts and env = "env_at_height 1"
      and msg = "\<lparr>msg_target = ''kv'', msg_payload = to_vec (kvw_msg kv_fmts) (KvSet [1] [2])\<rparr>"]
  by (simp add: kv_fmts_back kv_new_def mem_new_def staged_new_def staged_ok_def
      MAX_KEY_LEN_def MAX_VALUE_LEN_def)

text \<open>The values a module holds, staged or committed, are within the cap.\<close>

definition kv_capped :: "('s \<Rightarrow> bytes \<rightharpoonup> bytes) \<Rightarrow> 's kv \<Rightarrow> bool" where
  "kv_capped view m \<longleftrightarrow>
     (\<forall>v\<in>ran (view (ss_store (kv_staged m))). length v \<le> MAX_VALUE_LEN) \<and>
     (\<forall>(k, w)\<in>set (ss_pending (kv_staged m)). \<forall>v. w = Some v \<longrightarrow> length v \<le> MAX_VALUE_LEN)"

lemma ran_apply_writes:
  "ran (apply_writes ws m) \<subseteq> ran m \<union> {v. \<exists>k. (k, Some v) \<in> set ws}"
proof (induction ws arbitrary: m)
  case (Cons w ws)
  obtain k v where w: "w = (k, v)" by fastforce
  have "ran (m(k := v)) \<subseteq> ran m \<union> set_option v"
    by (auto simp: ran_def split: if_splits)
  moreover have "apply_writes (w # ws) m = apply_writes ws (m(k := v))"
    by (simp add: apply_writes_def w)
  moreover have "set_option v \<subseteq> {v. \<exists>k. (k, Some v) \<in> set (w # ws)}"
    by (cases v) (auto simp: w)
  moreover have "{v. \<exists>k. (k, Some v) \<in> set ws} \<subseteq> {v. \<exists>k. (k, Some v) \<in> set (w # ws)}"
    by auto
  moreover note Cons.IH [of "m(k := v)"]
  ultimately show ?case by (simp only:) blast
qed (simp add: apply_writes_def)

context merkle_laws
begin

lemma kv_commit_capped:
  assumes "ok (ss_store (kv_staged m))" and "kv_capped view m"
  shows "ok (ss_store (kv_staged (fst (kv_commit_block L m)))) \<and>
         kv_capped view (fst (kv_commit_block L m))"
proof (cases "ss_pending (kv_staged m) = []")
  case True
  then show ?thesis using assms by (simp add: kv_commit_block_def staged_commit_def)
next
  case False
  let ?ws = "map (\<lambda>(key, value). (store_key L key, value)) (ss_pending (kv_staged m))"
  obtain s' where s': "ms_commit_batch L (ss_store (kv_staged m)) ?ws = (s', Inr ())"
    using commit_batch_ok [OF assms(1), of ?ws]
    by (cases "ms_commit_batch L (ss_store (kv_staged m)) ?ws") simp
  then have "fst (kv_commit_block L m) = m\<lparr>kv_staged := \<lparr>ss_store = s', ss_pending = []\<rparr>\<rparr>"
    using False by (simp add: kv_commit_block_def staged_commit_def Let_def)
  moreover have "length v \<le> MAX_VALUE_LEN" if "v \<in> ran (view s')" for v
  proof -
    have "v \<in> ran (view (ss_store (kv_staged m))) \<or> (\<exists>k. (k, Some v) \<in> set ?ws)"
      using that commit_batch_view [OF assms(1), of ?ws] s'
        ran_apply_writes [of ?ws "view (ss_store (kv_staged m))"] by auto
    then show ?thesis
      using assms(2) by (auto simp: kv_capped_def)
  qed
  moreover have "ok s'"
    using commit_batch_inv [OF assms(1), of ?ws] s' by simp
  ultimately show ?thesis by (simp add: kv_capped_def)
qed

lemma kv_stage_capped:
  assumes "kv_capped view m"
  shows "kv_capped view (fst (kv_stage m key val)) \<and>
         ss_store (kv_staged (fst (kv_stage m key val))) = ss_store (kv_staged m)"
proof -
  have "kv_capped view (m\<lparr>kv_staged := stage (kv_staged m) key val\<rparr>)" if "length val \<le> MAX_VALUE_LEN"
    using assms that set_bt_insert [of key "Some val" "ss_pending (kv_staged m)"]
    unfolding kv_capped_def stage_def by fastforce
  then show ?thesis using assms by (simp add: kv_stage_cases)
qed

lemma kv_execute_leaf:
  assumes "ctx_leaf (kv_execute W m env msg) out"
  shows "out_module out = m \<or> (\<exists>k v. out_module out = fst (kv_stage m k v))"
proof (cases "from_slice (kvw_msg W) (msg_payload msg)")
  case (Inl e)
  then show ?thesis using assms by (simp add: kv_execute_def wire_decode_def quiet_out_def)
next
  case (Inr a)
  obtain k v where "a = KvSet k v" by (cases a)
  moreover obtain m' r where "kv_stage m k v = (m', r)" by fastforce
  ultimately show ?thesis
    using Inr assms by (simp add: kv_execute_def wire_decode_def quiet_out_def) (metis fst_conv)
qed

lemma kv_step_capped:
  assumes "ok (ss_store (kv_staged m)) \<and> kv_capped view m" and "mod_step (kv_ops L W) m m'"
  shows "ok (ss_store (kv_staged m')) \<and> kv_capped view m'"
  using assms(2)
proof (cases rule: mod_step.cases)
  case (step_execute env msg out)
  then have "ctx_leaf (kv_execute W m env msg) out" "m' = out_module out"
    by (simp_all add: kv_ops_def)
  then have "m' = m \<or> (\<exists>k v. m' = fst (kv_stage m k v))"
    using kv_execute_leaf by metis
  then show ?thesis
    using assms(1) by (elim disjE exE) (simp_all add: kv_stage_capped)
next
  case step_commit
  then show ?thesis using assms(1) kv_commit_capped by (simp add: kv_ops_def)
next
  case (step_acknowledge env ack out)
  then show ?thesis using assms(1) by (simp add: kv_ops_def default_acknowledge_def)
next
  case step_abort
  then show ?thesis
    using assms(1) by (simp add: kv_ops_def kv_abort_block_def kv_capped_def staged_abort_def)
qed

end

text \<open>
  C25: no poison pill. Whatever messages a kv module over a lawful store is given, committed or
  aborted in whatever order, every value it stages or stores stays within the value cap, so the
  store's decode-time bound is never exceeded.
\<close>

theorem kv_values_capped:
  assumes "merkle_laws L view ok" and "ok store"
    and "\<forall>v\<in>ran (view store). length v \<le> MAX_VALUE_LEN"
    and "(mod_step (kv_ops L W))\<^sup>*\<^sup>* (kv_new mid store) m"
  shows "kv_capped view m"
proof -
  have "ok (ss_store (kv_staged (kv_new mid store))) \<and> kv_capped view (kv_new mid store)"
    using assms(2,3) by (simp add: kv_new_def staged_new_def kv_capped_def)
  with assms(4) have "ok (ss_store (kv_staged m)) \<and> kv_capped view m"
    by (rule mod_reach_invariant) (rule merkle_laws.kv_step_capped [OF assms(1)])
  then show ?thesis ..
qed

theorem kv_values_capped_witness:
  "kv_capped (\<lambda>s. map_of (mem_map s))
     (fst (kv_commit_block (mem_lib id) (fst (kv_stage (kv_new ''kv'' mem_new) [1] [2]))))"
proof (rule kv_values_capped [OF mem.merkle_laws_axioms [of id]])
  let ?ops = "kv_ops (mem_lib id) kv_fmts" and ?m = "kv_new ''kv'' mem_new"
  let ?msg = "\<lparr>msg_target = ''kv'', msg_payload = to_vec (kvw_msg kv_fmts) (KvSet [1] [2])\<rparr>"
  have "mod_execute ?ops ?m (env_at_height 1) ?msg = Done (quiet_out (fst (kv_stage ?m [1] [2])) (snd (kv_stage ?m [1] [2])))"
    by (simp add: kv_ops_def kv_execute_def wire_decode_def kv_fmts_back split: prod.split)
  then have "mod_step ?ops ?m (fst (kv_stage ?m [1] [2]))"
    using step_execute [of ?ops ?m "env_at_height 1" ?msg] by (simp add: quiet_out_def)
  then show "(mod_step ?ops)\<^sup>*\<^sup>* ?m (fst (kv_commit_block (mem_lib id) (fst (kv_stage ?m [1] [2]))))"
    using step_commit [of ?ops "fst (kv_stage ?m [1] [2])"] by (simp add: kv_ops_def converse_rtranclp_into_rtranclp)
qed (simp_all add: mem_new_def)

end
