(* ===== verification/Acl.thy ===== *)
theory Acl
  imports Wire
begin

text \<open>
  The submit-policy module (\<^verbatim>\<open>crates/modules/system/acl/src\<close>): one stored record, the policy
  table sorted by target, changed only by governance or the system, and read by the host's
  dispatch gate through \<^verbatim>\<open>PolicyFor\<close>. The table refines a finite map from targets to
  standings: setting an entry is a map update on every branch of the binary search, the
  effective standing is the exact entry, else the wildcard's, else open.
\<close>

section \<open>Wire surface\<close>

definition DEFAULT_ACL_ID :: module_id where
  "DEFAULT_ACL_ID = ''acl''"

definition WILDCARD_TARGET :: string where
  "WILDCARD_TARGET = ''*''"

datatype standing = Validator | Node | User | Open

fun standing_as_str :: "standing \<Rightarrow> string" where
  "standing_as_str Validator = ''validator''"
| "standing_as_str Node = ''node''"
| "standing_as_str User = ''user''"
| "standing_as_str Open = ''open''"

datatype acl_msg = SetPolicy string "standing option"
datatype acl_query_msg = AclPolicy | AclPolicyFor string
datatype acl_reply = AclReplyPolicy "(string \<times> standing) list" | AclReplyPolicyFor "standing option"

text \<open>The JSON formats of the wire types and the borsh format of the stored table.\<close>

record acl_wires =
  aw_msg :: "acl_msg serde"
  aw_query :: "acl_query_msg serde"
  aw_reply :: "acl_reply serde"
  aw_table :: "(string \<times> standing) list serde"

section \<open>The module\<close>

definition MAX_POLICY_ENTRIES :: nat where
  "MAX_POLICY_ENTRIES = 256"

definition MAX_TARGET_LEN :: nat where
  "MAX_TARGET_LEN = 64"

definition POLICY_KEY :: bytes where
  "POLICY_KEY = as_bytes ''policy''"

record 's acl =
  acl_id :: module_id
  acl_governance_id :: module_id
  acl_staged :: "'s staged_store"

definition acl_new :: "module_id \<Rightarrow> 's \<Rightarrow> module_id \<Rightarrow> 's acl" where
  "acl_new mid store governance_id =
     \<lparr>acl_id = mid, acl_governance_id = governance_id, acl_staged = staged_new store\<rparr>"

definition acl_table :: "'s store_lib \<Rightarrow> acl_wires \<Rightarrow> 's acl \<Rightarrow> error + (string \<times> standing) list" where
  "acl_table L W m =
     and_then (staged_get L (acl_staged m) POLICY_KEY) (\<lambda>r.
       case r of
         None \<Rightarrow> Inr []
       | Some bs \<Rightarrow> map_err ModuleError (from_slice (aw_table W) bs))"

definition store_table :: "acl_wires \<Rightarrow> 's acl \<Rightarrow> (string \<times> standing) list \<Rightarrow> 's acl" where
  "store_table W m table =
     (if table = [] then m\<lparr>acl_staged := stage_delete (acl_staged m) POLICY_KEY\<rparr>
      else m\<lparr>acl_staged := stage (acl_staged m) POLICY_KEY (to_vec (aw_table W) table)\<rparr>)"

text \<open>The \<^verbatim>\<open>match (position, standing)\<close>: \<open>None\<close> is the early \<^verbatim>\<open>return Ok(())\<close>.\<close>

definition set_entry ::
  "(string \<times> standing) list \<Rightarrow> string \<Rightarrow> standing option \<Rightarrow> error + (string \<times> standing) list option" where
  "set_entry table target st =
     (case (binary_search_by (\<lambda>(t, _). cmp t target) table, st) of
        (Inr i, Some s) \<Rightarrow>
          if snd (table ! i) = s then Inr None
          else Inr (Some (table[i := (fst (table ! i), s)]))
      | (Inr i, None) \<Rightarrow> Inr (Some (vec_remove i table))
      | (Inl _, None) \<Rightarrow> Inr None
      | (Inl i, Some s) \<Rightarrow>
          if length table \<ge> MAX_POLICY_ENTRIES
          then Inl (ModuleError (''acl policy cap reached ('' @ show_nat MAX_POLICY_ENTRIES @ '')''))
          else Inr (Some (vec_insert i (target, s) table)))"

definition handle_set_policy ::
  "'s store_lib \<Rightarrow> acl_wires \<Rightarrow> 's acl \<Rightarrow> string \<Rightarrow> standing option \<Rightarrow> 's acl \<times> (error + unit)" where
  "handle_set_policy L W m target st =
     (if \<not> (target \<noteq> [] \<and> is_trimmed target)
      then (m, Inl (ModuleError ''acl target must be a non-empty, untrimmed module id''))
      else if length target > MAX_TARGET_LEN
      then (m, Inl (ModuleError (''acl target exceeds '' @ show_nat MAX_TARGET_LEN @ '' bytes'')))
      else case and_then (acl_table L W m) (\<lambda>table. set_entry table target st) of
             Inl e \<Rightarrow> (m, Inl e)
           | Inr None \<Rightarrow> (m, Inr ())
           | Inr (Some table) \<Rightarrow> (store_table W m table, Inr ()))"

definition table_lookup :: "(string \<times> standing) list \<Rightarrow> string \<Rightarrow> standing option" where
  "table_lookup table t =
     (case binary_search_by (\<lambda>(entry, _). cmp entry t) table of
        Inl _ \<Rightarrow> None
      | Inr i \<Rightarrow> Some (snd (table ! i)))"

definition policy_for :: "'s store_lib \<Rightarrow> acl_wires \<Rightarrow> 's acl \<Rightarrow> string \<Rightarrow> error + standing option" where
  "policy_for L W m target =
     and_then (acl_table L W m) (\<lambda>table.
       Inr (case table_lookup table target of
              Some s \<Rightarrow> Some s
            | None \<Rightarrow> table_lookup table WILDCARD_TARGET))"

definition acl_authorized :: "'s acl \<Rightarrow> origin \<Rightarrow> bool" where
  "acl_authorized m orig \<longleftrightarrow> orig = Module (acl_governance_id m) \<or> orig = System"

definition acl_execute ::
  "'s store_lib \<Rightarrow> acl_wires \<Rightarrow> 's acl \<Rightarrow> env \<Rightarrow> msg \<Rightarrow> 's acl dispatch_out ctx_m" where
  "acl_execute L W m env msg =
     (if \<not> acl_authorized m (env_origin env)
      then Done (quiet_out m (Inl (ModuleError
             (''acl policy changes only via governance (the '' @ acl_governance_id m @
              '' module), got '' @ debug_origin (env_origin env)))))
      else case map_err ModuleError (wire_decode (aw_msg W) (msg_payload msg)) of
             Inl e \<Rightarrow> Done (quiet_out m (Inl e))
           | Inr (SetPolicy target st) \<Rightarrow>
               (case handle_set_policy L W m target st of (m', r) \<Rightarrow> Done (quiet_out m' r)))"

definition acl_query :: "'s store_lib \<Rightarrow> acl_wires \<Rightarrow> 's acl \<Rightarrow> bytes \<Rightarrow> error + bytes" where
  "acl_query L W m req =
     (case map_err ModuleError (wire_decode (aw_query W) req) of
        Inl e \<Rightarrow> Inl e
      | Inr AclPolicy \<Rightarrow>
          and_then (acl_table L W m) (\<lambda>t. Inr (wire_encode (aw_reply W) (AclReplyPolicy t)))
      | Inr (AclPolicyFor target) \<Rightarrow>
          and_then (policy_for L W m target) (\<lambda>s.
            Inr (wire_encode (aw_reply W) (AclReplyPolicyFor s))))"

definition acl_commit_block :: "'s store_lib \<Rightarrow> 's acl \<Rightarrow> 's acl \<times> (error + unit)" where
  "acl_commit_block L m =
     (case staged_commit L (acl_staged m) of (st, r) \<Rightarrow> (m\<lparr>acl_staged := st\<rparr>, r))"

definition acl_abort_block :: "'s acl \<Rightarrow> 's acl \<times> (error + unit)" where
  "acl_abort_block m = (m\<lparr>acl_staged := staged_abort (acl_staged m)\<rparr>, Inr ())"

definition acl_root :: "'s store_lib \<Rightarrow> 's acl \<Rightarrow> state_root" where
  "acl_root L m = staged_root L (acl_staged m)"

definition acl_ops :: "'s store_lib \<Rightarrow> acl_wires \<Rightarrow> 's acl module_ops" where
  "acl_ops L W =
     \<lparr>mod_id = acl_id,
      mod_root = acl_root L,
      mod_execute = acl_execute L W,
      mod_acknowledge = default_acknowledge,
      mod_query = (\<lambda>m _ req. Done (acl_query L W m req)),
      mod_pending_items = default_pending_items,
      mod_commit_block = acl_commit_block L,
      mod_abort_block = acl_abort_block,
      mod_code_hash = (\<lambda>_. None),
      mod_prepare_swap = default_prepare_swap\<rparr>"

section \<open>Staging contract\<close>

definition acl_base :: "'s acl \<Rightarrow> 's acl" where
  "acl_base m = m\<lparr>acl_staged := staged_abort (acl_staged m)\<rparr>"

lemma acl_base_set_policy: "acl_base (fst (handle_set_policy L W m target st)) = acl_base m"
  by (auto simp: handle_set_policy_def store_table_def acl_base_def stage_def stage_delete_def
      staged_abort_def split: sum.split option.split)

lemma acl_execute_leaf:
  assumes "ctx_leaf (acl_execute L W m env msg) out"
  shows "out_module out = m \<or>
     (acl_authorized m (env_origin env) \<and>
      (\<exists>target st. out_module out = fst (handle_set_policy L W m target st)))"
proof (cases "acl_authorized m (env_origin env)")
  case auth: True
  show ?thesis
  proof (cases "from_slice (aw_msg W) (msg_payload msg)")
    case (Inl e)
    then show ?thesis using assms auth by (simp add: acl_execute_def wire_decode_def quiet_out_def)
  next
    case (Inr a)
    obtain target st where "a = SetPolicy target st" by (cases a)
    moreover obtain m' r where "handle_set_policy L W m target st = (m', r)" by fastforce
    ultimately show ?thesis
      using Inr assms auth by (simp add: acl_execute_def wire_decode_def quiet_out_def) (metis fst_conv)
  qed
qed (use assms in \<open>simp add: acl_execute_def quiet_out_def\<close>)

interpretation acl_laws: module_laws "acl_ops L W" acl_base for L W
proof
  fix m :: "'a acl" and env msg
  show "ctx_all (\<lambda>out. acl_base (out_module out) = acl_base m) (mod_execute (acl_ops L W) m env msg)"
    unfolding ctx_all_leaf acl_ops_def using acl_execute_leaf acl_base_set_policy
    by (metis module_ops.select_convs(3))
qed (auto simp: acl_ops_def acl_base_def acl_abort_block_def acl_root_def staged_root_def
    staged_abort_def default_acknowledge_def)

section \<open>The table is a finite map\<close>

definition valid_target :: "string \<Rightarrow> bool" where
  "valid_target target \<longleftrightarrow> target \<noteq> [] \<and> is_trimmed target \<and> length target \<le> MAX_TARGET_LEN"

definition table_ok :: "(string \<times> standing) list \<Rightarrow> bool" where
  "table_ok t \<longleftrightarrow>
     sorted_wrt (<) (map fst t) \<and> length t \<le> MAX_POLICY_ENTRIES \<and> list_all valid_target (map fst t)"

definition effective :: "(string \<rightharpoonup> standing) \<Rightarrow> string \<Rightarrow> standing option" where
  "effective p q = (case p q of Some s \<Rightarrow> Some s | None \<Rightarrow> p WILDCARD_TARGET)"

lemma search_table:
  "sorted_wrt (<) (map fst t) \<Longrightarrow>
   binary_search_by (\<lambda>(e, _). cmp e k) t =
     (if k \<in> fst ` set t then Inr (rank (map fst t) k) else Inl (rank (map fst t) k))"
  using binary_search_by_sorted [of fst t k] by (simp add: case_prod_unfold)

lemma table_lookup_map_of:
  assumes "sorted_wrt (<) (map fst t)"
  shows "table_lookup t k = map_of t k"
proof (cases "k \<in> fst ` set t")
  case True
  then show ?thesis using table_found [OF assms True] by (simp add: table_lookup_def search_table assms)
next
  case False
  then have "map_of t k = None" by (simp add: map_of_eq_None_iff)
  with False show ?thesis by (simp add: table_lookup_def search_table assms)
qed

lemma set_entry_spec:
  assumes "table_ok t" and "valid_target k"
  shows "case set_entry t k st of
      Inl e \<Rightarrow> st \<noteq> None \<and> map_of t k = None \<and> length t = MAX_POLICY_ENTRIES
    | Inr None \<Rightarrow> map_of t k = st
    | Inr (Some t') \<Rightarrow> table_ok t' \<and> map_of t' = (map_of t)(k := st) \<and>
        (st = None \<or> map_of t k \<noteq> None \<or> length t < MAX_POLICY_ENTRIES)"
proof -
  have sorted: "sorted_wrt (<) (map fst t)" and len: "length t \<le> MAX_POLICY_ENTRIES"
    using assms(1) by (auto simp: table_ok_def)
  let ?i = "rank (map fst t) k"
  show ?thesis
  proof (cases "k \<in> fst ` set t")
    case True
    note found = table_found [OF sorted True]
    have upd: "table_ok (t[?i := (k, s)])" for s
      using assms(1) table_update(2) [OF sorted True] by (simp add: table_ok_def)
    have "set (vec_remove ?i (map fst t)) \<subseteq> set (map fst t)"
      by (rule set_vec_remove_subset)
    then have "table_ok (vec_remove ?i t)"
      using assms(1) sorted_vec_remove [of "(<)" "map fst t" ?i] found
      by (auto simp: table_ok_def map_vec_remove length_vec_remove list_all_iff)
    then show ?thesis
      using True found upd table_update(1) [OF sorted True] table_remove [OF sorted True]
      by (auto simp: set_entry_def search_table [OF sorted] split: option.split)
  next
    case False
    have "table_ok (vec_insert ?i (k, s) t)" if "length t < MAX_POLICY_ENTRIES" for s
      using assms that sorted_vec_insert [OF sorted, of k] False
      by (auto simp: table_ok_def map_vec_insert list_all_iff)
    moreover have "map_of t k = None"
      using False by (simp add: map_of_eq_None_iff)
    ultimately show ?thesis
      using False len table_insert [OF False]
      by (auto simp: set_entry_def search_table [OF sorted] split: option.split)
  qed
qed

section \<open>The stored record\<close>

definition acl_record :: "acl_wires \<Rightarrow> (string \<times> standing) list \<Rightarrow> bytes option" where
  "acl_record W t = (if t = [] then None else Some (to_vec (aw_table W) t))"

definition acl_holds ::
  "('s \<Rightarrow> bytes \<rightharpoonup> bytes) \<Rightarrow> 's store_lib \<Rightarrow> acl_wires \<Rightarrow> 's acl \<Rightarrow> (string \<times> standing) list \<Rightarrow> bool" where
  "acl_holds view L W m t \<longleftrightarrow>
     table_ok t \<and> visible view L (acl_staged m) POLICY_KEY = acl_record W t"

definition acl_boundary ::
  "('s \<Rightarrow> bytes \<rightharpoonup> bytes) \<Rightarrow> 's store_lib \<Rightarrow> acl_wires \<Rightarrow> 's acl \<Rightarrow> (string \<times> standing) list \<Rightarrow> bool" where
  "acl_boundary view L W m t \<longleftrightarrow>
     table_ok t \<and> committed view L (acl_staged m) POLICY_KEY = acl_record W t"

lemma acl_holds_store_table:
  "table_ok t \<Longrightarrow> acl_holds view L W (store_table W m t) t"
  by (simp add: acl_holds_def store_table_def acl_record_def)

lemma store_table_still:
  "staged_ok ok {POLICY_KEY} (acl_staged m) \<Longrightarrow>
     staged_ok ok {POLICY_KEY} (acl_staged (store_table W m t))"
  "committed view L (acl_staged (store_table W m t)) = committed view L (acl_staged m)"
  by (auto simp: store_table_def)

context merkle_laws
begin

lemma acl_table_eq:
  assumes "staged_ok ok {POLICY_KEY} (acl_staged m)" and "acl_holds view L W m t"
    and "round_trips_on {t. table_ok t} (aw_table W)"
  shows "acl_table L W m = Inr t"
  using assms(2) round_trips_onD [OF assms(3), of t] staged_get_visible [OF assms(1), of POLICY_KEY]
  by (auto simp: acl_table_def acl_holds_def acl_record_def split: if_splits)

lemma policy_for_eq:
  assumes "staged_ok ok {POLICY_KEY} (acl_staged m)" and "acl_holds view L W m t"
    and "round_trips_on {t. table_ok t} (aw_table W)"
  shows "policy_for L W m q = Inr (effective (map_of t) q)"
  using acl_table_eq [OF assms] assms(2)
  by (simp add: policy_for_def effective_def acl_holds_def table_ok_def table_lookup_map_of
      split: option.split)

lemma handle_set_policy_spec:
  assumes "staged_ok ok {POLICY_KEY} (acl_staged m)" and "acl_holds view L W m t"
    and "round_trips_on {t. table_ok t} (aw_table W)"
    and "handle_set_policy L W m target st = (m', r)"
  shows "(r = Inr () \<longleftrightarrow> valid_target target \<and>
            (st = None \<or> map_of t target \<noteq> None \<or> length t < MAX_POLICY_ENTRIES)) \<and>
         (r \<noteq> Inr () \<longrightarrow> m' = m) \<and>
         (r = Inr () \<longrightarrow> (\<exists>t'. acl_holds view L W m' t' \<and> map_of t' = (map_of t)(target := st))) \<and>
         staged_ok ok {POLICY_KEY} (acl_staged m') \<and>
         committed view L (acl_staged m') = committed view L (acl_staged m)"
proof (cases "valid_target target")
  case False
  then obtain e where "handle_set_policy L W m target st = (m, Inl e)"
    unfolding handle_set_policy_def valid_target_def by (metis linorder_not_less)
  then show ?thesis
    using False assms(1,4) by auto
next
  case True
  have ok: "table_ok t" using assms(2) by (simp add: acl_holds_def)
  have eq: "(m', r) = (case set_entry t target st of
             Inl e \<Rightarrow> (m, Inl e)
           | Inr None \<Rightarrow> (m, Inr ())
           | Inr (Some table) \<Rightarrow> (store_table W m table, Inr ()))"
    using assms(4) True acl_table_eq [OF assms(1-3)]
    by (simp add: handle_set_policy_def valid_target_def)
  note spec = set_entry_spec [OF ok True, of st]
  show ?thesis
  proof (cases "set_entry t target st")
    case (Inl e)
    then show ?thesis using eq spec assms(1) True by simp
  next
    case (Inr u)
    show ?thesis
    proof (cases u)
      case None
      then have "map_of t = (map_of t)(target := st)" "map_of t target = st"
        using Inr spec by (auto simp: fun_eq_iff)
      then show ?thesis using Inr None eq assms(1,2) True by auto
    next
      case (Some t')
      then show ?thesis
        using Inr eq spec assms(1) True acl_holds_store_table [of t' view L W m]
          store_table_still(1) [of ok m W t'] store_table_still(2) [of view L W m t']
        by auto
    qed
  qed
qed

lemma acl_step_holds:
  assumes rt: "round_trips_on {t. table_ok t} (aw_table W)"
    and "staged_ok ok {POLICY_KEY} (acl_staged m) \<and>
         (\<exists>t. acl_holds view L W m t) \<and> (\<exists>t. acl_boundary view L W m t)"
    and "mod_step (acl_ops L W) m m'"
  shows "staged_ok ok {POLICY_KEY} (acl_staged m') \<and>
         (\<exists>t. acl_holds view L W m' t) \<and> (\<exists>t. acl_boundary view L W m' t)"
proof -
  have ok: "staged_ok ok {POLICY_KEY} (acl_staged m)" and "\<exists>t. acl_holds view L W m t"
    and "\<exists>t. acl_boundary view L W m t"
    using assms(2) by auto
  then obtain t tc where t: "acl_holds view L W m t" and tc: "acl_boundary view L W m tc"
    by blast
  from assms(3) show ?thesis
  proof (cases rule: mod_step.cases)
    case (step_execute env msg out)
    then have "ctx_leaf (acl_execute L W m env msg) out" "m' = out_module out"
      by (simp_all add: acl_ops_def)
    then consider "m' = m" | target st where "m' = fst (handle_set_policy L W m target st)"
      using acl_execute_leaf by metis
    then show ?thesis
    proof cases
      case 2
      obtain r where "handle_set_policy L W m target st = (m', r)"
        using 2 by (metis prod.collapse)
      from handle_set_policy_spec [OF ok t rt this] show ?thesis
        using t tc by (auto simp: acl_boundary_def)
    qed (use ok t tc in blast)
  next
    case (step_acknowledge env ack out)
    then show ?thesis using ok t tc by (auto simp: acl_ops_def default_acknowledge_def)
  next
    case step_commit
    then have m': "acl_staged m' = fst (staged_commit L (acl_staged m))"
      by (simp add: acl_ops_def acl_commit_block_def split: prod.split)
    then show ?thesis
      using staged_commit_ok(3) [OF ok] t tc staged_commit_visible [OF ok, of POLICY_KEY]
        staged_commit_committed [OF ok, of POLICY_KEY]
      by (auto simp: acl_holds_def acl_boundary_def)
  next
    case step_abort
    then have "acl_staged m' = staged_abort (acl_staged m)"
      by (simp add: acl_ops_def acl_abort_block_def)
    then show ?thesis
      using ok tc by (auto simp: acl_holds_def acl_boundary_def)
  qed
qed

end

section \<open>Properties\<close>

text \<open>
  C23: setting a policy entry is a map update. On a module holding the table \<open>t\<close>, \<^verbatim>\<open>SetPolicy\<close>
  succeeds exactly for a valid target, unless it would add an entry to a full table; when it
  succeeds, the effective standing of every target afterwards is that of the updated map (the
  exact entry, else the wildcard's, else open), and when it fails the module is unchanged.
\<close>

theorem acl_set_policy_exact:
  assumes "merkle_laws L view ok" and "staged_ok ok {POLICY_KEY} (acl_staged m)"
    and "acl_holds view L W m t" and "round_trips_on {t. table_ok t} (aw_table W)"
    and "handle_set_policy L W m target st = (m', r)"
  shows "(r = Inr () \<longleftrightarrow> valid_target target \<and>
            (st = None \<or> map_of t target \<noteq> None \<or> length t < MAX_POLICY_ENTRIES)) \<and>
         (if r = Inr ()
          then \<forall>q. policy_for L W m' q = Inr (effective ((map_of t)(target := st)) q)
          else m' = m)"
  using merkle_laws.handle_set_policy_spec [OF assms] merkle_laws.policy_for_eq [OF assms(1) _ _ assms(4)]
  by metis

definition standing_code :: "standing \<Rightarrow> byte" where
  "standing_code s = (case s of Validator \<Rightarrow> 0 | Node \<Rightarrow> 1 | User \<Rightarrow> 2 | Open \<Rightarrow> 3)"

definition standing_of_code :: "byte \<Rightarrow> standing option" where
  "standing_of_code b =
     (if b = 0 then Some Validator else if b = 1 then Some Node
      else if b = 2 then Some User else if b = 3 then Some Open else None)"

definition fmt_table :: "(string \<times> standing) list fmt" where
  "fmt_table = fmt_list (fmt_pair fmt_str (fmt_map standing_code standing_of_code fmt_byte))"

lemma fmt_table_ok: "fmt_ok fmt_table"
  unfolding fmt_table_def
  by (intro fmt_oks) (simp add: standing_code_def standing_of_code_def split: standing.split)

definition fmt_acl_msg :: "acl_msg fmt" where
  "fmt_acl_msg =
     fmt_map (\<lambda>m. case m of SetPolicy t s \<Rightarrow> (t, s)) (\<lambda>(t, s). Some (SetPolicy t s))
       (fmt_pair fmt_str (fmt_option (fmt_map standing_code standing_of_code fmt_byte)))"

definition fmt_acl_query :: "acl_query_msg fmt" where
  "fmt_acl_query =
     fmt_map (\<lambda>q. case q of AclPolicy \<Rightarrow> None | AclPolicyFor t \<Rightarrow> Some t)
       (\<lambda>x. Some (case x of None \<Rightarrow> AclPolicy | Some t \<Rightarrow> AclPolicyFor t)) (fmt_option fmt_str)"

definition fmt_acl_reply :: "acl_reply fmt" where
  "fmt_acl_reply =
     fmt_map (\<lambda>r. case r of AclReplyPolicy t \<Rightarrow> (Some t, None) | AclReplyPolicyFor s \<Rightarrow> (None, s))
       (\<lambda>(x, s). Some (case x of Some t \<Rightarrow> AclReplyPolicy t | None \<Rightarrow> AclReplyPolicyFor s))
       (fmt_pair (fmt_option fmt_table) (fmt_option (fmt_map standing_code standing_of_code fmt_byte)))"

definition acl_fmts :: acl_wires where
  "acl_fmts =
     \<lparr>aw_msg = serde_of fmt_acl_msg, aw_query = serde_of fmt_acl_query,
      aw_reply = serde_of fmt_acl_reply, aw_table = serde_of fmt_table\<rparr>"

lemma acl_fmts_table: "round_trips_on S (aw_table acl_fmts)"
  by (simp add: acl_fmts_def serde_of_round_trips fmt_table_ok)

lemma acl_fmts_msg: "from_slice (aw_msg acl_fmts) (to_vec (aw_msg acl_fmts) msg) = Inr msg"
proof -
  have "fmt_ok fmt_acl_msg"
    unfolding fmt_acl_msg_def
    by (intro fmt_oks) (simp_all add: standing_code_def standing_of_code_def split: standing.split acl_msg.split)
  then show ?thesis by (simp add: acl_fmts_def serde_of_back)
qed

text \<open>A policy for the kv module, set by governance.\<close>

definition demo_policy_set :: "mem_store acl" where
  "demo_policy_set = fst (handle_set_policy (mem_lib id) acl_fmts (acl_new ''acl'' mem_new ''gov'') ''kv'' (Some Node))"

lemma acl_new_holds:
  assumes "view store (store_key L POLICY_KEY) = None"
  shows "acl_holds view L W (acl_new mid store gov) [] \<and> acl_boundary view L W (acl_new mid store gov) []"
  using assms
  by (simp add: acl_holds_def acl_boundary_def acl_new_def staged_new_def visible_def committed_def
      acl_record_def table_ok_def)

theorem acl_set_policy_exact_witness:
  "snd (handle_set_policy (mem_lib id) acl_fmts (acl_new ''acl'' mem_new ''gov'') ''kv'' (Some Node))
     = Inr () \<and>
   policy_for (mem_lib id) acl_fmts
     (fst (handle_set_policy (mem_lib id) acl_fmts (acl_new ''acl'' mem_new ''gov'') ''kv'' (Some Node)))
     ''kv'' = Inr (Some Node)"
proof -
  let ?p = "handle_set_policy (mem_lib id) acl_fmts (acl_new ''acl'' mem_new ''gov'') ''kv'' (Some Node)"
  have "valid_target ''kv''"
    by code_simp
  moreover have "acl_holds (\<lambda>s. map_of (mem_map s)) (mem_lib id) acl_fmts (acl_new ''acl'' mem_new ''gov'') []"
    by (rule conjunct1 [OF acl_new_holds]) (simp add: mem_new_def)
  moreover have "staged_ok (\<lambda>s. bt_inv (mem_map s)) {POLICY_KEY} (acl_staged (acl_new ''acl'' mem_new ''gov''))"
    by (simp add: acl_new_def staged_ok_def staged_new_def mem_new_def)
  ultimately show ?thesis
    using acl_set_policy_exact [OF mem.merkle_laws_axioms [of id] _ _ acl_fmts_table prod.collapse [symmetric],
        where m = "acl_new ''acl'' mem_new ''gov''" and target = "''kv''" and st = "Some Node" and t = "[]"]
    by (simp add: MAX_POLICY_ENTRIES_def effective_def)
qed

text \<open>
  C24: the policy record is always readable and canonical. In every state an acl module over a
  lawful store reaches, under any messages, answers, commits and aborts, the visible record is
  exactly the encoding of one table that is strictly sorted by target, within the entry cap and
  with valid targets only (the empty table is the absent record), and \<^verbatim>\<open>PolicyFor\<close> answers from
  it without error.
\<close>

theorem acl_record_canonical:
  assumes "merkle_laws L view ok" and "ok store" and "view store (store_key L POLICY_KEY) = None"
    and "round_trips_on {t. table_ok t} (aw_table W)"
    and "(mod_step (acl_ops L W))\<^sup>*\<^sup>* (acl_new mid store gov) m"
  shows "\<exists>!t. table_ok t \<and> visible view L (acl_staged m) POLICY_KEY = acl_record W t \<and>
           (\<forall>q. policy_for L W m q = Inr (effective (map_of t) q))"
proof -
  let ?I = "\<lambda>m. staged_ok ok {POLICY_KEY} (acl_staged m) \<and>
         (\<exists>t. acl_holds view L W m t) \<and> (\<exists>t. acl_boundary view L W m t)"
  have "?I (acl_new mid store gov)"
    using acl_new_holds [of view store L W mid gov] assms(2,3)
    by (auto simp: acl_new_def staged_ok_new)
  with assms(5) have I: "?I m"
    by (rule mod_reach_invariant) (rule merkle_laws.acl_step_holds [OF assms(1,4)])
  then obtain t where t: "acl_holds view L W m t" by blast
  have uniq: "t' = t" if "table_ok t'" "visible view L (acl_staged m) POLICY_KEY = acl_record W t'" for t'
    using merkle_laws.acl_table_eq [OF assms(1) _ t assms(4)]
      merkle_laws.acl_table_eq [OF assms(1) _ _ assms(4), of m t'] I that
    by (auto simp: acl_holds_def)
  show ?thesis
    by (rule ex1I [of _ t])
      (use t uniq merkle_laws.policy_for_eq [OF assms(1) _ t assms(4)] I in \<open>auto simp: acl_holds_def\<close>)
qed

theorem acl_record_canonical_witness:
  "\<exists>!t. table_ok t \<and>
     visible (\<lambda>s. map_of (mem_map s)) (mem_lib id) (acl_staged (fst (acl_commit_block (mem_lib id) demo_policy_set))) POLICY_KEY =
       acl_record acl_fmts t \<and>
     (\<forall>q. policy_for (mem_lib id) acl_fmts (fst (acl_commit_block (mem_lib id) demo_policy_set)) q =
        Inr (effective (map_of t) q))"
proof (rule acl_record_canonical [OF mem.merkle_laws_axioms [of id] _ _ acl_fmts_table])
  let ?ops = "acl_ops (mem_lib id) acl_fmts" and ?m = "acl_new ''acl'' mem_new ''gov''"
  let ?env = "(env_at_height 1)\<lparr>env_origin := Module ''gov''\<rparr>"
  let ?msg = "\<lparr>msg_target = ''acl'', msg_payload = to_vec (aw_msg acl_fmts) (SetPolicy ''kv'' (Some Node))\<rparr>"
  have "mod_execute ?ops ?m ?env ?msg =
      Done (quiet_out demo_policy_set (snd (handle_set_policy (mem_lib id) acl_fmts ?m ''kv'' (Some Node))))"
    by (simp add: acl_ops_def acl_execute_def acl_authorized_def acl_new_def wire_decode_def acl_fmts_msg
        demo_policy_set_def split: prod.split)
  then have "mod_step ?ops ?m demo_policy_set"
    using step_execute [of ?ops ?m ?env ?msg] by (simp add: quiet_out_def)
  then show "(mod_step ?ops)\<^sup>*\<^sup>* ?m (fst (acl_commit_block (mem_lib id) demo_policy_set))"
    using step_commit [of ?ops demo_policy_set] by (simp add: acl_ops_def converse_rtranclp_into_rtranclp)
qed (simp_all add: mem_new_def)

end
