(* ===== verification/Valset.thy ===== *)
theory Valset
  imports Wire
begin

text \<open>
  The membership registry (\<^verbatim>\<open>crates/modules/system/valset/src\<close>): two tiers of keys, the
  validators and the residents, each one stored record of strictly sorted keys; a membership
  generation counter with a window of retained snapshots; genesis seeding; and the two shared
  reads other modules use. The ed25519 check of a key (\<^verbatim>\<open>PublicKey::decode\<close> of the crate
  \<^verbatim>\<open>commonware-cryptography\<close>) is a field of \<open>valset_wires\<close>.

  The lemmas show that the handlers refine operations on two sets, that the tiers stay sorted,
  capped and disjoint and the validator tier never empties once it has a member, and that a
  commit advances the generation exactly when it changes membership and then snapshots it.
\<close>

section \<open>Wire surface\<close>

datatype valset_msg = Join bytes | Leave bytes | Grant bytes | Revoke bytes
datatype valset_query_msg = QValidators | QResidents | QMeshWindow

record generation_set =
  gs_generation :: u64
  gs_validators :: "bytes list"
  gs_residents :: "bytes list"

datatype valset_reply =
    RValidators "bytes list"
  | RResidents "bytes list"
  | RMeshWindow "generation_set list"

text \<open>
  The JSON formats of the wire types, the borsh formats of the stored records, the JSON format
  of the genesis key list, the key check and the debug display of a reply.
\<close>

record valset_wires =
  vw_msg :: "valset_msg serde"
  vw_query :: "valset_query_msg serde"
  vw_reply :: "valset_reply serde"
  vw_tier :: "bytes list serde"
  vw_generation :: "u64 serde"
  vw_snapshot :: "(bytes list \<times> bytes list) serde"
  vw_seed :: "bytes list serde"
  vw_decode_key :: "bytes \<Rightarrow> string + unit"
  vw_debug_reply :: "valset_reply \<Rightarrow> string"

section \<open>Constants and keys\<close>

definition KEY_LEN :: nat where
  "KEY_LEN = 32"

definition MAX_MEMBERS :: nat where
  "MAX_MEMBERS = 1024"

definition MAX_TIER_RECORD_BYTES :: nat where
  "MAX_TIER_RECORD_BYTES = 512 * 1024"

definition VALIDATORS_KEY :: bytes where
  "VALIDATORS_KEY = as_bytes ''validators''"

definition RESIDENTS_KEY :: bytes where
  "RESIDENTS_KEY = as_bytes ''residents''"

definition GENERATION_KEY :: bytes where
  "GENERATION_KEY = as_bytes ''generation''"

definition RETAINED_GENERATIONS :: u64 where
  "RETAINED_GENERATIONS = 4"

definition generation_set_key :: "u64 \<Rightarrow> bytes" where
  "generation_set_key g = as_bytes ''generation/'' @ u64_be g"

definition GENESIS_GENERATION :: u64 where
  "GENESIS_GENERATION = 0"

section \<open>The module\<close>

record 's valset =
  vs_id :: module_id
  vs_governance_id :: module_id
  vs_staged :: "'s staged_store"

definition valset_new :: "module_id \<Rightarrow> 's \<Rightarrow> module_id \<Rightarrow> 's valset" where
  "valset_new mid store governance_id =
     \<lparr>vs_id = mid, vs_governance_id = governance_id, vs_staged = staged_new store\<rparr>"

definition vs_stage :: "'s valset \<Rightarrow> bytes \<Rightarrow> bytes \<Rightarrow> 's valset" where
  "vs_stage m key val = m\<lparr>vs_staged := stage (vs_staged m) key val\<rparr>"

definition vs_delete :: "'s valset \<Rightarrow> bytes \<Rightarrow> 's valset" where
  "vs_delete m key = m\<lparr>vs_staged := stage_delete (vs_staged m) key\<rparr>"

definition vs_commit :: "'s store_lib \<Rightarrow> 's valset \<Rightarrow> 's valset \<times> (error + unit)" where
  "vs_commit L m = (case staged_commit L (vs_staged m) of (st, r) \<Rightarrow> (m\<lparr>vs_staged := st\<rparr>, r))"

definition vs_abort :: "'s valset \<Rightarrow> 's valset" where
  "vs_abort m = m\<lparr>vs_staged := staged_abort (vs_staged m)\<rparr>"

definition validate_key :: "valset_wires \<Rightarrow> bytes \<Rightarrow> error + unit" where
  "validate_key W key =
     (if length key \<noteq> KEY_LEN
      then Inl (ModuleError (''invalid ed25519 public key: expected '' @ show_nat KEY_LEN @
                 '' bytes, got '' @ show_nat (length key)))
      else map_err (\<lambda>e. ModuleError (''invalid ed25519 public key: '' @ e)) (vw_decode_key W key))"

definition require_capacity :: "bytes list \<Rightarrow> string \<Rightarrow> error + unit" where
  "require_capacity tier what =
     (if length tier \<ge> MAX_MEMBERS
      then Inl (ModuleError (what @ '' cap reached ('' @ show_nat MAX_MEMBERS @ '')''))
      else Inr ())"

definition vs_tier :: "'s store_lib \<Rightarrow> valset_wires \<Rightarrow> 's valset \<Rightarrow> bytes \<Rightarrow> error + bytes list" where
  "vs_tier L W m key =
     and_then (staged_get L (vs_staged m) key) (\<lambda>r.
       case r of
         None \<Rightarrow> Inr []
       | Some bs \<Rightarrow> map_err ModuleError (from_slice (vw_tier W) bs))"

definition vs_validators :: "'s store_lib \<Rightarrow> valset_wires \<Rightarrow> 's valset \<Rightarrow> error + bytes list" where
  "vs_validators L W m = vs_tier L W m VALIDATORS_KEY"

definition vs_residents :: "'s store_lib \<Rightarrow> valset_wires \<Rightarrow> 's valset \<Rightarrow> error + bytes list" where
  "vs_residents L W m = vs_tier L W m RESIDENTS_KEY"

definition store_tier ::
  "valset_wires \<Rightarrow> 's valset \<Rightarrow> bytes \<Rightarrow> bytes list \<Rightarrow> 's valset \<times> (error + unit)" where
  "store_tier W m key tier =
     (if tier = [] then (vs_delete m key, Inr ())
      else
        let bs = to_vec (vw_tier W) tier in
        if length bs > MAX_TIER_RECORD_BYTES
        then (m, Inl (ModuleError (''tier record too large: '' @ show_nat (length bs) @ '' > '' @
                        show_nat MAX_TIER_RECORD_BYTES @ '' bytes'')))
        else (vs_stage m key bs, Inr ()))"

section \<open>Generations\<close>

definition vs_generation :: "'s store_lib \<Rightarrow> valset_wires \<Rightarrow> 's valset \<Rightarrow> error + u64" where
  "vs_generation L W m =
     and_then (staged_get L (vs_staged m) GENERATION_KEY) (\<lambda>r.
       case r of
         None \<Rightarrow> Inr GENESIS_GENERATION
       | Some bs \<Rightarrow> map_err ModuleError (from_slice (vw_generation W) bs))"

definition stage_generation_counter :: "valset_wires \<Rightarrow> 's valset \<Rightarrow> u64 \<Rightarrow> 's valset" where
  "stage_generation_counter W m g = vs_stage m GENERATION_KEY (to_vec (vw_generation W) g)"

definition stage_generation_snapshot ::
  "valset_wires \<Rightarrow> 's valset \<Rightarrow> u64 \<Rightarrow> bytes list \<Rightarrow> bytes list \<Rightarrow> 's valset \<times> (error + unit)" where
  "stage_generation_snapshot W m g validators residents =
     (let bs = to_vec (vw_snapshot W) (validators, residents) in
      if length bs > MAX_TIER_RECORD_BYTES
      then (m, Inl (ModuleError (''generation snapshot too large: '' @ show_nat (length bs) @
                      '' > '' @ show_nat MAX_TIER_RECORD_BYTES @ '' bytes'')))
      else (vs_stage m (generation_set_key g) bs, Inr ()))"

definition staged_membership_changed :: "'s store_lib \<Rightarrow> 's valset \<Rightarrow> error + bool" where
  "staged_membership_changed L m =
     and_then (staged_get L (vs_staged m) VALIDATORS_KEY) (\<lambda>v.
     and_then (staged_get_committed L (vs_staged m) VALIDATORS_KEY) (\<lambda>vc.
       if v \<noteq> vc then Inr True
       else
         and_then (staged_get L (vs_staged m) RESIDENTS_KEY) (\<lambda>r.
         and_then (staged_get_committed L (vs_staged m) RESIDENTS_KEY) (\<lambda>rc.
           Inr (r \<noteq> rc)))))"

definition advance_generation ::
  "'s store_lib \<Rightarrow> valset_wires \<Rightarrow> 's valset \<Rightarrow> 's valset \<times> (error + unit)" where
  "advance_generation L W m =
     st_then (m, vs_generation L W m) (\<lambda>m current.
       if current = - 1
       then (m, Inl (Panicked ''the membership generation counter overflowed u64''))
       else
         let next = current + 1; m1 = stage_generation_counter W m next in
         st_then (m1, vs_validators L W m1) (\<lambda>m1 validators.
         st_then (m1, vs_residents L W m1) (\<lambda>m1 residents.
         st_then (stage_generation_snapshot W m1 next validators residents) (\<lambda>m2 _.
           if next < RETAINED_GENERATIONS then (m2, Inr ())
           else
             let stale_key = generation_set_key (next - RETAINED_GENERATIONS) in
             st_then (m2, staged_get L (vs_staged m2) stale_key) (\<lambda>m2 r.
               if r \<noteq> None then (vs_delete m2 stale_key, Inr ()) else (m2, Inr ()))))))"

text \<open>The loop of \<^verbatim>\<open>mesh_window\<close> over \<open>n\<close> generations from \<open>g\<close> on.\<close>

fun mesh_loop ::
  "'s store_lib \<Rightarrow> valset_wires \<Rightarrow> 's valset \<Rightarrow> nat \<Rightarrow> u64 \<Rightarrow> error + generation_set list" where
  "mesh_loop L W m 0 g = Inr []"
| "mesh_loop L W m (Suc n) g =
     and_then (staged_get L (vs_staged m) (generation_set_key g)) (\<lambda>r.
       case r of
         None \<Rightarrow> mesh_loop L W m n (g + 1)
       | Some bs \<Rightarrow>
           and_then (map_err ModuleError (from_slice (vw_snapshot W) bs)) (\<lambda>(vs, rs).
           and_then (mesh_loop L W m n (g + 1)) (\<lambda>window.
             Inr (\<lparr>gs_generation = g, gs_validators = vs, gs_residents = rs\<rparr> # window))))"

definition saturating_sub :: "u64 \<Rightarrow> u64 \<Rightarrow> u64" where
  "saturating_sub a b = (if a < b then 0 else a - b)"

definition mesh_window ::
  "'s store_lib \<Rightarrow> valset_wires \<Rightarrow> 's valset \<Rightarrow> error + generation_set list" where
  "mesh_window L W m =
     and_then (vs_generation L W m) (\<lambda>latest.
       let from = saturating_sub latest (RETAINED_GENERATIONS - 1) in
       mesh_loop L W m (Suc (unat (latest - from))) from)"

section \<open>Genesis\<close>

definition seed :: "'s store_lib \<Rightarrow> valset_wires \<Rightarrow> 's valset \<Rightarrow> bytes \<Rightarrow> 's valset \<times> (error + unit)" where
  "seed L W m key =
     (if length key \<noteq> KEY_LEN then (m, Inl (Panicked ''genesis validator key must be 32 bytes''))
      else
        st_then (m, vs_validators L W m) (\<lambda>m validators.
          case binary_search validators key of
            Inr _ \<Rightarrow> (m, Inr ())
          | Inl position \<Rightarrow>
              st_then (m, require_capacity validators ''validator'') (\<lambda>m _.
                store_tier W m VALIDATORS_KEY (vec_insert position key validators))))"

definition finish_seed ::
  "'s store_lib \<Rightarrow> valset_wires \<Rightarrow> 's valset \<Rightarrow> 's valset \<times> (error + unit)" where
  "finish_seed L W m =
     st_then (m, staged_get_committed L (vs_staged m) GENERATION_KEY) (\<lambda>m already.
       if already \<noteq> None then (vs_abort m, Inr ())
       else
         st_then (m, vs_validators L W m) (\<lambda>m validators.
           let m1 = stage_generation_counter W m GENESIS_GENERATION in
           st_then
             (if validators \<noteq> []
              then stage_generation_snapshot W m1 GENESIS_GENERATION validators []
              else (m1, Inr ()))
             (\<lambda>m2 _. vs_commit L m2)))"

fun seed_all ::
  "'s store_lib \<Rightarrow> valset_wires \<Rightarrow> 's valset \<Rightarrow> bytes list \<Rightarrow> 's valset \<times> (error + unit)" where
  "seed_all L W m [] = (m, Inr ())"
| "seed_all L W m (key # keys) =
     (if length key \<noteq> KEY_LEN
      then (m, Inl (ModuleError ''initial validator key must be 32 bytes''))
      else st_then (seed L W m key) (\<lambda>m _. seed_all L W m keys))"

definition valset_initialize ::
  "'s store_lib \<Rightarrow> valset_wires \<Rightarrow> 's valset \<Rightarrow> bytes \<Rightarrow> 's valset \<times> (error + unit)" where
  "valset_initialize L W m params =
     st_then (m, decode_config params) (\<lambda>m config.
     st_then (m, case config_find config ''validators'' of
                   Some bs \<Rightarrow> map_err ModuleError (wire_decode (vw_seed W) bs)
                 | None \<Rightarrow> Inr []) (\<lambda>m validators.
     st_then (seed_all L W m validators) (\<lambda>m _. finish_seed L W m)))"

definition valset_flush_operation :: "'s store_lib \<Rightarrow> 's valset \<Rightarrow> 's valset \<times> (error + unit)" where
  "valset_flush_operation L m = vs_commit L m"

section \<open>Handlers\<close>

definition handle_join ::
  "'s store_lib \<Rightarrow> valset_wires \<Rightarrow> 's valset \<Rightarrow> bytes \<Rightarrow> 's valset \<times> (error + unit)" where
  "handle_join L W m key =
     st_then (m, validate_key W key) (\<lambda>m _.
     st_then (m, vs_residents L W m) (\<lambda>m residents.
     st_then (case binary_search residents key of
                Inr position \<Rightarrow> store_tier W m RESIDENTS_KEY (vec_remove position residents)
              | Inl _ \<Rightarrow> (m, Inr ())) (\<lambda>m _.
     st_then (m, vs_validators L W m) (\<lambda>m validators.
       case binary_search validators key of
         Inr _ \<Rightarrow> (m, Inr ())
       | Inl position \<Rightarrow>
           st_then (m, require_capacity validators ''validator'') (\<lambda>m _.
             store_tier W m VALIDATORS_KEY (vec_insert position key validators))))))"

definition handle_leave ::
  "'s store_lib \<Rightarrow> valset_wires \<Rightarrow> 's valset \<Rightarrow> bytes \<Rightarrow> 's valset \<times> (error + unit)" where
  "handle_leave L W m key =
     st_then (m, vs_validators L W m) (\<lambda>m validators.
       case binary_search validators key of
         Inl _ \<Rightarrow> (m, Inr ())
       | Inr position \<Rightarrow>
           if length validators = 1
           then (m, Inl (ModuleError
                  ''refusing to remove the last validator: the set must never be empty''))
           else store_tier W m VALIDATORS_KEY (vec_remove position validators))"

definition validator_grant_error :: error where
  "validator_grant_error = ModuleError
     (''key is a current validator '' @ map char_of [226 :: nat, 128, 148] @
      '' resident standing is the pre-promotion tier'')"

definition handle_grant ::
  "'s store_lib \<Rightarrow> valset_wires \<Rightarrow> 's valset \<Rightarrow> bytes \<Rightarrow> 's valset \<times> (error + unit)" where
  "handle_grant L W m key =
     st_then (m, validate_key W key) (\<lambda>m _.
     st_then (m, vs_validators L W m) (\<lambda>m validators.
       case binary_search validators key of
         Inr _ \<Rightarrow> (m, Inl validator_grant_error)
       | Inl _ \<Rightarrow>
           st_then (m, vs_residents L W m) (\<lambda>m residents.
             case binary_search residents key of
               Inr _ \<Rightarrow> (m, Inr ())
             | Inl position \<Rightarrow>
                 st_then (m, require_capacity residents ''resident'') (\<lambda>m _.
                   store_tier W m RESIDENTS_KEY (vec_insert position key residents)))))"

definition handle_revoke ::
  "'s store_lib \<Rightarrow> valset_wires \<Rightarrow> 's valset \<Rightarrow> bytes \<Rightarrow> 's valset \<times> (error + unit)" where
  "handle_revoke L W m key =
     st_then (m, vs_residents L W m) (\<lambda>m residents.
       case binary_search residents key of
         Inl _ \<Rightarrow> (m, Inr ())
       | Inr position \<Rightarrow> store_tier W m RESIDENTS_KEY (vec_remove position residents))"

fun valset_handle ::
  "'s store_lib \<Rightarrow> valset_wires \<Rightarrow> 's valset \<Rightarrow> valset_msg \<Rightarrow> 's valset \<times> (error + unit)" where
  "valset_handle L W m (Join key) = handle_join L W m key"
| "valset_handle L W m (Leave key) = handle_leave L W m key"
| "valset_handle L W m (Grant key) = handle_grant L W m key"
| "valset_handle L W m (Revoke key) = handle_revoke L W m key"

section \<open>The module trait\<close>

definition valset_authorized :: "'s valset \<Rightarrow> origin \<Rightarrow> bool" where
  "valset_authorized m orig \<longleftrightarrow> orig = Module (vs_governance_id m) \<or> orig = System"

definition valset_execute ::
  "'s store_lib \<Rightarrow> valset_wires \<Rightarrow> 's valset \<Rightarrow> env \<Rightarrow> msg \<Rightarrow> 's valset dispatch_out ctx_m" where
  "valset_execute L W m env msg =
     (if \<not> valset_authorized m (env_origin env)
      then Done (quiet_out m (Inl (ModuleError
             (''valset membership changes only via governance (the '' @ vs_governance_id m @
              '' module), got '' @ debug_origin (env_origin env)))))
      else case map_err ModuleError (wire_decode (vw_msg W) (msg_payload msg)) of
             Inl e \<Rightarrow> Done (quiet_out m (Inl e))
           | Inr op \<Rightarrow> (case valset_handle L W m op of (m', r) \<Rightarrow> Done (quiet_out m' r)))"

definition valset_query :: "'s store_lib \<Rightarrow> valset_wires \<Rightarrow> 's valset \<Rightarrow> bytes \<Rightarrow> error + bytes" where
  "valset_query L W m req =
     (case map_err ModuleError (wire_decode (vw_query W) req) of
        Inl e \<Rightarrow> Inl e
      | Inr QValidators \<Rightarrow>
          and_then (vs_validators L W m) (\<lambda>v. Inr (wire_encode (vw_reply W) (RValidators v)))
      | Inr QResidents \<Rightarrow>
          and_then (vs_residents L W m) (\<lambda>v. Inr (wire_encode (vw_reply W) (RResidents v)))
      | Inr QMeshWindow \<Rightarrow>
          and_then (mesh_window L W m) (\<lambda>w. Inr (wire_encode (vw_reply W) (RMeshWindow w))))"

definition valset_commit_block ::
  "'s store_lib \<Rightarrow> valset_wires \<Rightarrow> 's valset \<Rightarrow> 's valset \<times> (error + unit)" where
  "valset_commit_block L W m =
     st_then (m, staged_membership_changed L m) (\<lambda>m changed.
     st_then (if changed then advance_generation L W m else (m, Inr ())) (\<lambda>m _.
       vs_commit L m))"

definition valset_abort_block :: "'s valset \<Rightarrow> 's valset \<times> (error + unit)" where
  "valset_abort_block m = (vs_abort m, Inr ())"

definition valset_root :: "'s store_lib \<Rightarrow> 's valset \<Rightarrow> state_root" where
  "valset_root L m = staged_root L (vs_staged m)"

definition valset_ops :: "'s store_lib \<Rightarrow> valset_wires \<Rightarrow> 's valset module_ops" where
  "valset_ops L W =
     \<lparr>mod_id = vs_id,
      mod_root = valset_root L,
      mod_execute = valset_execute L W,
      mod_acknowledge = default_acknowledge,
      mod_query = (\<lambda>m _ req. Done (valset_query L W m req)),
      mod_pending_items = default_pending_items,
      mod_commit_block = valset_commit_block L W,
      mod_abort_block = valset_abort_block,
      mod_code_hash = (\<lambda>_. None),
      mod_prepare_swap = default_prepare_swap\<rparr>"

section \<open>Shared reads\<close>

text \<open>The replies the two shared reads accept; anything else is refused with its display.\<close>

definition wrong_reply :: "valset_wires \<Rightarrow> string \<Rightarrow> valset_reply \<Rightarrow> error" where
  "wrong_reply W what other =
     ModuleError (''valset answered a '' @ what @ '' query with '' @ vw_debug_reply W other)"

definition validators_reply :: "valset_wires \<Rightarrow> bytes \<Rightarrow> error + bytes list" where
  "validators_reply W reply =
     and_then (map_err ModuleError (wire_decode (vw_reply W) reply)) (\<lambda>r.
       case r of RValidators v \<Rightarrow> Inr v | other \<Rightarrow> Inl (wrong_reply W ''Validators'' other))"

definition residents_reply :: "valset_wires \<Rightarrow> bytes \<Rightarrow> error + bytes list" where
  "residents_reply W reply =
     and_then (map_err ModuleError (wire_decode (vw_reply W) reply)) (\<lambda>r.
       case r of RResidents v \<Rightarrow> Inr v | other \<Rightarrow> Inl (wrong_reply W ''Residents'' other))"

definition members :: "valset_wires \<Rightarrow> module_id \<Rightarrow> (error + bytes list) ctx_m" where
  "members W valset =
     Query valset (wire_encode (vw_query W) QValidators) (\<lambda>r.
       Done (and_then r (validators_reply W)))"

definition members_and_residents :: "valset_wires \<Rightarrow> module_id \<Rightarrow> (error + bytes list) ctx_m" where
  "members_and_residents W valset =
     Query valset (wire_encode (vw_query W) QValidators) (\<lambda>r.
       case and_then r (validators_reply W) of
         Inl e \<Rightarrow> Done (Inl e)
       | Inr validators \<Rightarrow>
           Query valset (wire_encode (vw_query W) QResidents) (\<lambda>r.
             Done (and_then (and_then r (residents_reply W)) (\<lambda>residents.
               Inr (bs_append [] (validators @ residents))))))"

section \<open>Staging contract\<close>

lemma st_then_inv:
  "P (fst p) \<Longrightarrow> (\<And>m a. P m \<Longrightarrow> P (fst (k m a))) \<Longrightarrow> P (fst (st_then p k))"
  by (cases p; cases "snd p") (auto simp: st_then_def)

lemma vs_abort_stage [simp]: "vs_abort (vs_stage m k v) = vs_abort m"
  and vs_abort_delete [simp]: "vs_abort (vs_delete m k) = vs_abort m"
  by (simp_all add: vs_abort_def vs_stage_def vs_delete_def staged_abort_def stage_def stage_delete_def)

lemma vs_abort_store_tier: "vs_abort (fst (store_tier W m k t)) = vs_abort m"
  by (simp add: store_tier_def Let_def)

lemma vs_abort_handle: "vs_abort (fst (valset_handle L W m op)) = vs_abort m"
proof -
  note inv = st_then_inv [where P = "\<lambda>m'. vs_abort m' = vs_abort m"]
  show ?thesis
    by (cases op)
      (auto simp: handle_join_def handle_leave_def handle_grant_def handle_revoke_def
        vs_abort_store_tier intro!: inv split: sum.split)
qed

lemma valset_execute_leaf:
  assumes "ctx_leaf (valset_execute L W m env msg) out"
  shows "out_module out = m \<or>
     (valset_authorized m (env_origin env) \<and> (\<exists>op. out_module out = fst (valset_handle L W m op)))"
proof (cases "valset_authorized m (env_origin env)")
  case auth: True
  show ?thesis
  proof (cases "from_slice (vw_msg W) (msg_payload msg)")
    case (Inl e)
    then show ?thesis using assms auth by (simp add: valset_execute_def wire_decode_def quiet_out_def)
  next
    case (Inr op)
    moreover obtain m' r where "valset_handle L W m op = (m', r)" by fastforce
    ultimately show ?thesis
      using assms auth by (simp add: valset_execute_def wire_decode_def quiet_out_def) (metis fst_conv)
  qed
qed (use assms in \<open>simp add: valset_execute_def quiet_out_def\<close>)

interpretation valset_laws: module_laws "valset_ops L W" vs_abort for L W
proof
  fix m :: "'a valset" and env msg
  show "ctx_all (\<lambda>out. vs_abort (out_module out) = vs_abort m) (mod_execute (valset_ops L W) m env msg)"
    unfolding ctx_all_leaf valset_ops_def using valset_execute_leaf vs_abort_handle
    by (metis module_ops.select_convs(3))
qed (auto simp: valset_ops_def valset_abort_block_def valset_root_def staged_root_def
    vs_abort_def staged_abort_def default_acknowledge_def)

section \<open>Tiers are sets\<close>

definition VS_KEYS :: "bytes set" where
  "VS_KEYS = {VALIDATORS_KEY, RESIDENTS_KEY, GENERATION_KEY} \<union> range generation_set_key"

lemma vs_keys_in [simp, intro]:
  "VALIDATORS_KEY \<in> VS_KEYS" "RESIDENTS_KEY \<in> VS_KEYS" "GENERATION_KEY \<in> VS_KEYS"
  "generation_set_key g \<in> VS_KEYS"
  by (simp_all add: VS_KEYS_def)

lemma vs_keys_distinct [simp]:
  "VALIDATORS_KEY \<noteq> RESIDENTS_KEY" "RESIDENTS_KEY \<noteq> VALIDATORS_KEY"
  "VALIDATORS_KEY \<noteq> GENERATION_KEY" "GENERATION_KEY \<noteq> VALIDATORS_KEY"
  "RESIDENTS_KEY \<noteq> GENERATION_KEY" "GENERATION_KEY \<noteq> RESIDENTS_KEY"
  by (simp_all add: VALIDATORS_KEY_def RESIDENTS_KEY_def GENERATION_KEY_def as_bytes_inj)

lemma length_generation_set_key: "length (generation_set_key g) = 19"
  by (simp add: generation_set_key_def u64_be_def)

lemma generation_set_key_distinct [simp]:
  "generation_set_key g \<noteq> VALIDATORS_KEY" "VALIDATORS_KEY \<noteq> generation_set_key g"
  "generation_set_key g \<noteq> RESIDENTS_KEY" "RESIDENTS_KEY \<noteq> generation_set_key g"
  "generation_set_key g \<noteq> GENERATION_KEY" "GENERATION_KEY \<noteq> generation_set_key g"
  using length_generation_set_key [of g]
  by (auto simp: VALIDATORS_KEY_def RESIDENTS_KEY_def GENERATION_KEY_def
      dest!: arg_cong [where f = length])

lemma generation_set_key_inj [simp]: "generation_set_key g = generation_set_key h \<longleftrightarrow> g = h"
  by (simp add: generation_set_key_def u64_be_inj)

definition tier_ok :: "bytes list \<Rightarrow> bool" where
  "tier_ok t \<longleftrightarrow>
     sorted_wrt (<) t \<and> length t \<le> MAX_MEMBERS \<and> list_all (\<lambda>k. length k = KEY_LEN) t"

definition tier_record :: "valset_wires \<Rightarrow> bytes list \<Rightarrow> bytes option" where
  "tier_record W t = (if t = [] then None else Some (to_vec (vw_tier W) t))"

text \<open>
  What the module relies on of borsh: the records it writes read back, and a record at the
  member caps is within the byte bound.
\<close>

definition borsh_ok :: "valset_wires \<Rightarrow> bool" where
  "borsh_ok W \<longleftrightarrow>
     round_trips_on {t. tier_ok t} (vw_tier W) \<and>
     round_trips_on UNIV (vw_generation W) \<and>
     round_trips_on {(v, r). tier_ok v \<and> tier_ok r} (vw_snapshot W) \<and>
     (\<forall>t. tier_ok t \<longrightarrow> length (to_vec (vw_tier W) t) \<le> MAX_TIER_RECORD_BYTES) \<and>
     (\<forall>v r. tier_ok v \<longrightarrow> tier_ok r \<longrightarrow>
        length (to_vec (vw_snapshot W) (v, r)) \<le> MAX_TIER_RECORD_BYTES)"

definition key_ok :: "valset_wires \<Rightarrow> bytes \<Rightarrow> bool" where
  "key_ok W k \<longleftrightarrow> length k = KEY_LEN \<and> vw_decode_key W k = Inr ()"

lemma validate_key_cases:
  "if key_ok W k then validate_key W k = Inr () else \<exists>e. validate_key W k = Inl e"
  by (cases "vw_decode_key W k") (auto simp: validate_key_def key_ok_def)

lemma tier_ok_insert:
  "tier_ok t \<Longrightarrow> k \<notin> set t \<Longrightarrow> length t < MAX_MEMBERS \<Longrightarrow> length k = KEY_LEN \<Longrightarrow>
   tier_ok (vec_insert (rank t k) k t)"
  by (auto simp: tier_ok_def sorted_vec_insert list_all_iff)

lemma tier_ok_remove: "tier_ok t \<Longrightarrow> k \<in> set t \<Longrightarrow> tier_ok (vec_remove (rank t k) t)"
  using rank_mem [of t k] set_vec_remove_subset [of "rank t k" t]
  by (auto simp: tier_ok_def sorted_vec_remove length_vec_remove list_all_iff)

lemma tier_search:
  "tier_ok t \<Longrightarrow> binary_search t k = (if k \<in> set t then Inr (rank t k) else Inl (rank t k))"
  by (simp add: tier_ok_def binary_search_sorted)

lemma tier_set_remove: "tier_ok t \<Longrightarrow> k \<in> set t \<Longrightarrow> set (vec_remove (rank t k) t) = set t - {k}"
  by (simp add: tier_ok_def set_vec_remove)

lemma tier_card: "tier_ok t \<Longrightarrow> card (set t) = length t"
  by (metis distinct_card strict_sorted_iff tier_ok_def)

section \<open>The state of a module\<close>

definition vs_visible :: "('s \<Rightarrow> bytes \<rightharpoonup> bytes) \<Rightarrow> 's store_lib \<Rightarrow> 's valset \<Rightarrow> bytes \<rightharpoonup> bytes" where
  "vs_visible view L m = visible view L (vs_staged m)"

definition vs_committed :: "('s \<Rightarrow> bytes \<rightharpoonup> bytes) \<Rightarrow> 's store_lib \<Rightarrow> 's valset \<Rightarrow> bytes \<rightharpoonup> bytes" where
  "vs_committed view L m = committed view L (vs_staged m)"

definition vs_ok :: "('s \<Rightarrow> bool) \<Rightarrow> 's valset \<Rightarrow> bool" where
  "vs_ok ok m \<longleftrightarrow> staged_ok ok VS_KEYS (vs_staged m)"

lemma vs_visible_simps [simp]:
  "vs_visible view L (vs_stage m k v) = (vs_visible view L m)(k \<mapsto> v)"
  "vs_visible view L (vs_delete m k) = (vs_visible view L m)(k := None)"
  "vs_visible view L (vs_abort m) = vs_committed view L m"
  "vs_committed view L (vs_stage m k v) = vs_committed view L m"
  "vs_committed view L (vs_delete m k) = vs_committed view L m"
  "vs_committed view L (vs_abort m) = vs_committed view L m"
  by (simp_all add: vs_visible_def vs_committed_def vs_stage_def vs_delete_def vs_abort_def)

lemma vs_ok_simps [simp]:
  "vs_ok ok m \<Longrightarrow> k \<in> VS_KEYS \<Longrightarrow> vs_ok ok (vs_stage m k v)"
  "vs_ok ok m \<Longrightarrow> k \<in> VS_KEYS \<Longrightarrow> vs_ok ok (vs_delete m k)"
  "vs_ok ok m \<Longrightarrow> vs_ok ok (vs_abort m)"
  by (auto simp: vs_ok_def vs_stage_def vs_delete_def vs_abort_def)

text \<open>A store content that carries the tiers \<open>vs\<close> and \<open>rs\<close>.\<close>

definition tiers_at :: "valset_wires \<Rightarrow> (bytes \<rightharpoonup> bytes) \<Rightarrow> bytes list \<Rightarrow> bytes list \<Rightarrow> bool" where
  "tiers_at W f vs rs \<longleftrightarrow>
     tier_ok vs \<and> tier_ok rs \<and> set vs \<inter> set rs = {} \<and>
     f VALIDATORS_KEY = tier_record W vs \<and> f RESIDENTS_KEY = tier_record W rs"

definition put_tier :: "valset_wires \<Rightarrow> 's valset \<Rightarrow> bytes \<Rightarrow> bytes list \<Rightarrow> 's valset" where
  "put_tier W m k t = (if t = [] then vs_delete m k else vs_stage m k (to_vec (vw_tier W) t))"

lemma put_tier_simps [simp]:
  "vs_visible view L (put_tier W m k t) = (vs_visible view L m)(k := tier_record W t)"
  "vs_committed view L (put_tier W m k t) = vs_committed view L m"
  "vs_ok ok m \<Longrightarrow> k \<in> VS_KEYS \<Longrightarrow> vs_ok ok (put_tier W m k t)"
  by (simp_all add: put_tier_def tier_record_def)

lemma store_tier_eq:
  "borsh_ok W \<Longrightarrow> tier_ok t \<Longrightarrow> store_tier W m k t = (put_tier W m k t, Inr ())"
  by (auto simp: store_tier_def put_tier_def borsh_ok_def Let_def not_less [symmetric])

context merkle_laws
begin

lemma vs_get: "vs_ok ok m \<Longrightarrow> staged_get L (vs_staged m) k = Inr (vs_visible view L m k)"
  and vs_get_committed:
    "vs_ok ok m \<Longrightarrow> staged_get_committed L (vs_staged m) k = Inr (vs_committed view L m k)"
  using staged_get_visible staged_get_committed_eq
  by (auto simp: vs_ok_def vs_visible_def vs_committed_def)

lemma vs_tier_eq:
  assumes "vs_ok ok m" and "borsh_ok W" and "tier_ok t" and "vs_visible view L m k = tier_record W t"
  shows "vs_tier L W m k = Inr t"
  using assms round_trips_onD [of "{t. tier_ok t}" "vw_tier W" t]
  by (auto simp: vs_tier_def vs_get tier_record_def borsh_ok_def split: if_splits)

lemma vs_tiers_eq:
  assumes "vs_ok ok m" and "borsh_ok W" and "tiers_at W (vs_visible view L m) vs rs"
  shows "vs_validators L W m = Inr vs" and "vs_residents L W m = Inr rs"
  using assms vs_tier_eq by (auto simp: vs_validators_def vs_residents_def tiers_at_def)

end

section \<open>Handlers refine set operations\<close>

text \<open>
  The contract of the four operations on the validator set and the resident set, with whether
  the operation is accepted. A join that is refused for lack of capacity has already taken the
  key out of the residents; the host rolls a refused operation back.
\<close>

fun vs_spec ::
  "(bytes \<Rightarrow> bool) \<Rightarrow> valset_msg \<Rightarrow> bytes set \<times> bytes set \<Rightarrow> (bytes set \<times> bytes set) \<times> bool" where
  "vs_spec good (Join k) (V, R) =
     (if \<not> good k then ((V, R), False)
      else if k \<in> V then ((V, R - {k}), True)
      else if card V \<ge> MAX_MEMBERS then ((V, R - {k}), False)
      else ((insert k V, R - {k}), True))"
| "vs_spec good (Leave k) (V, R) =
     (if k \<notin> V then ((V, R), True)
      else if card V = 1 then ((V, R), False)
      else ((V - {k}, R), True))"
| "vs_spec good (Grant k) (V, R) =
     (if \<not> good k \<or> k \<in> V then ((V, R), False)
      else if k \<in> R then ((V, R), True)
      else if card R \<ge> MAX_MEMBERS then ((V, R), False)
      else ((V, insert k R), True))"
| "vs_spec good (Revoke k) (V, R) = ((V, R - {k}), True)"

text \<open>The handler ran: new tiers carry the sets of the contract and nothing else moved.\<close>

definition handled ::
  "('s \<Rightarrow> bytes \<rightharpoonup> bytes) \<Rightarrow> ('s \<Rightarrow> bool) \<Rightarrow> 's store_lib \<Rightarrow> valset_wires \<Rightarrow> 's valset \<Rightarrow>
   's valset \<times> (error + unit) \<Rightarrow> (bytes set \<times> bytes set) \<times> bool \<Rightarrow> bool" where
  "handled view ok L W m res spec \<longleftrightarrow>
     (\<exists>vs rs. tiers_at W (vs_visible view L (fst res)) vs rs \<and>
              spec = ((set vs, set rs), snd res = Inr ())) \<and>
     vs_ok ok (fst res) \<and> vs_committed view L (fst res) = vs_committed view L m \<and>
     (\<forall>k. k \<noteq> VALIDATORS_KEY \<longrightarrow> k \<noteq> RESIDENTS_KEY \<longrightarrow>
          vs_visible view L (fst res) k = vs_visible view L m k)"

lemma handled_same:
  assumes "vs_ok ok m" and "tiers_at W (vs_visible view L m) vs rs"
  shows "handled view ok L W m (m, Inr ()) ((set vs, set rs), True)"
    and "handled view ok L W m (m, Inl e) ((set vs, set rs), False)"
  using assms by (auto simp: handled_def)

lemma handled_put:
  assumes "vs_ok ok m" and "k = VALIDATORS_KEY \<or> k = RESIDENTS_KEY"
    and "tiers_at W ((vs_visible view L m)(k := tier_record W t)) vs rs"
    and "V = set vs" and "R = set rs"
  shows "handled view ok L W m (put_tier W m k t, Inr ()) ((V, R), True)"
  using assms by (auto simp: handled_def)

lemma handled_from:
  assumes "handled view ok L W m1 res spec"
    and "vs_committed view L m1 = vs_committed view L m"
    and "\<And>k. k \<noteq> VALIDATORS_KEY \<Longrightarrow> k \<noteq> RESIDENTS_KEY \<Longrightarrow>
           vs_visible view L m1 k = vs_visible view L m k"
  shows "handled view ok L W m res spec"
  using assms by (simp add: handled_def)

lemma require_capacity_cases:
  "if length t < MAX_MEMBERS then require_capacity t what = Inr ()
   else \<exists>e. require_capacity t what = Inl e"
  by (simp add: require_capacity_def)

context merkle_laws
begin

lemma handle_join_spec:
  assumes "vs_ok ok m" and "borsh_ok W" and "tiers_at W (vs_visible view L m) vs rs"
  shows "handled view ok L W m (handle_join L W m k) (vs_spec (key_ok W) (Join k) (set vs, set rs))"
proof (cases "key_ok W k")
  case False
  then obtain e where "validate_key W k = Inl e" using validate_key_cases [of W k] by auto
  with False assms show ?thesis
    unfolding handled_def handle_join_def by auto
next
  case True
  have tok: "tier_ok vs" "tier_ok rs" and disj: "set vs \<inter> set rs = {}" and len: "length k = KEY_LEN"
    using assms(3) True by (auto simp: tiers_at_def key_ok_def)
  define rs' where "rs' = (if k \<in> set rs then vec_remove (rank rs k) rs else rs)"
  define m1 where "m1 = (if k \<in> set rs then put_tier W m RESIDENTS_KEY rs' else m)"
  have rs': "tier_ok rs'" "set rs' = set rs - {k}"
    using tok by (auto simp: rs'_def tier_ok_remove tier_set_remove)
  have m1: "vs_ok ok m1" "tiers_at W (vs_visible view L m1) vs rs'"
    "vs_committed view L m1 = vs_committed view L m"
    using assms rs' by (auto simp: m1_def rs'_def tiers_at_def)
  have rest1: "vs_visible view L m1 k' = vs_visible view L m k'"
    if "k' \<noteq> VALIDATORS_KEY" "k' \<noteq> RESIDENTS_KEY" for k'
    using that by (simp add: m1_def)
  have v: "validate_key W k = Inr ()" using True validate_key_cases [of W k] by simp
  have r: "(case binary_search rs k of
        Inr position \<Rightarrow> store_tier W m RESIDENTS_KEY (vec_remove position rs)
      | Inl _ \<Rightarrow> (m, Inr ())) = (m1, Inr ())"
    using tok tier_ok_remove [OF tok(2), of k]
    by (simp add: tier_search m1_def rs'_def store_tier_eq [OF assms(2)])
  have step: "handle_join L W m k =
      (if k \<in> set vs then (m1, Inr ())
       else st_then (m1, require_capacity vs ''validator'') (\<lambda>m _.
              store_tier W m VALIDATORS_KEY (vec_insert (rank vs k) k vs)))"
    using vs_tiers_eq(2) [OF assms] vs_tiers_eq(1) [OF m1(1) assms(2) m1(2)] tok(1)
    by (simp add: handle_join_def v r tier_search)
  have "handled view ok L W m1 (handle_join L W m k) (vs_spec (key_ok W) (Join k) (set vs, set rs))"
  proof (cases "k \<in> set vs \<or> \<not> length vs < MAX_MEMBERS")
    case full: True
    show ?thesis
    proof (cases "k \<in> set vs")
      case True
      have "vs_spec (key_ok W) (Join k) (set vs, set rs) = ((set vs, set rs'), True)"
        using True \<open>key_ok W k\<close> rs' by simp
      then show ?thesis
        using True handled_same(1) [OF m1(1,2)] by (simp only: step if_True)
    next
      case False
      with full obtain e where "require_capacity vs ''validator'' = Inl e"
        using require_capacity_cases [of vs "''validator''"] by auto
      moreover have "vs_spec (key_ok W) (Join k) (set vs, set rs) = ((set vs, set rs'), False)"
        using False full \<open>key_ok W k\<close> rs' tok by (simp add: tier_card)
      ultimately show ?thesis
        using False handled_same(2) [OF m1(1,2)] by (simp only: step if_False st_then_simps)
    qed
  next
    case False
    let ?vs = "vec_insert (rank vs k) k vs"
    have h: "handle_join L W m k = (put_tier W m1 VALIDATORS_KEY ?vs, Inr ())"
      using False step require_capacity_cases [of vs "''validator''"] store_tier_eq [OF assms(2)]
        tier_ok_insert [of vs k] tok len by simp
    have t: "tiers_at W ((vs_visible view L m1)(VALIDATORS_KEY := tier_record W ?vs)) ?vs rs'"
      using m1(2) rs' tier_ok_insert [of vs k] tok len False disj by (auto simp: tiers_at_def)
    have sp: "vs_spec (key_ok W) (Join k) (set vs, set rs) = ((set ?vs, set rs'), True)"
      using False \<open>key_ok W k\<close> rs' tok by (simp add: tier_card)
    show ?thesis
      unfolding h sp by (rule handled_put [OF m1(1) _ t refl refl]) simp
  qed
  then show ?thesis
    using m1(3) rest1 by (rule handled_from)
qed

lemma handle_leave_spec:
  assumes "vs_ok ok m" and "borsh_ok W" and "tiers_at W (vs_visible view L m) vs rs"
  shows "handled view ok L W m (handle_leave L W m k) (vs_spec (key_ok W) (Leave k) (set vs, set rs))"
proof (cases "k \<in> set vs \<and> length vs \<noteq> 1")
  case True
  have tok: "tier_ok vs" using assms(3) by (simp add: tiers_at_def)
  let ?vs = "vec_remove (rank vs k) vs"
  have rem: "tier_ok ?vs" "set ?vs = set vs - {k}"
    using tok True by (auto simp: tier_ok_remove tier_set_remove)
  have h: "handle_leave L W m k = (put_tier W m VALIDATORS_KEY ?vs, Inr ())"
    using True tok rem vs_tiers_eq(1) [OF assms] assms(2)
    by (simp add: handle_leave_def tier_search store_tier_eq)
  have t: "tiers_at W ((vs_visible view L m)(VALIDATORS_KEY := tier_record W ?vs)) ?vs rs"
    using assms(3) rem by (auto simp: tiers_at_def)
  have sp: "vs_spec (key_ok W) (Leave k) (set vs, set rs) = ((set ?vs, set rs), True)"
    using True tok rem by (simp add: tier_card)
  show ?thesis
    unfolding h sp by (rule handled_put [OF assms(1) _ t refl refl]) simp
next
  case False
  moreover have "tier_ok vs" using assms(3) by (simp add: tiers_at_def)
  ultimately show ?thesis
    using vs_tiers_eq(1) [OF assms]
    by (auto simp: handle_leave_def tier_search tier_card handled_same [OF assms(1,3)])
qed

lemma handle_grant_spec:
  assumes "vs_ok ok m" and "borsh_ok W" and "tiers_at W (vs_visible view L m) vs rs"
  shows "handled view ok L W m (handle_grant L W m k) (vs_spec (key_ok W) (Grant k) (set vs, set rs))"
proof (cases "key_ok W k \<and> k \<notin> set vs \<and> k \<notin> set rs \<and> length rs < MAX_MEMBERS")
  case True
  have tok: "tier_ok vs" "tier_ok rs" using assms(3) by (auto simp: tiers_at_def)
  let ?rs = "vec_insert (rank rs k) k rs"
  have ins: "tier_ok ?rs"
    using True tok by (auto simp: tier_ok_insert key_ok_def)
  have h: "handle_grant L W m k = (put_tier W m RESIDENTS_KEY ?rs, Inr ())"
    using True tok ins vs_tiers_eq [OF assms] validate_key_cases [of W k]
      require_capacity_cases [of rs "''resident''"] store_tier_eq [OF assms(2)]
    by (simp add: handle_grant_def tier_search)
  have t: "tiers_at W ((vs_visible view L m)(RESIDENTS_KEY := tier_record W ?rs)) vs ?rs"
    using assms(3) ins True by (auto simp: tiers_at_def)
  have sp: "vs_spec (key_ok W) (Grant k) (set vs, set rs) = ((set vs, set ?rs), True)"
    using True tok by (simp add: tier_card)
  show ?thesis
    unfolding h sp by (rule handled_put [OF assms(1) _ t refl refl]) simp
next
  case False
  have tok: "tier_ok vs" "tier_ok rs" using assms(3) by (auto simp: tiers_at_def)
  have "handle_grant L W m k = (m, Inr ()) \<and> key_ok W k \<and> k \<notin> set vs \<and> k \<in> set rs \<or>
      (\<exists>e. handle_grant L W m k = (m, Inl e)) \<and> \<not> (key_ok W k \<and> k \<notin> set vs \<and> k \<in> set rs)"
    using False tok vs_tiers_eq [OF assms] validate_key_cases [of W k]
      require_capacity_cases [of rs "''resident''"]
    by (auto simp: handle_grant_def tier_search split: if_splits)
  then show ?thesis
    using False tok by (auto simp: tier_card handled_same [OF assms(1,3)])
qed

lemma handle_revoke_spec:
  assumes "vs_ok ok m" and "borsh_ok W" and "tiers_at W (vs_visible view L m) vs rs"
  shows "handled view ok L W m (handle_revoke L W m k) (vs_spec (key_ok W) (Revoke k) (set vs, set rs))"
proof (cases "k \<in> set rs")
  case True
  have tok: "tier_ok rs" using assms(3) by (simp add: tiers_at_def)
  let ?rs = "vec_remove (rank rs k) rs"
  have rem: "tier_ok ?rs" "set ?rs = set rs - {k}"
    using tok True by (auto simp: tier_ok_remove tier_set_remove)
  have h: "handle_revoke L W m k = (put_tier W m RESIDENTS_KEY ?rs, Inr ())"
    using True tok rem vs_tiers_eq(2) [OF assms] assms(2)
    by (simp add: handle_revoke_def tier_search store_tier_eq)
  have t: "tiers_at W ((vs_visible view L m)(RESIDENTS_KEY := tier_record W ?rs)) vs ?rs"
    using assms(3) rem by (auto simp: tiers_at_def)
  have sp: "vs_spec (key_ok W) (Revoke k) (set vs, set rs) = ((set vs, set ?rs), True)"
    using rem by simp
  show ?thesis
    unfolding h sp by (rule handled_put [OF assms(1) _ t refl refl]) simp
next
  case False
  moreover have "tier_ok rs" using assms(3) by (simp add: tiers_at_def)
  ultimately show ?thesis
    using vs_tiers_eq(2) [OF assms]
    by (simp add: handle_revoke_def tier_search handled_same [OF assms(1,3)])
qed

lemma valset_handle_spec:
  assumes "vs_ok ok m" and "borsh_ok W" and "tiers_at W (vs_visible view L m) vs rs"
  shows "handled view ok L W m (valset_handle L W m op) (vs_spec (key_ok W) op (set vs, set rs))"
  using handle_join_spec [OF assms] handle_leave_spec [OF assms] handle_grant_spec [OF assms]
    handle_revoke_spec [OF assms]
  by (cases op) (simp_all only: valset_handle.simps)

end

end
