(* ===== verification/Valset_Window.thy ===== *)
theory Valset_Window
  imports Valset
begin

text \<open>
  The life of a valset module: what a commit publishes, which states are reachable, and the
  properties of the registry. The invariant \<open>vs_life\<close> says that committed state carries sorted,
  capped and disjoint tiers, a generation counter and the snapshots of the retained window, the
  newest of which is the committed membership, and that only the tiers are ever staged.
\<close>

section \<open>Committed state\<close>

text \<open>The snapshots of the window at generation \<open>g\<close>, the newest being the tiers \<open>vs\<close>, \<open>rs\<close>.\<close>

definition window_ok ::
  "u64 \<Rightarrow> (u64 \<rightharpoonup> bytes list \<times> bytes list) \<Rightarrow> bytes list \<Rightarrow> bytes list \<Rightarrow> bool" where
  "window_ok g snaps vs rs \<longleftrightarrow>
     (\<forall>h v r. snaps h = Some (v, r) \<longrightarrow>
        unat h \<le> unat g \<and> unat g < unat h + 4 \<and> tier_ok v \<and> tier_ok r) \<and>
     (case snaps g of None \<Rightarrow> vs = [] \<and> rs = [] | Some p \<Rightarrow> p = (vs, rs))"

definition generation_at :: "valset_wires \<Rightarrow> (bytes \<rightharpoonup> bytes) \<Rightarrow> u64 \<Rightarrow> bool" where
  "generation_at W f g \<longleftrightarrow>
     f GENERATION_KEY = Some (to_vec (vw_generation W) g) \<or> (f GENERATION_KEY = None \<and> g = 0)"

definition boundary_at ::
  "valset_wires \<Rightarrow> (bytes \<rightharpoonup> bytes) \<Rightarrow> bytes list \<Rightarrow> bytes list \<Rightarrow> u64 \<Rightarrow>
   (u64 \<rightharpoonup> bytes list \<times> bytes list) \<Rightarrow> bool" where
  "boundary_at W f vs rs g snaps \<longleftrightarrow>
     tiers_at W f vs rs \<and> generation_at W f g \<and> window_ok g snaps vs rs \<and>
     (\<forall>h. f (generation_set_key h) = map_option (to_vec (vw_snapshot W)) (snaps h))"

definition vs_life ::
  "('s \<Rightarrow> bytes \<rightharpoonup> bytes) \<Rightarrow> ('s \<Rightarrow> bool) \<Rightarrow> 's store_lib \<Rightarrow> valset_wires \<Rightarrow> 's valset \<Rightarrow>
   bytes list \<Rightarrow> bytes list \<Rightarrow> bytes list \<Rightarrow> bytes list \<Rightarrow> u64 \<Rightarrow> (u64 \<rightharpoonup> bytes list \<times> bytes list) \<Rightarrow> bool" where
  "vs_life view ok L W m vs rs cvs crs g snaps \<longleftrightarrow>
     vs_ok ok m \<and> tiers_at W (vs_visible view L m) vs rs \<and>
     boundary_at W (vs_committed view L m) cvs crs g snaps \<and>
     (\<forall>k. k \<noteq> VALIDATORS_KEY \<longrightarrow> k \<noteq> RESIDENTS_KEY \<longrightarrow>
          vs_visible view L m k = vs_committed view L m k)"

text \<open>A commit of changed tiers advances the window.\<close>

definition next_snaps ::
  "u64 \<Rightarrow> (u64 \<rightharpoonup> bytes list \<times> bytes list) \<Rightarrow> bytes list \<Rightarrow> bytes list \<Rightarrow>
   (u64 \<rightharpoonup> bytes list \<times> bytes list)" where
  "next_snaps g snaps vs rs =
     (if g + 1 < RETAINED_GENERATIONS then snaps(g + 1 \<mapsto> (vs, rs))
      else (snaps(g + 1 \<mapsto> (vs, rs)))(g + 1 - RETAINED_GENERATIONS := None))"

lemma unat_plus_one: "(g :: u64) \<noteq> - 1 \<Longrightarrow> unat (g + 1) = unat g + 1"
  using unatSuc [of g] by (simp add: add.commute add_eq_0_iff)

lemma unat_retained [simp]: "unat RETAINED_GENERATIONS = 4"
  by (simp add: RETAINED_GENERATIONS_def)

lemma window_ok_next:
  assumes "window_ok g snaps cvs crs" and "tier_ok vs" and "tier_ok rs" and "g \<noteq> - 1"
  shows "window_ok (g + 1) (next_snaps g snaps vs rs) vs rs"
proof -
  note up = unat_plus_one [OF assms(4)]
  have stale: "unat (g + 1 - RETAINED_GENERATIONS) = unat g - 3" if "\<not> g + 1 < RETAINED_GENERATIONS"
    using that up by (simp add: word_less_nat_alt unat_sub word_le_nat_alt)
  have "unat h \<le> unat (g + 1) \<and> unat (g + 1) < unat h + 4 \<and> tier_ok v \<and> tier_ok r"
    if h: "next_snaps g snaps vs rs h = Some (v, r)" for h v r
  proof (cases "h = g + 1")
    case True
    then have "v = vs \<and> r = rs"
      using h by (auto simp: next_snaps_def split: if_splits)
    then show ?thesis using True assms by simp
  next
    case False
    then have old: "snaps h = Some (v, r)"
      and gone: "g + 1 < RETAINED_GENERATIONS \<or> h \<noteq> g + 1 - RETAINED_GENERATIONS"
      using h by (auto simp: next_snaps_def split: if_splits)
    have "unat h \<le> unat g" "unat g < unat h + 4" "tier_ok v" "tier_ok r"
      using old assms(1) by (auto simp: window_ok_def)
    moreover have "unat g + 1 < unat h + 4"
    proof (cases "g + 1 < RETAINED_GENERATIONS")
      case True
      then show ?thesis using up by (simp add: word_less_nat_alt)
    next
      case False
      with gone have "unat h \<noteq> unat g - 3"
        using stale by (metis word_unat_eq_iff)
      moreover have "3 \<le> unat g" using False up by (simp add: word_less_nat_alt)
      ultimately show ?thesis using \<open>unat g < unat h + 4\<close> by linarith
    qed
    ultimately show ?thesis using up by simp
  qed
  moreover have "next_snaps g snaps vs rs (g + 1) = Some (vs, rs)"
    by (simp add: next_snaps_def RETAINED_GENERATIONS_def)
  ultimately show ?thesis by (simp add: window_ok_def)
qed

lemma tier_record_inj:
  assumes "borsh_ok W" and "tier_ok s" and "tier_ok t" and "tier_record W s = tier_record W t"
  shows "s = t"
  using assms round_trips_onD [of "{t. tier_ok t}" "vw_tier W"]
  by (auto simp: tier_record_def borsh_ok_def split: if_splits) (metis Inr_inject mem_Collect_eq)

context merkle_laws
begin

lemma vs_generation_eq:
  assumes "vs_ok ok m" and "borsh_ok W" and "generation_at W (vs_visible view L m) g"
  shows "vs_generation L W m = Inr g"
  using assms round_trips_onD [of UNIV "vw_generation W" g]
  by (auto simp: vs_generation_def vs_get generation_at_def borsh_ok_def GENESIS_GENERATION_def)

lemma membership_changed_eq:
  assumes "vs_ok ok m" and "borsh_ok W" and "tiers_at W (vs_visible view L m) vs rs"
    and "tiers_at W (vs_committed view L m) cvs crs"
  shows "staged_membership_changed L m = Inr ((vs, rs) \<noteq> (cvs, crs))"
  using assms tier_record_inj [OF assms(2)]
  by (auto simp: staged_membership_changed_def vs_get vs_get_committed tiers_at_def)

lemma advance_generation_eq:
  assumes "vs_ok ok m" and "borsh_ok W" and "tiers_at W (vs_visible view L m) vs rs"
    and "generation_at W (vs_visible view L m) g" and "g \<noteq> - 1"
  shows "\<exists>m'. advance_generation L W m = (m', Inr ()) \<and> vs_ok ok m' \<and>
    vs_committed view L m' = vs_committed view L m \<and>
    tiers_at W (vs_visible view L m') vs rs \<and>
    vs_visible view L m' GENERATION_KEY = Some (to_vec (vw_generation W) (g + 1)) \<and>
    (\<forall>h. vs_visible view L m' (generation_set_key h) =
      (if h = g + 1 then Some (to_vec (vw_snapshot W) (vs, rs))
       else if RETAINED_GENERATIONS \<le> g + 1 \<and> h = g + 1 - RETAINED_GENERATIONS then None
       else vs_visible view L m (generation_set_key h)))"
proof -
  define m1 where "m1 = stage_generation_counter W m (g + 1)"
  define m2 where "m2 = vs_stage m1 (generation_set_key (g + 1)) (to_vec (vw_snapshot W) (vs, rs))"
  let ?stale = "generation_set_key (g + 1 - RETAINED_GENERATIONS)"
  have m1: "vs_ok ok m1" "tiers_at W (vs_visible view L m1) vs rs"
    using assms by (auto simp: m1_def stage_generation_counter_def tiers_at_def)
  have m2: "vs_ok ok m2" using m1 by (simp add: m2_def)
  have snap: "stage_generation_snapshot W m1 (g + 1) vs rs = (m2, Inr ())"
    using assms(2,3) by (auto simp: stage_generation_snapshot_def m2_def borsh_ok_def tiers_at_def
        Let_def not_less [symmetric])
  have "advance_generation L W m =
      (if g + 1 < RETAINED_GENERATIONS then (m2, Inr ())
       else if vs_visible view L m2 ?stale \<noteq> None then (vs_delete m2 ?stale, Inr ()) else (m2, Inr ()))"
    using assms(5) vs_generation_eq [OF assms(1,2,4)] vs_tiers_eq [OF m1(1) assms(2) m1(2)] vs_get [OF m2]
    by (simp add: advance_generation_def Let_def m1_def [symmetric] snap)
  moreover have "g + 1 - RETAINED_GENERATIONS \<noteq> g + 1"
    by (simp add: RETAINED_GENERATIONS_def)
  ultimately show ?thesis
    using m1 m2 by (auto simp: m2_def m1_def stage_generation_counter_def tiers_at_def not_less)
qed

lemma vs_commit_eq:
  assumes "vs_ok ok m" and "inj_on (store_key L) VS_KEYS"
  shows "snd (vs_commit L m) = Inr () \<and> vs_ok ok (fst (vs_commit L m)) \<and>
    (\<forall>k. vs_visible view L (fst (vs_commit L m)) k = vs_committed view L (fst (vs_commit L m)) k) \<and>
    (\<forall>k\<in>VS_KEYS. vs_committed view L (fst (vs_commit L m)) k = vs_visible view L m k)"
proof -
  have ok: "staged_ok ok VS_KEYS (vs_staged m)" using assms(1) by (simp add: vs_ok_def)
  have "vs_staged (fst (vs_commit L m)) = fst (staged_commit L (vs_staged m))"
    and "snd (vs_commit L m) = snd (staged_commit L (vs_staged m))"
    by (simp_all add: vs_commit_def split: prod.split)
  then show ?thesis
    using staged_commit_ok [OF ok] staged_commit_committed [OF ok assms(2)]
    by (simp add: vs_ok_def vs_visible_def vs_committed_def visible_def)
qed

lemma boundary_at_vs_keys:
  assumes "\<And>k. k \<in> VS_KEYS \<Longrightarrow> f k = f' k"
  shows "boundary_at W f vs rs g snaps \<longleftrightarrow> boundary_at W f' vs rs g snaps"
  using assms by (simp add: boundary_at_def tiers_at_def generation_at_def)

lemma vs_life_visible_boundary:
  assumes "vs_life view ok L W m vs rs cvs crs g snaps"
  shows "generation_at W (vs_visible view L m) g"
    and "vs_visible view L m (generation_set_key h) = map_option (to_vec (vw_snapshot W)) (snaps h)"
  using assms by (simp_all add: vs_life_def boundary_at_def generation_at_def)

lemma life_after_commit:
  assumes "vs_ok ok m" and "inj_on (store_key L) VS_KEYS"
    and "boundary_at W (vs_visible view L m) vs rs g snaps"
  shows "snd (vs_commit L m) = Inr () \<and> vs_life view ok L W (fst (vs_commit L m)) vs rs vs rs g snaps"
proof -
  note c = vs_commit_eq [OF assms(1,2)]
  have "boundary_at W (vs_committed view L (fst (vs_commit L m))) vs rs g snaps"
    using c assms(3) boundary_at_vs_keys [of "vs_committed view L (fst (vs_commit L m))" "vs_visible view L m"]
    by simp
  moreover have "vs_visible view L (fst (vs_commit L m)) = vs_committed view L (fst (vs_commit L m))"
    using c by auto
  ultimately show ?thesis
    using c by (simp add: vs_life_def boundary_at_def)
qed

lemma valset_commit_block_life:
  assumes "vs_life view ok L W m vs rs cvs crs g snaps" and "borsh_ok W"
    and "inj_on (store_key L) VS_KEYS" and "(vs, rs) = (cvs, crs) \<or> g \<noteq> - 1"
  shows "snd (valset_commit_block L W m) = Inr () \<and>
    vs_life view ok L W (fst (valset_commit_block L W m)) vs rs vs rs
      (if (vs, rs) = (cvs, crs) then g else g + 1)
      (if (vs, rs) = (cvs, crs) then snaps else next_snaps g snaps vs rs)"
proof -
  have ok: "vs_ok ok m" and vis: "tiers_at W (vs_visible view L m) vs rs"
    and bnd: "boundary_at W (vs_committed view L m) cvs crs g snaps"
    using assms(1) by (auto simp: vs_life_def)
  have win: "window_ok g snaps cvs crs" and tok: "tier_ok vs" "tier_ok rs"
    using bnd vis by (auto simp: boundary_at_def tiers_at_def)
  note life = vs_life_visible_boundary [OF assms(1)]
  note changed = membership_changed_eq [OF ok assms(2) vis, of cvs crs]
  show ?thesis
  proof (cases "(vs, rs) = (cvs, crs)")
    case True
    have "boundary_at W (vs_visible view L m) vs rs g snaps"
      using True vis win life by (simp add: boundary_at_def)
    moreover have "valset_commit_block L W m = vs_commit L m"
      using True changed bnd by (simp add: valset_commit_block_def boundary_at_def)
    ultimately show ?thesis
      using True life_after_commit [OF ok assms(3)] by simp
  next
    case False
    then have g: "g \<noteq> - 1" using assms(4) by auto
    obtain m' where m': "advance_generation L W m = (m', Inr ())" "vs_ok ok m'"
      "tiers_at W (vs_visible view L m') vs rs"
      "vs_visible view L m' GENERATION_KEY = Some (to_vec (vw_generation W) (g + 1))"
      and snaps: "\<And>h. vs_visible view L m' (generation_set_key h) =
        (if h = g + 1 then Some (to_vec (vw_snapshot W) (vs, rs))
         else if RETAINED_GENERATIONS \<le> g + 1 \<and> h = g + 1 - RETAINED_GENERATIONS then None
         else vs_visible view L m (generation_set_key h))"
      using advance_generation_eq [OF ok assms(2) vis life(1) g] by blast
    have "boundary_at W (vs_visible view L m') vs rs (g + 1) (next_snaps g snaps vs rs)"
      using m' window_ok_next [OF win tok g] snaps life(2)
      by (auto simp: boundary_at_def generation_at_def next_snaps_def not_less RETAINED_GENERATIONS_def)
    moreover have "valset_commit_block L W m = vs_commit L m'"
      using False changed bnd m'(1) by (simp add: valset_commit_block_def boundary_at_def)
    ultimately show ?thesis
      using False life_after_commit [OF m'(2) assms(3)] by auto
  qed
qed

lemma valset_commit_block_overflow:
  assumes "vs_life view ok L W m vs rs cvs crs g snaps" and "borsh_ok W"
    and "(vs, rs) \<noteq> (cvs, crs)" and "g = - 1"
  shows "fst (valset_commit_block L W m) = m"
proof -
  have ok: "vs_ok ok m" and vis: "tiers_at W (vs_visible view L m) vs rs"
    and bnd: "boundary_at W (vs_committed view L m) cvs crs g snaps"
    using assms(1) by (auto simp: vs_life_def)
  then show ?thesis
    using membership_changed_eq [OF ok assms(2) vis, of cvs crs] assms(3,4)
      vs_generation_eq [OF ok assms(2) vs_life_visible_boundary(1) [OF assms(1)]]
    by (auto simp: valset_commit_block_def boundary_at_def advance_generation_def)
qed

lemma handle_life:
  assumes "vs_life view ok L W m vs rs cvs crs g snaps" and "borsh_ok W"
  obtains vs' rs' where "vs_life view ok L W (fst (valset_handle L W m op)) vs' rs' cvs crs g snaps"
    and "fst (vs_spec (key_ok W) op (set vs, set rs)) = (set vs', set rs')"
proof -
  have ok: "vs_ok ok m" and vis: "tiers_at W (vs_visible view L m) vs rs"
    using assms(1) by (auto simp: vs_life_def)
  have h: "handled view ok L W m (valset_handle L W m op) (vs_spec (key_ok W) op (set vs, set rs))"
    using valset_handle_spec [OF ok assms(2) vis] .
  then obtain vs' rs' where "tiers_at W (vs_visible view L (fst (valset_handle L W m op))) vs' rs'"
    and "fst (vs_spec (key_ok W) op (set vs, set rs)) = (set vs', set rs')"
    unfolding handled_def by auto
  then show ?thesis
    using that [of vs' rs'] h assms(1) by (simp add: handled_def vs_life_def)
qed

end

lemma vs_spec_nonempty:
  assumes "finite V" and "V \<noteq> {}"
  shows "fst (fst (vs_spec good op (V, R))) \<noteq> {}"
proof (cases op)
  case (Leave k)
  have "V - {k} \<noteq> {}" if "k \<in> V" "card V \<noteq> 1"
    using assms that by (metis card_1_singleton_iff insert_Diff Diff_eq_empty_iff subset_singletonD
        One_nat_def is_singletonI is_singleton_altdef)
  then show ?thesis using Leave assms by auto
qed (use assms in auto)

text \<open>The reachable states, with the validator tier populated or not.\<close>

definition vs_inv ::
  "('s \<Rightarrow> bytes \<rightharpoonup> bytes) \<Rightarrow> ('s \<Rightarrow> bool) \<Rightarrow> 's store_lib \<Rightarrow> valset_wires \<Rightarrow> bool \<Rightarrow> 's valset \<Rightarrow> bool" where
  "vs_inv view ok L W populated m \<longleftrightarrow>
     (\<exists>vs rs cvs crs g snaps. vs_life view ok L W m vs rs cvs crs g snaps \<and>
        (populated \<longrightarrow> vs \<noteq> [] \<and> cvs \<noteq> []))"

context merkle_laws
begin

lemma vs_inv_step:
  assumes "borsh_ok W" and "inj_on (store_key L) VS_KEYS" and "vs_inv view ok L W p m"
    and "mod_step (valset_ops L W) m m'"
  shows "vs_inv view ok L W p m'"
proof -
  obtain vs rs cvs crs g snaps where life: "vs_life view ok L W m vs rs cvs crs g snaps"
    and p: "p \<longrightarrow> vs \<noteq> [] \<and> cvs \<noteq> []"
    using assms(3) by (auto simp: vs_inv_def)
  from assms(4) show ?thesis
  proof (cases rule: mod_step.cases)
    case (step_execute env msg out)
    then have "ctx_leaf (valset_execute L W m env msg) out" "m' = out_module out"
      by (simp_all add: valset_ops_def)
    then consider "m' = m" | op where "m' = fst (valset_handle L W m op)"
      using valset_execute_leaf by metis
    then show ?thesis
    proof cases
      case 2
      obtain vs' rs' where life': "vs_life view ok L W m' vs' rs' cvs crs g snaps"
        and spec: "fst (vs_spec (key_ok W) op (set vs, set rs)) = (set vs', set rs')"
        using handle_life [OF life assms(1), of op] 2 by metis
      have "p \<longrightarrow> vs' \<noteq> []"
        using p spec vs_spec_nonempty [of "set vs" "key_ok W" op "set rs"] by auto
      then show ?thesis using life' p unfolding vs_inv_def by blast
    qed (use assms(3) in simp)
  next
    case (step_acknowledge env ack out)
    then show ?thesis using assms(3) by (simp add: valset_ops_def default_acknowledge_def)
  next
    case step_commit
    then have m': "m' = fst (valset_commit_block L W m)" by (simp add: valset_ops_def)
    show ?thesis
    proof (cases "(vs, rs) = (cvs, crs) \<or> g \<noteq> - 1")
      case True
      show ?thesis
        using valset_commit_block_life [OF life assms(1,2) True] p m' unfolding vs_inv_def by blast
    next
      case False
      then show ?thesis
        using valset_commit_block_overflow [OF life assms(1)] m' assms(3) by simp
    qed
  next
    case step_abort
    then have "m' = vs_abort m" by (simp add: valset_ops_def valset_abort_block_def)
    then have "vs_life view ok L W m' cvs crs cvs crs g snaps"
      using life by (simp add: vs_life_def boundary_at_def)
    then show ?thesis using p unfolding vs_inv_def by blast
  qed
qed

lemma vs_window_exact:
  assumes "borsh_ok W" and "vs_life view ok L W m vs rs cvs crs g snaps"
    and "unat h + n \<le> Suc (unat g)"
  shows "mesh_loop L W m n h =
    Inr (map (\<lambda>h. \<lparr>gs_generation = h, gs_validators = fst (the (snaps h)), gs_residents = snd (the (snaps h))\<rparr>)
          (filter (\<lambda>h. snaps h \<noteq> None) (map of_nat [unat h ..< unat h + n])))"
  using assms(3)
proof (induction n arbitrary: h)
  case 0
  then show ?case by simp
next
  case (Suc n)
  have ok: "vs_ok ok m" and win: "window_ok g snaps cvs crs"
    using assms(2) by (auto simp: vs_life_def boundary_at_def)
  have rest: "mesh_loop L W m n (h + 1) =
    Inr (map (\<lambda>h. \<lparr>gs_generation = h, gs_validators = fst (the (snaps h)), gs_residents = snd (the (snaps h))\<rparr>)
          (filter (\<lambda>h. snaps h \<noteq> None) (map of_nat [Suc (unat h) ..< unat h + Suc n])))"
  proof (cases "n = 0")
    case True
    then show ?thesis by simp
  next
    case False
    then have "unat h < unat g" using Suc.prems by simp
    then have "h \<noteq> - 1"
      using word_n1_ge [of g] by (auto simp: word_le_nat_alt)
    then have "unat (h + 1) = Suc (unat h)" by (simp add: unat_plus_one)
    then show ?thesis
      using Suc.IH [of "h + 1"] Suc.prems by simp
  qed
  have get: "staged_get L (vs_staged m) (generation_set_key h) =
      Inr (map_option (to_vec (vw_snapshot W)) (snaps h))"
    using vs_get [OF ok] vs_life_visible_boundary(2) [OF assms(2)] by simp
  have upt: "map of_nat [unat h ..< unat h + Suc n] =
      h # map (of_nat :: nat \<Rightarrow> u64) [Suc (unat h) ..< unat h + Suc n]"
    by (simp add: upt_rec)
  show ?case
  proof (cases "snaps h")
    case None
    then show ?thesis using get rest upt by simp
  next
    case (Some p)
    obtain v r where p: "p = (v, r)" by fastforce
    have "tier_ok v" "tier_ok r" using Some p win by (auto simp: window_ok_def)
    then have "from_slice (vw_snapshot W) (to_vec (vw_snapshot W) (v, r)) = Inr (v, r)"
      using assms(1) round_trips_onD [of "{(v, r). tier_ok v \<and> tier_ok r}" "vw_snapshot W" "(v, r)"]
      by (simp add: borsh_ok_def)
    then show ?thesis using Some p get rest upt by simp
  qed
qed

end

lemma valset_new_views [simp]:
  "vs_visible view L (valset_new mid store gov) = (\<lambda>k. view store (store_key L k))"
  "vs_committed view L (valset_new mid store gov) = (\<lambda>k. view store (store_key L k))"
  "ok store \<Longrightarrow> vs_ok ok (valset_new mid store gov)"
  by (auto simp: vs_visible_def vs_committed_def vs_ok_def valset_new_def staged_new_def visible_def
      committed_def staged_ok_def)

section \<open>Formats that satisfy the hypotheses\<close>

definition fmt_u64 :: "u64 fmt" where
  "fmt_u64 = fmt_map u64_le (\<lambda>bs. Some (u64_of_le bs)) fmt_bytes"

definition fmt_valset_msg :: "valset_msg fmt" where
  "fmt_valset_msg =
     fmt_map (\<lambda>m. case m of Join k \<Rightarrow> (0, k) | Leave k \<Rightarrow> (1, k) | Grant k \<Rightarrow> (2, k) | Revoke k \<Rightarrow> (3, k))
       (\<lambda>(t, k). if t = 0 then Some (Join k) else if t = 1 then Some (Leave k)
                 else if t = 2 then Some (Grant k) else if t = 3 then Some (Revoke k) else None)
       (fmt_pair fmt_byte fmt_bytes)"

definition fmt_valset_query :: "valset_query_msg fmt" where
  "fmt_valset_query =
     fmt_map (\<lambda>q. case q of QValidators \<Rightarrow> 0 | QResidents \<Rightarrow> 1 | QMeshWindow \<Rightarrow> 2)
       (\<lambda>t. if t = 0 then Some QValidators else if t = 1 then Some QResidents
            else if t = 2 then Some QMeshWindow else None)
       fmt_byte"

definition fmt_generation_set :: "generation_set fmt" where
  "fmt_generation_set =
     fmt_map (\<lambda>g. (gs_generation g, gs_validators g, gs_residents g))
       (\<lambda>(g, v, r). Some \<lparr>gs_generation = g, gs_validators = v, gs_residents = r\<rparr>)
       (fmt_pair fmt_u64 (fmt_pair (fmt_list fmt_bytes) (fmt_list fmt_bytes)))"

definition fmt_valset_reply :: "valset_reply fmt" where
  "fmt_valset_reply =
     fmt_map (\<lambda>r. case r of RValidators v \<Rightarrow> (0, v, []) | RResidents v \<Rightarrow> (1, v, [])
                | RMeshWindow w \<Rightarrow> (2, [], w))
       (\<lambda>(t, v, w). if t = 0 then Some (RValidators v) else if t = 1 then Some (RResidents v)
                 else if t = 2 then Some (RMeshWindow w) else None)
       (fmt_pair fmt_byte (fmt_pair (fmt_list fmt_bytes) (fmt_list fmt_generation_set)))"

definition valset_fmts :: valset_wires where
  "valset_fmts =
     \<lparr>vw_msg = serde_of fmt_valset_msg, vw_query = serde_of fmt_valset_query,
      vw_reply = serde_of fmt_valset_reply, vw_tier = serde_of (fmt_list fmt_bytes),
      vw_generation = serde_of fmt_u64,
      vw_snapshot = serde_of (fmt_pair (fmt_list fmt_bytes) (fmt_list fmt_bytes)),
      vw_seed = serde_of (fmt_list fmt_bytes), vw_decode_key = (\<lambda>_. Inr ()),
      vw_debug_reply = (\<lambda>_. [])\<rparr>"

lemma fmt_u64_ok: "fmt_ok fmt_u64"
  unfolding fmt_u64_def by (intro fmt_oks) simp

lemma fmt_valset_oks:
  "fmt_ok fmt_valset_msg" "fmt_ok fmt_valset_query" "fmt_ok fmt_valset_reply"
proof -
  show "fmt_ok fmt_valset_msg"
    unfolding fmt_valset_msg_def by (intro fmt_oks) (simp split: valset_msg.split)
  show "fmt_ok fmt_valset_query"
    unfolding fmt_valset_query_def by (intro fmt_oks) (simp split: valset_query_msg.split)
  have "fmt_ok fmt_generation_set"
    unfolding fmt_generation_set_def by (intro fmt_oks fmt_u64_ok) simp
  then show "fmt_ok fmt_valset_reply"
    unfolding fmt_valset_reply_def by (intro fmt_oks) (simp_all split: valset_reply.split)
qed

lemma length_write_members:
  "list_all (\<lambda>k. length k = n) t \<Longrightarrow>
   length (write_list (fst fmt_bytes) t) = Suc (length t * (2 * n + 2))"
proof -
  have "length (fst fmt_bytes k) = 2 * length k + 1" for k
    by (induction k) (auto simp: fmt_bytes_def fmt_list_def write_list_def fmt_byte_def)
  then show "list_all (\<lambda>k. length k = n) t \<Longrightarrow> ?thesis"
    by (induction t) (auto simp: write_list_def)
qed

lemma tier_write_bound: "tier_ok t \<Longrightarrow> length (write_list (fst fmt_bytes) t) \<le> 67585"
  using length_write_members [of 32 t] by (simp add: tier_ok_def KEY_LEN_def MAX_MEMBERS_def)

lemma valset_fmts_borsh: "borsh_ok valset_fmts"
proof -
  have b: "length (fst (fmt_list fmt_bytes) t) \<le> 67585" if "tier_ok t" for t
    using tier_write_bound [OF that] by (simp add: fmt_list_def)
  show ?thesis
    unfolding borsh_ok_def valset_fmts_def valset_wires.simps
    by (intro conjI allI impI serde_of_round_trips fmt_oks fmt_u64_ok)
      (auto dest!: b simp: serde_of_def fmt_pair_def MAX_TIER_RECORD_BYTES_def)
qed

lemma sha_id_inj: "inj_on (store_key (mem_lib id)) K"
  by (simp add: store_key_def mem_lib_def inj_on_def)

section \<open>Genesis\<close>

context merkle_laws
begin

lemma seed_eq:
  assumes "vs_ok ok m" and "borsh_ok W" and "tier_ok vs"
    and "vs_visible view L m VALIDATORS_KEY = tier_record W vs"
    and "length k = KEY_LEN" and "card (insert k (set vs)) \<le> MAX_MEMBERS"
  shows "\<exists>m' vs'. seed L W m k = (m', Inr ()) \<and> vs_ok ok m' \<and> tier_ok vs' \<and>
    set vs' = insert k (set vs) \<and>
    vs_visible view L m' = (vs_visible view L m)(VALIDATORS_KEY := tier_record W vs') \<and>
    vs_committed view L m' = vs_committed view L m \<and> vs_abort m' = vs_abort m"
proof (cases "k \<in> set vs")
  case True
  then have "seed L W m k = (m, Inr ())"
    using vs_tier_eq [OF assms(1-4)] assms(3,5) by (simp add: seed_def vs_validators_def tier_search)
  then show ?thesis
    using True assms by (intro exI [of _ m] exI [of _ vs]) (auto simp: fun_upd_idem)
next
  case False
  let ?vs = "vec_insert (rank vs k) k vs"
  have len: "length vs < MAX_MEMBERS"
    using assms(3,6) False tier_card [OF assms(3)] by simp
  have tok: "tier_ok ?vs"
    using tier_ok_insert [OF assms(3) False len assms(5)] .
  have "seed L W m k = (put_tier W m VALIDATORS_KEY ?vs, Inr ())"
    using False vs_tier_eq [OF assms(1-4)] assms(3,5) len store_tier_eq [OF assms(2) tok]
      require_capacity_cases [of vs "''validator''"]
    by (simp add: seed_def vs_validators_def tier_search)
  moreover have "vs_abort (put_tier W m VALIDATORS_KEY ?vs) = vs_abort m"
    by (simp add: put_tier_def)
  ultimately show ?thesis
    using assms(1) tok by (intro exI [of _ "put_tier W m VALIDATORS_KEY ?vs"] exI [of _ ?vs]) simp
qed

lemma seed_all_eq:
  assumes "vs_ok ok m" and "borsh_ok W" and "tier_ok vs"
    and "vs_visible view L m VALIDATORS_KEY = tier_record W vs"
    and "list_all (\<lambda>k. length k = KEY_LEN) keys" and "card (set vs \<union> set keys) \<le> MAX_MEMBERS"
  shows "\<exists>m' vs'. seed_all L W m keys = (m', Inr ()) \<and> vs_ok ok m' \<and> tier_ok vs' \<and>
    set vs' = set vs \<union> set keys \<and>
    vs_visible view L m' = (vs_visible view L m)(VALIDATORS_KEY := tier_record W vs') \<and>
    vs_committed view L m' = vs_committed view L m \<and> vs_abort m' = vs_abort m"
  using assms
proof (induction keys arbitrary: m vs)
  case Nil
  then show ?case by (intro exI [of _ m] exI [of _ vs]) (auto simp: fun_upd_idem)
next
  case (Cons k keys)
  have "card (insert k (set vs)) \<le> card (set vs \<union> set (k # keys))"
    by (rule card_mono) auto
  then obtain m1 vs1 where m1: "seed L W m k = (m1, Inr ())" "vs_ok ok m1" "tier_ok vs1"
    "set vs1 = insert k (set vs)"
    "vs_visible view L m1 = (vs_visible view L m)(VALIDATORS_KEY := tier_record W vs1)"
    "vs_committed view L m1 = vs_committed view L m" "vs_abort m1 = vs_abort m"
    using seed_eq [of m W vs k] Cons.prems by fastforce
  have v1: "vs_visible view L m1 VALIDATORS_KEY = tier_record W vs1" by (simp add: m1(5))
  have keys: "list_all (\<lambda>k. length k = KEY_LEN) keys" using Cons.prems(5) by simp
  have "card (set vs1 \<union> set keys) \<le> MAX_MEMBERS" using Cons.prems(6) m1(4) by simp
  then obtain m2 vs2 where "seed_all L W m1 keys = (m2, Inr ())" "vs_ok ok m2" "tier_ok vs2"
    "set vs2 = set vs1 \<union> set keys"
    "vs_visible view L m2 = (vs_visible view L m1)(VALIDATORS_KEY := tier_record W vs2)"
    "vs_committed view L m2 = vs_committed view L m1" "vs_abort m2 = vs_abort m1"
    using Cons.IH [OF m1(2) Cons.prems(2) m1(3) v1 keys] by blast
  then show ?case
    using m1 Cons.prems(5) by (intro exI [of _ m2] exI [of _ vs2]) auto
qed

lemma tier_ok_sorted_list: "tier_ok vs \<Longrightarrow> vs = sorted_list_of_set (set vs)"
  by (simp add: tier_ok_def sorted_list_of_set.idem_if_sorted_distinct strict_sorted_iff)

lemma finish_seed_fresh:
  assumes "vs_ok ok m" and "borsh_ok W" and "inj_on (store_key L) VS_KEYS"
    and "tiers_at W (vs_visible view L m) vs []" and "vs_committed view L m GENERATION_KEY = None"
    and "\<And>h. vs_visible view L m (generation_set_key h) = None"
  shows "snd (finish_seed L W m) = Inr () \<and>
    vs_life view ok L W (fst (finish_seed L W m)) vs [] vs [] 0
      (if vs = [] then Map.empty else [0 \<mapsto> (vs, [])]) \<and>
    vs_committed view L (fst (finish_seed L W m)) GENERATION_KEY = Some (to_vec (vw_generation W) 0)"
proof -
  let ?m1 = "stage_generation_counter W m GENESIS_GENERATION"
  define m2 where "m2 = (if vs = [] then ?m1
    else vs_stage ?m1 (generation_set_key 0) (to_vec (vw_snapshot W) (vs, [])))"
  have "tier_ok vs" "tier_ok []" using assms(4) by (auto simp: tiers_at_def)
  then have "finish_seed L W m = vs_commit L m2"
    using assms(1,2,5) vs_tiers_eq(1) [OF assms(1,2,4)]
    by (auto simp: finish_seed_def vs_get_committed stage_generation_snapshot_def m2_def borsh_ok_def
        Let_def GENESIS_GENERATION_def not_less [symmetric])
  moreover have ok2: "vs_ok ok m2"
    using assms(1) by (simp add: m2_def stage_generation_counter_def)
  moreover have "vs_visible view L m2 GENERATION_KEY = Some (to_vec (vw_generation W) 0)"
    by (simp add: m2_def stage_generation_counter_def GENESIS_GENERATION_def)
  then have "vs_committed view L (fst (vs_commit L m2)) GENERATION_KEY = Some (to_vec (vw_generation W) 0)"
    using vs_commit_eq [OF ok2 assms(3)] by simp
  moreover have "boundary_at W (vs_visible view L m2) vs [] 0
      (if vs = [] then Map.empty else [0 \<mapsto> (vs, [])])"
    using assms(4,6) \<open>tier_ok vs\<close> \<open>tier_ok []\<close>
    by (auto simp: m2_def boundary_at_def tiers_at_def generation_at_def window_ok_def
        stage_generation_counter_def GENESIS_GENERATION_def)
  ultimately show ?thesis
    using life_after_commit [OF _ assms(3)] by simp
qed

end

section \<open>A concrete network\<close>

text \<open>One validator, seeded: the store, the module and the genesis parameters of the witnesses.\<close>

definition demo_key :: bytes where
  "demo_key = replicate 32 1"

definition demo_store :: mem_store where
  "demo_store =
     \<lparr>mem_map = bt_insert VALIDATORS_KEY (to_vec (vw_tier valset_fmts) [demo_key])
        (bt_insert GENERATION_KEY (to_vec (vw_generation valset_fmts) 0)
          (bt_insert (generation_set_key 0) (to_vec (vw_snapshot valset_fmts) ([demo_key], [])) []))\<rparr>"

definition demo_valset :: "mem_store valset" where
  "demo_valset = valset_new ''valset'' demo_store ''governance''"

definition demo_config :: "(string \<times> bytes) list" where
  "demo_config = [(''validators'', to_vec (vw_seed valset_fmts) [demo_key])]"

definition demo_params :: bytes where
  "demo_params = u64_le 1 @ concat (map config_entry demo_config)"

lemma demo_tier_ok: "tier_ok [demo_key]" "tier_ok []"
  by (simp_all add: tier_ok_def demo_key_def KEY_LEN_def MAX_MEMBERS_def)

lemma demo_store_view: "store_key (mem_lib id) k = k"
  by (simp add: store_key_def mem_lib_def)

lemma demo_boundary:
  "boundary_at valset_fmts (\<lambda>k. mem_view demo_store (store_key (mem_lib id) k)) [demo_key] [] 0
     [0 \<mapsto> ([demo_key], [])]"
  using demo_tier_ok
  by (auto simp: boundary_at_def tiers_at_def tier_record_def generation_at_def window_ok_def
      demo_store_view demo_store_def simp del: bt_insert.simps)

lemma demo_store_ok: "mem_ok demo_store"
  by (simp add: demo_store_def bt_inv_insert del: bt_insert.simps)

lemma demo_life:
  "vs_life mem_view mem_ok (mem_lib id) valset_fmts demo_valset [demo_key] [] [demo_key] [] 0
     [0 \<mapsto> ([demo_key], [])]"
  using demo_boundary demo_store_ok by (simp add: vs_life_def demo_valset_def boundary_at_def)

text \<open>The next generation: a resident has staged to join, and the store after the commit.\<close>

definition guest_key :: bytes where
  "guest_key = replicate 32 2"

definition joining_valset :: "mem_store valset" where
  "joining_valset = vs_stage demo_valset RESIDENTS_KEY (to_vec (vw_tier valset_fmts) [guest_key])"

definition grown_store :: mem_store where
  "grown_store =
     \<lparr>mem_map = bt_insert RESIDENTS_KEY (to_vec (vw_tier valset_fmts) [guest_key])
        (bt_insert GENERATION_KEY (to_vec (vw_generation valset_fmts) 1)
          (bt_insert (generation_set_key 1) (to_vec (vw_snapshot valset_fmts) ([demo_key], [guest_key]))
            (mem_map demo_store)))\<rparr>"

definition grown_valset :: "mem_store valset" where
  "grown_valset = valset_new ''valset'' grown_store ''governance''"

lemma guest_tier_ok: "tier_ok [guest_key]" "guest_key \<noteq> demo_key"
  by (simp_all add: tier_ok_def guest_key_def demo_key_def KEY_LEN_def MAX_MEMBERS_def)

lemma joining_life:
  "vs_life mem_view mem_ok (mem_lib id) valset_fmts joining_valset [demo_key] [guest_key] [demo_key] [] 0
     [0 \<mapsto> ([demo_key], [])]"
  using demo_life guest_tier_ok
  by (auto simp: vs_life_def joining_valset_def tiers_at_def tier_record_def)

lemma grown_boundary:
  "boundary_at valset_fmts (\<lambda>k. mem_view grown_store (store_key (mem_lib id) k)) [demo_key] [guest_key] 1
     [0 \<mapsto> ([demo_key], []), 1 \<mapsto> ([demo_key], [guest_key])]"
  using demo_tier_ok guest_tier_ok
  by (auto simp: boundary_at_def tiers_at_def tier_record_def generation_at_def window_ok_def
      demo_store_view grown_store_def demo_store_def generation_set_key_inj simp del: bt_insert.simps)

lemma grown_life:
  "vs_life mem_view mem_ok (mem_lib id) valset_fmts grown_valset [demo_key] [guest_key] [demo_key] [guest_key] 1
     [0 \<mapsto> ([demo_key], []), 1 \<mapsto> ([demo_key], [guest_key])]"
  using grown_boundary demo_store_ok
  by (simp add: vs_life_def grown_valset_def boundary_at_def grown_store_def bt_inv_insert del: bt_insert.simps)

lemma demo_decode: "decode_config demo_params = Inr demo_config"
proof -
  have "length (fst (fmt_list fmt_bytes) [demo_key]) < 2 ^ 64"
    using length_write_members [of 32 "[demo_key]"] by (simp add: fmt_list_def demo_key_def)
  moreover have "utf8_valid (as_bytes ''validators'')" by code_simp
  ultimately show ?thesis
    by (simp add: decode_config_Inr demo_params_def demo_config_def params_fit_def increasing_def
        valset_fmts_def serde_of_def)
qed

lemma demo_find: "config_find demo_config ''validators'' = Some (to_vec (vw_seed valset_fmts) [demo_key])"
  by (simp add: config_find_def demo_config_def)

lemma demo_seed: "from_slice (vw_seed valset_fmts) (to_vec (vw_seed valset_fmts) [demo_key]) = Inr [demo_key]"
  unfolding valset_fmts_def valset_wires.simps by (intro serde_of_back fmt_oks)

section \<open>Properties\<close>

text \<open>
  C18: the membership operations refine operations on two sets. On a module whose tiers carry the
  validators \<open>vs\<close> and the residents \<open>rs\<close>, every \<^verbatim>\<open>Join\<close>, \<^verbatim>\<open>Leave\<close>, \<^verbatim>\<open>Grant\<close> and \<^verbatim>\<open>Revoke\<close>, on
  every branch, is accepted exactly when the contract accepts it and leaves two tiers that are
  sorted, capped and disjoint with exactly the members of the contract; it touches no other record
  and nothing committed.
\<close>

theorem valset_ops_refine_sets:
  assumes "merkle_laws L view ok" and "vs_ok ok m" and "borsh_ok W"
    and "tiers_at W (vs_visible view L m) vs rs"
  shows "handled view ok L W m (valset_handle L W m op) (vs_spec (key_ok W) op (set vs, set rs))"
  using merkle_laws.valset_handle_spec [OF assms] .

theorem valset_ops_refine_sets_witness:
  "handled mem_view mem_ok (mem_lib id) valset_fmts demo_valset
     (valset_handle (mem_lib id) valset_fmts demo_valset (Leave demo_key)) (({demo_key}, {}), False)"
proof -
  have "vs_ok mem_ok demo_valset" "tiers_at valset_fmts (vs_visible mem_view (mem_lib id) demo_valset) [demo_key] []"
    using demo_life by (auto simp: vs_life_def)
  from valset_ops_refine_sets [OF mem.merkle_laws_axioms [of id] this(1) valset_fmts_borsh this(2), of "Leave demo_key"]
  show ?thesis by simp
qed

text \<open>
  C17: the validator set never empties. Start from a lawful store whose committed tiers are sorted,
  capped and disjoint with at least one validator; then whatever operations, commits and aborts
  follow, the module always answers with tiers of that shape and at least one validator.
\<close>

theorem valset_never_empty:
  assumes "merkle_laws L view ok" and "borsh_ok W" and "inj_on (store_key L) VS_KEYS"
    and "ok store" and "boundary_at W (\<lambda>k. view store (store_key L k)) vs0 rs0 g0 snaps0"
    and "vs0 \<noteq> []" and "(mod_step (valset_ops L W))\<^sup>*\<^sup>* (valset_new mid store gov) m"
  shows "\<exists>vs rs. vs_validators L W m = Inr vs \<and> vs_residents L W m = Inr rs \<and>
           vs \<noteq> [] \<and> tier_ok vs \<and> tier_ok rs \<and> set vs \<inter> set rs = {}"
proof -
  have "vs_life view ok L W (valset_new mid store gov) vs0 rs0 vs0 rs0 g0 snaps0"
    using assms(4,5) by (simp add: vs_life_def valset_new_views boundary_at_def)
  then have "vs_inv view ok L W True (valset_new mid store gov)"
    using assms(6) unfolding vs_inv_def by blast
  with assms(7) have "vs_inv view ok L W True m"
    by (rule mod_reach_invariant) (rule merkle_laws.vs_inv_step [OF assms(1-3)])
  then obtain vs rs cvs crs g snaps where life: "vs_life view ok L W m vs rs cvs crs g snaps"
    and "vs \<noteq> []"
    by (auto simp: vs_inv_def)
  then show ?thesis
    using merkle_laws.vs_tiers_eq [OF assms(1) _ assms(2), of m vs rs]
    by (auto simp: vs_life_def tiers_at_def)
qed

theorem valset_never_empty_witness:
  "\<exists>vs rs. vs_validators (mem_lib id) valset_fmts demo_valset = Inr vs \<and>
     vs_residents (mem_lib id) valset_fmts demo_valset = Inr rs \<and>
     vs \<noteq> [] \<and> tier_ok vs \<and> tier_ok rs \<and> set vs \<inter> set rs = {}"
  by (rule valset_never_empty [OF mem.merkle_laws_axioms [of id] valset_fmts_borsh sha_id_inj
        demo_store_ok demo_boundary, where mid = "''valset''" and gov = "''governance''"])
    (simp_all add: demo_valset_def)

text \<open>
  C19: a commit advances the membership generation exactly when it changes membership. On a module in
  its life invariant with generation \<open>g\<close> (short of the 64-bit limit), the commit succeeds, publishes
  the visible tiers, leaves the generation and the snapshots alone when the tiers are the committed
  ones (a leave and a rejoin of the same key burn no generation), and otherwise moves to \<open>g + 1\<close> with
  a snapshot of exactly the published membership, dropping the one that leaves the window of four.
\<close>

theorem valset_commit_generation:
  assumes "merkle_laws L view ok" and "borsh_ok W" and "inj_on (store_key L) VS_KEYS"
    and "vs_life view ok L W m vs rs cvs crs g snaps" and "g \<noteq> - 1"
  shows "\<exists>m'. valset_commit_block L W m = (m', Inr ()) \<and>
    (if (vs, rs) = (cvs, crs)
     then vs_life view ok L W m' vs rs vs rs g snaps
     else vs_life view ok L W m' vs rs vs rs (g + 1) (next_snaps g snaps vs rs))"
proof -
  obtain m' r where "valset_commit_block L W m = (m', r)" by fastforce
  then show ?thesis
    using merkle_laws.valset_commit_block_life [OF assms(1,4,2,3)] assms(5) by (auto split: if_splits)
qed

theorem valset_commit_generation_witness:
  "\<exists>m'. valset_commit_block (mem_lib id) valset_fmts joining_valset = (m', Inr ()) \<and>
     vs_life mem_view mem_ok (mem_lib id) valset_fmts m' [demo_key] [guest_key] [demo_key] [guest_key] 1
       [0 \<mapsto> ([demo_key], []), 1 \<mapsto> ([demo_key], [guest_key])]"
  using valset_commit_generation [OF mem.merkle_laws_axioms [of id] valset_fmts_borsh sha_id_inj joining_life]
  by (simp add: next_snaps_def RETAINED_GENERATIONS_def)

text \<open>
  C20: the mesh window is exactly the retained snapshots. In the life invariant, at a block boundary,
  \<^verbatim>\<open>MeshWindow\<close> answers each of the last four generations of which a snapshot is retained, in
  ascending order, with the membership of that very snapshot; the newest entry is the current
  membership.
\<close>

theorem valset_mesh_window:
  assumes "merkle_laws L view ok" and "borsh_ok W"
    and "vs_life view ok L W m vs rs vs rs g snaps" and "snaps g \<noteq> None"
  shows "mesh_window L W m =
      Inr (map (\<lambda>h. \<lparr>gs_generation = h, gs_validators = fst (the (snaps h)), gs_residents = snd (the (snaps h))\<rparr>)
             (filter (\<lambda>h. snaps h \<noteq> None) (map of_nat [unat g - 3 ..< unat g])) @
           [\<lparr>gs_generation = g, gs_validators = vs, gs_residents = rs\<rparr>])"
proof -
  let ?lo = "saturating_sub g (RETAINED_GENERATIONS - 1)"
  have lo: "unat ?lo = unat g - 3"
    by (auto simp: saturating_sub_def RETAINED_GENERATIONS_def word_less_nat_alt unat_sub word_le_nat_alt)
  have diff: "unat (g - ?lo) = unat g - (unat g - 3)"
    using lo by (simp add: unat_sub word_le_nat_alt)
  have gen: "vs_generation L W m = Inr g"
    using merkle_laws.vs_generation_eq [OF assms(1) _ assms(2)]
      merkle_laws.vs_life_visible_boundary(1) [OF assms(1,3)] assms(3) by (auto simp: vs_life_def)
  have "the (snaps g) = (vs, rs)"
    using assms(3,4) by (auto simp: vs_life_def boundary_at_def window_ok_def)
  then show ?thesis
    using merkle_laws.vs_window_exact [OF assms(1,2,3), of ?lo "Suc (unat (g - ?lo))"] gen lo diff assms(4)
    by (simp add: mesh_window_def Let_def)
qed

theorem valset_mesh_window_witness:
  "mesh_window (mem_lib id) valset_fmts grown_valset =
     Inr [\<lparr>gs_generation = 0, gs_validators = [demo_key], gs_residents = []\<rparr>,
          \<lparr>gs_generation = 1, gs_validators = [demo_key], gs_residents = [guest_key]\<rparr>]"
  using valset_mesh_window [OF mem.merkle_laws_axioms [of id] valset_fmts_borsh grown_life]
  by (simp add: upt_rec)

text \<open>
  C21: genesis seeding is order-independent and complete. Over a store without valset records,
  initializing with the key list of the genesis config (32-byte keys, at most the member cap)
  succeeds and commits exactly the sorted set of those keys as validators, no residents and, when
  there is a validator, its snapshot; and it commits the record of generation 0 whether or not there
  is a validator.
\<close>

theorem valset_genesis:
  assumes "merkle_laws L view ok" and "borsh_ok W" and "inj_on (store_key L) VS_KEYS"
    and "ok store" and "\<forall>k\<in>VS_KEYS. view store (store_key L k) = None"
    and "decode_config params = Inr config" and "config_find config ''validators'' = Some bs"
    and "from_slice (vw_seed W) bs = Inr keys" and "list_all (\<lambda>k. length k = KEY_LEN) keys"
    and "card (set keys) \<le> MAX_MEMBERS"
  shows "\<exists>m'. valset_initialize L W (valset_new mid store gov) params = (m', Inr ()) \<and>
    vs_life view ok L W m' (sorted_list_of_set (set keys)) [] (sorted_list_of_set (set keys)) [] 0
      (if keys = [] then Map.empty else [0 \<mapsto> (sorted_list_of_set (set keys), [])]) \<and>
    vs_committed view L m' GENERATION_KEY = Some (to_vec (vw_generation W) 0)"
proof -
  let ?m = "valset_new mid store gov"
  have none: "vs_visible view L ?m k = None" "vs_committed view L ?m k = None" if "k \<in> VS_KEYS" for k
    using assms(5) that by simp_all
  have "vs_visible view L ?m VALIDATORS_KEY = tier_record W []" and nil: "tier_ok []"
    using none by (simp_all add: tier_record_def tier_ok_def)
  then obtain m1 vs where m1: "seed_all L W ?m keys = (m1, Inr ())" "vs_ok ok m1" "tier_ok vs"
    "set vs = set keys"
    "vs_visible view L m1 = (vs_visible view L ?m)(VALIDATORS_KEY := tier_record W vs)"
    "vs_committed view L m1 = vs_committed view L ?m"
    using merkle_laws.seed_all_eq [OF assms(1) _ assms(2) nil, of ?m keys] assms(4,9,10) by auto
  have "tiers_at W (vs_visible view L m1) vs []"
    using m1 nil none by (simp add: tiers_at_def tier_record_def)
  moreover have "vs_committed view L m1 GENERATION_KEY = None"
    "vs_visible view L m1 (generation_set_key h) = None" for h
    using m1 none by simp_all
  ultimately have "snd (finish_seed L W m1) = Inr () \<and>
      vs_life view ok L W (fst (finish_seed L W m1)) vs [] vs [] 0
        (if vs = [] then Map.empty else [0 \<mapsto> (vs, [])]) \<and>
      vs_committed view L (fst (finish_seed L W m1)) GENERATION_KEY = Some (to_vec (vw_generation W) 0)"
    using merkle_laws.finish_seed_fresh [OF assms(1) m1(2) assms(2,3)] by blast
  moreover have "valset_initialize L W ?m params = finish_seed L W m1"
    using assms(6-8) m1(1) by (simp add: valset_initialize_def wire_decode_def)
  moreover have "vs = sorted_list_of_set (set keys)" "vs = [] \<longleftrightarrow> keys = []"
    using m1(3,4) merkle_laws.tier_ok_sorted_list [OF assms(1), of vs] by (auto simp: m1(4))
  ultimately show ?thesis by (cases "finish_seed L W m1") (auto split: if_splits)
qed

theorem valset_genesis_witness:
  "\<exists>m'. valset_initialize (mem_lib id) valset_fmts (valset_new ''valset'' mem_new ''governance'') demo_params =
       (m', Inr ()) \<and>
     vs_life mem_view mem_ok (mem_lib id) valset_fmts m' [demo_key] [] [demo_key] [] 0
       [0 \<mapsto> ([demo_key], [])] \<and>
     vs_committed mem_view (mem_lib id) m' GENERATION_KEY = Some (to_vec (vw_generation valset_fmts) 0)"
  using valset_genesis [OF mem.merkle_laws_axioms [of id] valset_fmts_borsh sha_id_inj _ _ demo_decode
      demo_find demo_seed, of mem_new "''valset''" "''governance''"] demo_tier_ok
  by (simp add: mem_new_def tier_ok_def MAX_MEMBERS_def)

text \<open>
  C22: re-entering genesis changes nothing. Over a store that already carries a generation counter,
  initializing again, with any list of 32-byte keys that together with the stored validators stays
  within the member cap, succeeds and returns the very module it was given: the staged seed is
  discarded and committed state is untouched.
\<close>

theorem valset_reseed_noop:
  assumes "merkle_laws L view ok" and "borsh_ok W" and "ok store" and "tier_ok vs"
    and "view store (store_key L VALIDATORS_KEY) = tier_record W vs"
    and "view store (store_key L GENERATION_KEY) = Some g"
    and "decode_config params = Inr config" and "config_find config ''validators'' = Some bs"
    and "from_slice (vw_seed W) bs = Inr keys" and "list_all (\<lambda>k. length k = KEY_LEN) keys"
    and "card (set vs \<union> set keys) \<le> MAX_MEMBERS"
  shows "valset_initialize L W (valset_new mid store gov) params = (valset_new mid store gov, Inr ())"
proof -
  let ?m = "valset_new mid store gov"
  obtain m1 where m1: "seed_all L W ?m keys = (m1, Inr ())" "vs_ok ok m1"
    "vs_committed view L m1 = vs_committed view L ?m" "vs_abort m1 = vs_abort ?m"
    using merkle_laws.seed_all_eq [OF assms(1) _ assms(2,4), of ?m keys] assms(3,5,10,11) by auto
  have "finish_seed L W m1 = (vs_abort m1, Inr ())"
    using merkle_laws.vs_get_committed [OF assms(1) m1(2)] m1(3) assms(6)
    by (simp add: finish_seed_def)
  moreover have "vs_abort ?m = ?m"
    by (simp add: vs_abort_def valset_new_def staged_abort_def staged_new_def)
  ultimately show ?thesis
    using assms(7-9) m1 by (simp add: valset_initialize_def wire_decode_def)
qed

theorem valset_reseed_noop_witness:
  "valset_initialize (mem_lib id) valset_fmts demo_valset demo_params = (demo_valset, Inr ())"
proof -
  have "mem_view demo_store (store_key (mem_lib id) VALIDATORS_KEY) = tier_record valset_fmts [demo_key]"
    and "mem_view demo_store (store_key (mem_lib id) GENERATION_KEY) =
      Some (to_vec (vw_generation valset_fmts) 0)"
    by (simp_all add: demo_store_view demo_store_def tier_record_def del: bt_insert.simps)
  from valset_reseed_noop [OF mem.merkle_laws_axioms [of id] valset_fmts_borsh demo_store_ok
      demo_tier_ok(1) this demo_decode demo_find demo_seed, of "''valset''" "''governance''"]
  show ?thesis
    using demo_tier_ok by (simp add: demo_valset_def tier_ok_def MAX_MEMBERS_def)
qed

end
