(* ===== verification/Interfaces.thy ===== *)
theory Interfaces
  imports Wire
begin

text \<open>
  The public wire types of the three system modules the host itself talks to: the account
  registry (\<^verbatim>\<open>identity/src/interface.rs\<close>), the queue plane (\<^verbatim>\<open>dispatch/src/interface.rs\<close>) and
  the code registry (\<^verbatim>\<open>modules/src/interface.rs\<close>), all under \<^verbatim>\<open>crates/modules/system\<close>. Each
  group ends with the record of the serialization formats its \<^verbatim>\<open>encode\<close>/\<^verbatim>\<open>decode\<close> functions use
  and the debug display of its reply, which only error texts contain.

  The lemmas are about the two functions these files compute: the arm predicate of a scheduled
  swap and the code designated for a height.
\<close>

section \<open>Identity\<close>

datatype key_scheme = Ed25519 | Secp256k1 | Secp256r1

record key_view =
  kv_scheme :: key_scheme
  kv_pubkey :: bytes
  kv_label :: "string option"
  kv_added_at :: u64

datatype program_standing = Active | Suspended

datatype control =
    Keys
  | ProgramControl (pc_controller: account_number) (pc_executor: module_id)
      (pc_generation: u64) (pc_standing: program_standing)
  | RevokedControl account_number

record account_view =
  av_number :: account_number
  av_name :: string
  av_control :: control
  av_keys :: "key_view list"
  av_avatar :: "string option"
  av_bio :: "string option"
  av_updated_at :: u64

datatype account_ref = RefAccount account_number | RefKey bytes

datatype identity_query_msg =
    IdAll u64 u64
  | IdGet account_number
  | IdOfKey bytes
  | IdResolve "account_ref list"
  | IdKeyGen bytes
  | IdControlled account_number u64 u64

datatype identity_reply =
    IdAccounts "account_view list"
  | IdAccount "account_view option"
  | IdResolved "account_number option list"
  | IdGen u64

record identity_wires =
  iw_query :: "identity_query_msg serde"
  iw_reply :: "identity_reply serde"
  iw_debug_reply :: "identity_reply \<Rightarrow> string"

section \<open>Dispatch\<close>

definition DEFAULT_DISPATCH_TARGET :: module_id where
  "DEFAULT_DISPATCH_TARGET = ''dispatch''"

datatype saga_origin = SagaExternal bytes | SagaModule string | SagaSystem

datatype routing = Rendezvous | Pinned bytes

datatype output_contract = ContractText | ContractJson

record recipe =
  rc_recipe_id :: string
  rc_owner :: saga_origin
  rc_description :: string
  rc_capability :: string
  rc_routing :: routing
  rc_output_contract :: output_contract
  rc_max_attempts :: u32
  rc_deadline_views :: "u64 option"
  rc_lease_views :: "u64 option"
  rc_created_at :: u64
  rc_updated_at :: u64

datatype dispatch_status =
    AwaitingResult string
  | AwaitingDelivery
  | StatusDelivered delivery_outcome

record dispatch_view =
  dv_dispatch_id :: string
  dv_recipe_id :: string
  dv_receiver :: string
  dv_cause :: cause
  dv_status :: dispatch_status
  dv_outcome :: "(string + bytes) option"
  dv_created_at :: u64
  dv_updated_at :: u64

datatype admission_policy = PolicyQueue | PolicyFailFast

datatype refusal = NotAProgram | RefusedRevoked | RefusedSuspended | StaleGeneration | WrongExecutor

datatype attempt = AttemptApplied | AttemptRejected | AttemptRefused

datatype call_outcome =
    OutcomeApplied bytes bytes
  | OutcomeRejected string
  | OutcomeRefused refusal
  | OutcomeUnrepresentable attempt

datatype call_outcome_summary =
    SummaryApplied bytes bytes
  | SummaryRejected string
  | SummaryRefused refusal
  | SummaryUnrepresentable attempt

text \<open>An applied output is kept as its digest; the digest function is the argument.\<close>

fun call_summary :: "(bytes \<Rightarrow> bytes) \<Rightarrow> call_outcome \<Rightarrow> call_outcome_summary" where
  "call_summary sha (OutcomeApplied out assigned) = SummaryApplied (sha out) assigned"
| "call_summary sha (OutcomeRejected reason) = SummaryRejected reason"
| "call_summary sha (OutcomeRefused ref) = SummaryRefused ref"
| "call_summary sha (OutcomeUnrepresentable a) = SummaryUnrepresentable a"

record pending_call =
  pc_enqueued :: u64
  pc_id :: call_id
  pc_account :: account_number
  pc_gen :: u64
  pc_target :: module_id
  pc_payload :: bytes
  pc_cause :: cause

datatype call_status =
    CallQueued
  | CallCompletedStatus call_outcome_summary
  | CallDelivered call_outcome_summary delivery_outcome

record call_view =
  cv_enqueued :: u64
  cv_id :: call_id
  cv_account :: account_number
  cv_generation :: u64
  cv_target :: module_id
  cv_payload_digest :: bytes
  cv_cause :: cause
  cv_status :: call_status

datatype dispatch_msg =
    RegisterRecipe string string string routing output_contract u32 "u64 option" "u64 option"
  | UpdateRecipe string "string option" "string option" "routing option" "output_contract option"
      "u32 option"
  | RemoveRecipe string
  | DispatchWork string string bytes "(string \<times> u64) list" admission_policy
  | CancelDispatch string
  | ReassignDispatch string u32
  | DispatchCall string u64 account_number module_id bytes
  | CompleteCall u64 call_id call_outcome
  | Nudge

datatype dispatch_query_msg =
    DqRecipe string
  | DqDispatch string string
  | DqPendingDeliveries
  | DqPendingCalls
  | DqCall call_id

datatype dispatch_reply =
    DrRecipe "recipe option"
  | DrDispatch "dispatch_view option"
  | DrPendingDeliveries u64
  | DrPendingCalls "pending_call list"
  | DrCall "call_view option"

record dispatch_wires =
  dw_msg :: "dispatch_msg serde"
  dw_query :: "dispatch_query_msg serde"
  dw_reply :: "dispatch_reply serde"
  dw_debug_reply :: "dispatch_reply \<Rightarrow> string"

section \<open>Modules\<close>

definition DEFAULT_MODULES_ID :: module_id where
  "DEFAULT_MODULES_ID = ''modules''"

definition CODE_HASH_LEN :: nat where
  "CODE_HASH_LEN = 32"

datatype kind = KindModule | KindView

datatype lane_pacing = PacingShared | PacingLocal u64 u64

record lane_stream =
  ls_pacing :: lane_pacing
  ls_accept_backlog :: u32

record lane_decl =
  ld_id :: byte
  ld_name :: string
  ld_stream :: "lane_stream option"

record lane_record =
  lr_id :: byte
  lr_module_id :: string
  lr_name :: string
  lr_stream :: "lane_stream option"

record scheduled_swap =
  sw_name :: string
  sw_activation_height :: u64
  sw_code_hash :: bytes
  sw_readiness :: "bytes list"
  sw_ready_at :: "u64 option"

text \<open>The arm predicate: readiness latched strictly before the height, floor reached.\<close>

definition armed_at :: "scheduled_swap \<Rightarrow> u64 \<Rightarrow> bool" where
  "armed_at s height =
     ((case sw_ready_at s of None \<Rightarrow> False | Some latched \<Rightarrow> latched < height) \<and>
      sw_activation_height s \<le> height)"

definition stale_at :: "scheduled_swap \<Rightarrow> u64 \<Rightarrow> bool" where
  "stale_at s height = (sw_activation_height s \<le> height \<and> sw_ready_at s = None)"

record activation =
  act_height :: u64
  act_code_hash :: bytes

record module_code =
  mc_module_id :: string
  mc_kind :: kind
  mc_active_code_hash :: bytes
  mc_pending :: "scheduled_swap option"
  mc_history :: "activation list"

text \<open>The code a node must run to apply block \<open>height\<close>.\<close>

definition code_at :: "module_code \<Rightarrow> u64 \<Rightarrow> bytes option" where
  "code_at entry height =
     (let armed = (case mc_pending entry of
            None \<Rightarrow> None
          | Some p \<Rightarrow> if armed_at p height then Some p else None)
      in case armed of
           Some p \<Rightarrow> Some (sw_code_hash p)
         | None \<Rightarrow>
             (let sealed_at_or_before = find (\<lambda>a. act_height a \<le> height) (rev (mc_history entry));
                  seat = (case sealed_at_or_before of
                      Some a \<Rightarrow> Some a
                    | None \<Rightarrow> (case mc_history entry of [] \<Rightarrow> None | a # _ \<Rightarrow> Some a))
              in map_option act_code_hash seat))"

record armed_swap =
  as_module_id :: string
  as_code_hash :: bytes

datatype modules_msg =
    RegisterModule string kind bytes "lane_decl list"
  | ScheduleSwap string string u64 bytes
  | ScheduleRegister string string kind u64 bytes "lane_decl list"
  | CancelSwap string string
  | SwapReady string string bytes
  | Advance

datatype modules_query_msg = MqModuleStatus | MqArmedAt u64 | MqLanes

datatype modules_reply =
    MrModuleStatus "module_code list"
  | MrArmedAt "armed_swap list"
  | MrLanes "lane_record list"

record modules_wires =
  mw_msg :: "modules_msg serde"
  mw_query :: "modules_query_msg serde"
  mw_reply :: "modules_reply serde"
  mw_debug_reply :: "modules_reply \<Rightarrow> string"

section \<open>Lemmas\<close>

text \<open>A swap is never armed and stale at once, and once armed it stays armed.\<close>

lemma armed_not_stale: "armed_at s h \<Longrightarrow> \<not> stale_at s h'"
  by (auto simp: armed_at_def stale_at_def split: option.splits)

lemma armed_at_mono: "armed_at s h \<Longrightarrow> h \<le> h' \<Longrightarrow> armed_at s h'"
  by (auto simp: armed_at_def split: option.splits)

text \<open>The latest activation at or before a height, over an ascending history.\<close>

lemma find_rev_split:
  assumes "find P (rev xs) = Some a"
  shows "\<exists>pre post. xs = pre @ a # post \<and> P a \<and> (\<forall>b\<in>set post. \<not> P b)"
  using assms
proof (induction xs rule: rev_induct)
  case (snoc x xs)
  show ?case
  proof (cases "P x")
    case True
    with snoc.prems have "xs @ [x] = xs @ a # [] \<and> P a \<and> (\<forall>b\<in>set []. \<not> P b)" by simp
    then show ?thesis by blast
  next
    case False
    with snoc.prems have "find P (rev xs) = Some a" by simp
    then obtain pre post where "xs = pre @ a # post" "P a" "\<forall>b\<in>set post. \<not> P b"
      using snoc.IH by blast
    with False have "xs @ [x] = pre @ a # (post @ [x]) \<and> P a \<and> (\<forall>b\<in>set (post @ [x]). \<not> P b)"
      by simp
    then show ?thesis by blast
  qed
qed simp

end
