(* ===== verification/Observer.thy ===== *)
theory Observer
  imports Interfaces "HOL-Library.State_Monad" "HOL-Library.FSet" "HOL-Library.Sublist"
begin

text \<open>
  The block observer of \<^verbatim>\<open>crates/kernel/host/src/lib.rs\<close>: what a block's units read of their
  siblings and what their dispatches came to, recorded on the live path and served again on a
  replay. The \<^verbatim>\<open>RefCell\<close> the source shares by reference is the state of a state monad: an
  operation is a value of \<open>'a obs\<close>.

  The lemmas give the observer's meaning. A run that emits the trace \<open>trs\<close> is \<open>ready\<close> on an
  observer when the observer is live, or replays an entry that goes on with \<open>trs\<close>; then every
  operation answers as the live one and only moves the observer on by \<open>trs\<close>
  (\<open>transparent\<close>), which composes over the whole engine.
\<close>

section \<open>Traces\<close>

datatype read_obs =
    ReadQuery module_id bytes "error + bytes"
  | ReadRoot module_id "state_root option"

datatype input = Execute bytes | Acknowledge ack

record effects =
  ef_emitted :: "msg list"
  ef_events :: "event list"
  ef_output :: "bytes option"
  ef_assigned :: bytes

record dispatched =
  dd_module :: module_id
  dd_origin :: origin
  dd_cause :: cause
  dd_input :: input
  dd_result :: "error + effects"

datatype trace = TraceRead read_obs | TraceDispatch dispatched

text \<open>\<^verbatim>\<open>Observed\<close> (one unit's trace) and \<^verbatim>\<open>Witness\<close> (the units of a block, in attempt order).\<close>

type_synonym observed = "trace list"
type_synonym witness = "observed list"

text \<open>Where a block's observations come from.\<close>

datatype observation = ObserveLive | Journaled witness "module_id fset"

fun read_module :: "read_obs \<Rightarrow> module_id" where
  "read_module (ReadQuery m req ans) = m"
| "read_module (ReadRoot m r) = m"

fun trace_module :: "trace \<Rightarrow> module_id" where
  "trace_module (TraceRead r) = read_module r"
| "trace_module (TraceDispatch d) = dd_module d"

section \<open>Descriptions\<close>

fun describe_read :: "read_obs \<Rightarrow> string" where
  "describe_read (ReadQuery m req ans) =
     ''a '' @ show_nat (length req) @ ''-byte query of '' @ m @ '' ('' @
     (case ans of
        Inr bs \<Rightarrow> show_nat (length bs) @ ''-byte answer''
      | Inl e \<Rightarrow> ''error '' @ error_to_string e) @ '')''"
| "describe_read (ReadRoot m r) = ''the root of '' @ m"

definition describe_target :: "module_id \<Rightarrow> origin \<Rightarrow> input \<Rightarrow> string" where
  "describe_target m origin inp =
     (case inp of
        Execute payload \<Rightarrow> ''a '' @ show_nat (length payload) @ ''-byte op''
      | Acknowledge ack \<Rightarrow> ''the acknowledgment of item '' @ show_nat (unat (ack_item ack))) @
     '' at '' @ m @ '' as '' @ actor_string origin"

definition describe_dispatch :: "dispatched \<Rightarrow> string" where
  "describe_dispatch d =
     describe_target (dd_module d) (dd_origin d) (dd_input d) @ '' ('' @
     (case dd_result d of
        Inr e \<Rightarrow> ''applied: '' @ show_nat (length (ef_emitted e)) @ '' intents, '' @
          show_nat (length (ef_events e)) @ '' events''
      | Inl e \<Rightarrow> ''rejected: '' @ error_to_string e) @ '')''"

section \<open>The observer\<close>

datatype mode = Live | Replay "module_id fset"

datatype open_unit = Unrecorded | Unit nat nat

record divergence =
  dg_module :: module_id
  dg_reason :: string

record observing =
  ob_mode :: mode
  ob_units :: witness
  ob_attempted :: nat
  ob_open :: open_unit
  ob_divergence :: "divergence option"

type_synonym 'a obs = "(observing, 'a) state"

datatype serve = ServeLive | Served "error + bytes"

datatype plan_result = PlanExecute | PlanSubstitute dispatched | PlanDiverged string

definition observer_new :: "observation \<Rightarrow> observing" where
  "observer_new observation =
     (case observation of
        ObserveLive \<Rightarrow>
          \<lparr>ob_mode = Live, ob_units = [], ob_attempted = 0, ob_open = Unrecorded,
           ob_divergence = None\<rparr>
      | Journaled w sub \<Rightarrow>
          \<lparr>ob_mode = Replay sub, ob_units = w, ob_attempted = 0, ob_open = Unrecorded,
           ob_divergence = None\<rparr>)"

text \<open>The first departure stands.\<close>

definition diverge :: "module_id \<Rightarrow> string \<Rightarrow> observing \<Rightarrow> observing" where
  "diverge m reason ob =
     (case ob_divergence ob of
        Some _ \<Rightarrow> ob
      | None \<Rightarrow> ob\<lparr>ob_divergence := Some \<lparr>dg_module = m, dg_reason = reason\<rparr>\<rparr>)"

definition next_trace :: "observing \<Rightarrow> (string + trace) \<times> observing" where
  "next_trace ob =
     (case ob_open ob of
        Unrecorded \<Rightarrow> (Inl ''outside any unit of the witness'', ob)
      | Unit entry next \<Rightarrow>
          if entry < length (ob_units ob) then
            (let unit = ob_units ob ! entry
             in if next < length unit
                then (Inr (unit ! next), ob\<lparr>ob_open := Unit entry (next + 1)\<rparr>)
                else (Inl (''beyond the '' @ show_nat (length unit) @
                           '' entries the witness recorded for unit '' @ show_nat entry), ob))
          else (Inl (''in unit '' @ show_nat entry @ '', beyond the '' @
                     show_nat (length (ob_units ob)) @ '' the witness holds''), ob))"

definition em_dash :: string where
  "em_dash = [CHR 0xE2, CHR 0x80, CHR 0x94]"

definition next_read :: "observing \<Rightarrow> (string + read_obs) \<times> observing" where
  "next_read ob =
     (case next_trace ob of
        (Inl e, ob') \<Rightarrow> (Inl e, ob')
      | (Inr (TraceRead r), ob') \<Rightarrow> (Inr r, ob')
      | (Inr (TraceDispatch d), ob') \<Rightarrow>
          (Inl (''where the witness recorded '' @ describe_dispatch d @ '' '' @ em_dash @
                '' one read more than the dispatch made live''), ob'))"

text \<open>On a replay a unit that closes must have consumed its entry in full.\<close>

definition close_open :: "observing \<Rightarrow> observing" where
  "close_open ob =
     (case ob_mode ob of
        Live \<Rightarrow> ob
      | Replay _ \<Rightarrow>
          (case ob_open ob of
             Unrecorded \<Rightarrow> ob
           | Unit entry next \<Rightarrow>
               if entry < length (ob_units ob) \<and> next < length (ob_units ob ! entry)
               then diverge (trace_module (ob_units ob ! entry ! next))
                      (''unit '' @ show_nat entry @ '': the replay reproduced '' @ show_nat next @
                       '' of the '' @ show_nat (length (ob_units ob ! entry)) @
                       '' entries the witness recorded'') ob
               else ob))"

definition begin_unit :: "nat obs" where
  "begin_unit = State (\<lambda>ob0.
     (let ob = close_open ob0;
          entry = ob_attempted ob;
          ob1 = ob\<lparr>ob_attempted := entry + 1\<rparr>;
          ob2 = (case ob_mode ob1 of
                   Live \<Rightarrow> ob1\<lparr>ob_units := ob_units ob1 @ [[]]\<rparr>
                 | Replay _ \<Rightarrow> ob1)
      in (entry, ob2\<lparr>ob_open := Unit entry 0\<rparr>)))"

definition resume :: "nat \<Rightarrow> unit obs" where
  "resume entry = State (\<lambda>ob0.
     (let ob = close_open ob0
      in ((), ob\<lparr>ob_open := (case ob_mode ob of Live \<Rightarrow> Unrecorded | Replay _ \<Rightarrow> Unit entry 0)\<rparr>)))"

text \<open>
  \<^verbatim>\<open>o.units[entry].trace.push(t)\<close>. The index is in range whenever the observer is
  well-formed (\<open>ob_ok\<close> below), which every operation keeps.
\<close>

definition push_trace :: "trace \<Rightarrow> observing \<Rightarrow> observing" where
  "push_trace t ob =
     (case ob_open ob of
        Unrecorded \<Rightarrow> ob
      | Unit entry _ \<Rightarrow> ob\<lparr>ob_units := (ob_units ob)[entry := ob_units ob ! entry @ [t]]\<rparr>)"

definition observe_query :: "module_id \<Rightarrow> bytes \<Rightarrow> serve obs" where
  "observe_query m request = State (\<lambda>ob.
     (case ob_mode ob of
        Live \<Rightarrow> (ServeLive, ob)
      | Replay _ \<Rightarrow>
          (case next_read ob of (rd, ob1) \<Rightarrow>
             (let served = (case rd of
                  Inr (ReadQuery recorded asked answer) \<Rightarrow>
                    if recorded = m \<and> asked = request then Inr answer
                    else Inl (''the witness recorded '' @
                              describe_read (ReadQuery recorded asked answer) @
                              '', the replay asked a '' @ show_nat (length request) @
                              ''-byte query of '' @ m)
                | Inr (ReadRoot recorded r) \<Rightarrow>
                    Inl (''the witness recorded '' @ describe_read (ReadRoot recorded r) @
                         '', the replay asked a '' @ show_nat (length request) @
                         ''-byte query of '' @ m)
                | Inl reason \<Rightarrow>
                    Inl (''the replay asked a '' @ show_nat (length request) @
                         ''-byte query of '' @ m @ '' '' @ reason))
              in case served of
                   Inr answer \<Rightarrow> (Served answer, ob1)
                 | Inl reason \<Rightarrow>
                     (Served (Inl (ModuleError (''witness divergence: '' @ reason))),
                      diverge m reason ob1)))))"

definition record_query :: "module_id \<Rightarrow> bytes \<Rightarrow> error + bytes \<Rightarrow> unit obs" where
  "record_query m request answer = State (\<lambda>ob.
     (case ob_mode ob of
        Replay _ \<Rightarrow> ((), ob)
      | Live \<Rightarrow> ((), push_trace (TraceRead (ReadQuery m request answer)) ob)))"

definition observe_root :: "module_id \<Rightarrow> state_root option \<Rightarrow> state_root option obs" where
  "observe_root m live = State (\<lambda>ob.
     (case ob_mode ob of
        Live \<Rightarrow> (live, push_trace (TraceRead (ReadRoot m live)) ob)
      | Replay _ \<Rightarrow>
          (case next_read ob of (rd, ob1) \<Rightarrow>
             (let served = (case rd of
                  Inr (ReadRoot recorded r) \<Rightarrow>
                    if recorded = m then Inr r
                    else Inl (''the witness recorded '' @ describe_read (ReadRoot recorded r) @
                              '', the replay asked the root of '' @ m)
                | Inr (ReadQuery recorded asked answer) \<Rightarrow>
                    Inl (''the witness recorded '' @
                         describe_read (ReadQuery recorded asked answer) @
                         '', the replay asked the root of '' @ m)
                | Inl reason \<Rightarrow> Inl (''the replay asked the root of '' @ m @ '' '' @ reason))
              in case served of
                   Inr r \<Rightarrow> (r, ob1)
                 | Inl reason \<Rightarrow> (None, diverge m reason ob1)))))"

text \<open>
  The loop of \<^verbatim>\<open>plan\<close> that passes over recorded reads. Every round consumes an entry, so the
  number of entries left bounds the rounds.
\<close>

function next_dispatch :: "observing \<Rightarrow> (string + dispatched) \<times> observing" where
  "next_dispatch ob =
     (case next_trace ob of
        (Inr (TraceRead _), ob') \<Rightarrow> next_dispatch ob'
      | (Inr (TraceDispatch d), ob') \<Rightarrow> (Inr d, ob')
      | (Inl reason, ob') \<Rightarrow> (Inl reason, ob'))"
  by auto

definition entries_left :: "observing \<Rightarrow> nat" where
  "entries_left ob =
     (case ob_open ob of
        Unrecorded \<Rightarrow> 0
      | Unit entry next \<Rightarrow>
          if entry < length (ob_units ob) then length (ob_units ob ! entry) - next else 0)"

lemma next_trace_left:
  "next_trace ob = (Inr t, ob') \<Longrightarrow> entries_left ob' < entries_left ob"
  by (auto simp: next_trace_def entries_left_def Let_def split: open_unit.splits if_splits)

termination next_dispatch
  by (relation "measure entries_left") (auto dest: next_trace_left [OF sym])

definition plan :: "module_id \<Rightarrow> origin \<Rightarrow> cause \<Rightarrow> input \<Rightarrow> plan_result obs" where
  "plan m origin cause inp = State (\<lambda>ob.
     (case ob_mode ob of
        Live \<Rightarrow> (PlanExecute, ob)
      | Replay sub \<Rightarrow>
          if m |\<notin>| sub then (PlanExecute, ob)
          else
            (let reached = describe_target m origin inp
             in case next_dispatch ob of
                  (Inl reason, ob1) \<Rightarrow>
                    (let why = ''the replay reached '' @ reached @ '' '' @ reason
                     in (PlanDiverged why, diverge m why ob1))
                | (Inr recorded, ob1) \<Rightarrow>
                    if dd_module recorded = m \<and> dd_origin recorded = origin \<and>
                       dd_cause recorded = cause \<and> dd_input recorded = inp
                    then (PlanSubstitute recorded, ob1)
                    else
                      (let why = ''the witness recorded '' @ describe_dispatch recorded @
                             '', the replay reached '' @ reached
                       in (PlanDiverged why, diverge m why ob1)))))"

definition record_dispatch :: "dispatched \<Rightarrow> unit obs" where
  "record_dispatch d = State (\<lambda>ob.
     (case ob_mode ob of
        Live \<Rightarrow> ((), push_trace (TraceDispatch d) ob)
      | Replay _ \<Rightarrow>
          (let ran = describe_dispatch d
           in case next_trace ob of
                (Inr (TraceDispatch recorded), ob1) \<Rightarrow>
                  if recorded = d then ((), ob1)
                  else ((), diverge (dd_module d)
                          (''the witness recorded '' @ describe_dispatch recorded @
                           '', the replay ran '' @ ran) ob1)
              | (Inr (TraceRead r), ob1) \<Rightarrow>
                  ((), diverge (dd_module d)
                     (''the witness recorded '' @ describe_read r @
                      '' where the replay finished '' @ ran @ '' '' @ em_dash @
                      '' one read fewer than the dispatch made live'') ob1)
              | (Inl reason, ob1) \<Rightarrow>
                  ((), diverge (dd_module d)
                     (''the replay finished '' @ ran @ '' '' @ reason) ob1))))"

definition get_divergence :: "divergence option obs" where
  "get_divergence = State (\<lambda>ob. (ob_divergence ob, ob))"

definition observer_finish :: "observing \<Rightarrow> divergence + witness" where
  "observer_finish ob0 =
     (let ob = close_open ob0;
          replay_short = (case ob_mode ob of
              Live \<Rightarrow> False
            | Replay _ \<Rightarrow> ob_attempted ob \<noteq> length (ob_units ob));
          ob1 = (if replay_short
                 then diverge
                   (if ob_attempted ob < length (ob_units ob) \<and> ob_units ob ! ob_attempted ob \<noteq> []
                    then trace_module (hd (ob_units ob ! ob_attempted ob))
                    else DEFAULT_DISPATCH_TARGET)
                   (''the replay attempted '' @ show_nat (ob_attempted ob) @
                    '' units, the witness holds '' @ show_nat (length (ob_units ob))) ob
                 else ob)
      in case ob_divergence ob1 of
           Some d \<Rightarrow> Inl d
         | None \<Rightarrow> Inr (ob_units ob1))"

section \<open>Traces through the observer\<close>

text \<open>The observer never indexes its units out of range.\<close>

definition ob_ok :: "observing \<Rightarrow> bool" where
  "ob_ok ob \<longleftrightarrow>
     (ob_mode ob = Live \<longrightarrow>
        ob_attempted ob = length (ob_units ob) \<and>
        (\<forall>e n. ob_open ob = Unit e n \<longrightarrow> e < length (ob_units ob)))"

text \<open>
  \<open>advance trs ob\<close> is the observer after a run that read and dispatched \<open>trs\<close>, and
  \<open>ready trs ob\<close> says that the observer lets such a run happen: it records, or it replays an
  entry in which \<open>trs\<close> comes next and substitutes nothing.
\<close>

definition advance :: "trace list \<Rightarrow> observing \<Rightarrow> observing" where
  "advance trs ob =
     (case ob_open ob of
        Unrecorded \<Rightarrow> ob
      | Unit e n \<Rightarrow>
          (case ob_mode ob of
             Live \<Rightarrow> ob\<lparr>ob_units := (ob_units ob)[e := ob_units ob ! e @ trs]\<rparr>
           | Replay _ \<Rightarrow> ob\<lparr>ob_open := Unit e (n + length trs)\<rparr>))"

definition ready :: "trace list \<Rightarrow> observing \<Rightarrow> bool" where
  "ready trs ob \<longleftrightarrow>
     ob_divergence ob = None \<and>
     (case ob_mode ob of
        Live \<Rightarrow> (\<forall>e n. ob_open ob = Unit e n \<longrightarrow> e < length (ob_units ob))
      | Replay sub \<Rightarrow>
          sub = {||} \<and>
          (\<exists>e n. ob_open ob = Unit e n \<and> e < length (ob_units ob) \<and>
                 prefix trs (drop n (ob_units ob ! e))))"

lemma advance_simps [simp]:
  "ob_mode (advance trs ob) = ob_mode ob"
  "ob_attempted (advance trs ob) = ob_attempted ob"
  "ob_divergence (advance trs ob) = ob_divergence ob"
  "length (ob_units (advance trs ob)) = length (ob_units ob)"
  by (simp_all add: advance_def split: open_unit.split mode.split)

lemma advance_Nil: "advance [] ob = ob"
  by (cases ob) (auto simp: advance_def split: open_unit.split mode.split)

lemma advance_append: "ready [] ob \<Longrightarrow> advance b (advance a ob) = advance (a @ b) ob"
  by (auto simp: advance_def ready_def split: open_unit.split mode.split)

lemma ready_Nil: "ready trs ob \<Longrightarrow> ready [] ob"
  by (auto simp: ready_def split: mode.splits)

lemma ready_append: "ready (a @ b) ob \<longleftrightarrow> ready a ob \<and> ready b (advance a ob)"
proof (cases "ob_mode ob")
  case Live
  then show ?thesis by (auto simp: ready_def advance_def split: open_unit.split)
next
  case (Replay sub)
  have "prefix (a @ b) ys \<longleftrightarrow> prefix a ys \<and> prefix b (drop (length a) ys)" for ys :: "trace list"
    by (auto simp: prefix_def)
  then have "prefix (a @ b) (drop n xs) \<longleftrightarrow>
      prefix a (drop n xs) \<and> prefix b (drop (n + length a) xs)" for n and xs :: "trace list"
    by (simp add: add.commute)
  with Replay show ?thesis by (auto simp: ready_def advance_def split: open_unit.split)
qed

text \<open>
  A computation is transparent when its result and its trace do not depend on the observer it
  runs under, as long as the observer is ready for that trace.
\<close>

definition emits :: "'a obs \<Rightarrow> 'a \<Rightarrow> trace list \<Rightarrow> bool" where
  "emits m x trs \<longleftrightarrow> (\<forall>ob. ready trs ob \<longrightarrow> run_state m ob = (x, advance trs ob))"

definition transparent :: "'a obs \<Rightarrow> bool" where
  "transparent m \<longleftrightarrow> (\<exists>x trs. emits m x trs)"

lemma emitsD: "emits m x trs \<Longrightarrow> ready trs ob \<Longrightarrow> run_state m ob = (x, advance trs ob)"
  by (simp add: emits_def)

lemma emits_return: "emits (State_Monad.return x) x []"
  by (simp add: emits_def advance_Nil)

lemma emits_bind:
  assumes "emits m x a" and "emits (f x) y b"
  shows "emits (State_Monad.bind m f) y (a @ b)"
  unfolding emits_def
proof (intro allI impI)
  fix ob assume r: "ready (a @ b) ob"
  then have "ready a ob" "ready b (advance a ob)" by (simp_all add: ready_append)
  then show "run_state (State_Monad.bind m f) ob = (y, advance (a @ b) ob)"
    using emitsD [OF assms(1)] emitsD [OF assms(2)] advance_append [OF ready_Nil [OF r]]
    by simp
qed

lemma transparent_return [intro]: "transparent (State_Monad.return x)"
  unfolding transparent_def by (intro exI, rule emits_return)

lemma transparent_bind [intro]:
  assumes "transparent m" and "\<And>x. transparent (f x)"
  shows "transparent (State_Monad.bind m f)"
proof -
  obtain x a where "emits m x a" using assms(1) unfolding transparent_def by blast
  moreover obtain y b where "emits (f x) y b" using assms(2) unfolding transparent_def by blast
  ultimately have "emits (State_Monad.bind m f) y (a @ b)" by (rule emits_bind)
  then show ?thesis unfolding transparent_def by blast
qed

text \<open>The canonical recorder: live, with one empty unit open.\<close>

definition recorder :: observing where
  "recorder = \<lparr>ob_mode = Live, ob_units = [[]], ob_attempted = 1, ob_open = Unit 0 0,
               ob_divergence = None\<rparr>"

lemma ready_recorder [simp]: "ready trs recorder"
  by (simp add: ready_def recorder_def)

lemma advance_recorder: "advance trs recorder = recorder\<lparr>ob_units := [trs]\<rparr>"
  by (simp add: advance_def recorder_def)

definition obs_result :: "'a obs \<Rightarrow> 'a" where
  "obs_result m = fst (run_state m recorder)"

definition obs_trace :: "'a obs \<Rightarrow> trace list" where
  "obs_trace m = hd (ob_units (snd (run_state m recorder)))"

lemma emits_result:
  assumes "emits m x trs"
  shows "obs_result m = x" "obs_trace m = trs"
  using emitsD [OF assms, of recorder] by (simp_all add: obs_result_def obs_trace_def advance_recorder)

lemma transparent_run:
  assumes "transparent m" and "ready (obs_trace m) ob"
  shows "run_state m ob = (obs_result m, advance (obs_trace m) ob)"
proof -
  obtain x trs where e: "emits m x trs" using assms(1) unfolding transparent_def by blast
  from emitsD [OF e] assms(2) show ?thesis unfolding emits_result [OF e] by blast
qed

lemma transparent_emits: "transparent m \<Longrightarrow> emits m (obs_result m) (obs_trace m)"
  unfolding emits_def using transparent_run by blast

lemma ready_live: "ob_mode ob = Live \<Longrightarrow> ob_ok ob \<Longrightarrow> ob_divergence ob = None \<Longrightarrow> ready trs ob"
  by (auto simp: ready_def ob_ok_def)

subsection \<open>The observer's own operations\<close>

lemma next_trace_ready:
  assumes "ready (t # trs) ob" and "ob_mode ob = Replay sub"
  shows "next_trace ob = (Inr t, advance [t] ob)"
proof -
  from assms obtain e n where o: "ob_open ob = Unit e n" "e < length (ob_units ob)"
    "prefix (t # trs) (drop n (ob_units ob ! e))"
    by (auto simp: ready_def)
  then obtain rest where d: "drop n (ob_units ob ! e) = t # rest"
    by (auto simp: prefix_def)
  then have "n < length (ob_units ob ! e)"
    by (cases "n < length (ob_units ob ! e)") auto
  moreover from d have "ob_units ob ! e ! n = t" by (rule nth_via_drop)
  ultimately show ?thesis
    using o assms(2) by (simp add: next_trace_def advance_def)
qed

lemma push_trace_live:
  "ob_mode ob = Live \<Longrightarrow> push_trace t ob = advance [t] ob"
  by (auto simp: push_trace_def advance_def split: open_unit.split)

text \<open>A sibling query: served, or answered live and recorded.\<close>

definition observed :: "module_id \<Rightarrow> bytes \<Rightarrow> error + bytes \<Rightarrow> (error + bytes) obs" where
  "observed m request live = do {
     s \<leftarrow> observe_query m request;
     case s of
       Served answer \<Rightarrow> State_Monad.return answer
     | ServeLive \<Rightarrow> do {
         record_query m request live;
         State_Monad.return live
       }
   }"

lemma emits_observed: "emits (observed m request live) live [TraceRead (ReadQuery m request live)]"
  unfolding emits_def
proof (intro allI impI)
  fix ob assume r: "ready [TraceRead (ReadQuery m request live)] ob"
  show "run_state (observed m request live) ob =
    (live, advance [TraceRead (ReadQuery m request live)] ob)"
  proof (cases "ob_mode ob")
    case Live
    then show ?thesis
      by (simp add: observed_def observe_query_def record_query_def push_trace_live)
  next
    case (Replay sub)
    from next_trace_ready [OF r Replay] Replay show ?thesis
      by (simp add: observed_def observe_query_def next_read_def Let_def)
  qed
qed

lemma emits_observe_root: "emits (observe_root m live) live [TraceRead (ReadRoot m live)]"
  unfolding emits_def
proof (intro allI impI)
  fix ob assume r: "ready [TraceRead (ReadRoot m live)] ob"
  show "run_state (observe_root m live) ob = (live, advance [TraceRead (ReadRoot m live)] ob)"
  proof (cases "ob_mode ob")
    case Live
    then show ?thesis by (simp add: observe_root_def push_trace_live)
  next
    case (Replay sub)
    from next_trace_ready [OF r Replay] Replay show ?thesis
      by (simp add: observe_root_def next_read_def Let_def)
  qed
qed

lemma emits_record_dispatch: "emits (record_dispatch d) () [TraceDispatch d]"
  unfolding emits_def
proof (intro allI impI)
  fix ob assume r: "ready [TraceDispatch d] ob"
  show "run_state (record_dispatch d) ob = ((), advance [TraceDispatch d] ob)"
  proof (cases "ob_mode ob")
    case Live
    then show ?thesis by (simp add: record_dispatch_def push_trace_live)
  next
    case (Replay sub)
    from next_trace_ready [OF r Replay] Replay show ?thesis
      by (simp add: record_dispatch_def Let_def)
  qed
qed

lemma emits_plan: "emits (plan m origin cause inp) PlanExecute []"
  by (auto simp: emits_def plan_def ready_def advance_Nil split: mode.split)

lemma emits_divergence: "emits get_divergence None []"
  by (simp add: emits_def get_divergence_def ready_def advance_Nil)

lemma transparent_ops [intro]:
  "transparent (observed m request live)" "transparent (observe_root m live')"
  "transparent (record_dispatch d)" "transparent (plan m origin cause inp)"
  "transparent get_divergence"
  using emits_observed emits_observe_root emits_record_dispatch emits_plan emits_divergence
  unfolding transparent_def by blast+

end
