(* ===== verification/Host_Dispatch.thy ===== *)
theory Host_Dispatch
  imports Observer Acl Valset
begin

text \<open>
  The dispatch half of the host (\<^verbatim>\<open>crates/kernel/host/src/lib.rs\<close>): the read-only query context
  with its cycle check, the dispatch context \<^verbatim>\<open>HostCtx\<close>, the acl gate, one dispatch
  (\<^verbatim>\<open>execute_one\<close>, \<^verbatim>\<open>acknowledge_one\<close>), the drain of a queue with its budget, and the steps of a
  unit.

  What is not code of this repository or of the host crate is in the record \<open>kernel\<close>: the
  operations of the registered modules, sha256, and the serialization formats. The registry is
  the sorted association list of a \<^verbatim>\<open>BTreeMap\<close>; the state that a dispatch changes beside the
  observer is the record \<open>run\<close>.

  The lemmas show that a drain is transparent (its result and trace are those of a live run under
  every observer that is ready for the trace), that its outputs only grow, and what it leaves of a
  registry of lawful modules.
\<close>

section \<open>Parameters\<close>

record 'm kernel =
  k_ops :: "'m module_ops"
  k_sha256 :: "bytes \<Rightarrow> bytes"
  k_acl :: acl_wires
  k_valset :: valset_wires
  k_identity :: identity_wires
  k_dispatch :: dispatch_wires
  k_modules :: modules_wires
  k_ack :: "ack serde"

type_synonym 'm registry = "(module_id \<times> 'm) list"
type_synonym clock = "u64 \<times> u64"

definition MAX_DISPATCHES :: nat where
  "MAX_DISPATCHES = 1024"

definition MAX_BLOCK_REPLAYS :: nat where
  "MAX_BLOCK_REPLAYS = 8"

definition MODULES_ID :: module_id where
  "MODULES_ID = DEFAULT_MODULES_ID"

definition DISPATCH_MODULE_ID :: module_id where
  "DISPATCH_MODULE_ID = DEFAULT_DISPATCH_TARGET"

definition ACL_MODULE_ID :: module_id where
  "ACL_MODULE_ID = DEFAULT_ACL_ID"

definition VALSET_MODULE_ID :: module_id where
  "VALSET_MODULE_ID = ''valset''"

definition IDENTITY_MODULE_ID :: module_id where
  "IDENTITY_MODULE_ID = ''identity''"

section \<open>Queries\<close>

text \<open>A run of module code against fixed answers.\<close>

primrec ctx_answer ::
  "(module_id \<Rightarrow> bytes \<Rightarrow> error + bytes) \<Rightarrow> (module_id \<Rightarrow> state_root option) \<Rightarrow> 'a ctx_m \<Rightarrow> 'a" where
  "ctx_answer ask root (Done a) = a"
| "ctx_answer ask root (Query target req k) = ctx_answer ask root (k (ask target req))"
| "ctx_answer ask root (AskRoot target k) = ctx_answer ask root (k (root target))"

text \<open>
  \<^verbatim>\<open>ReadOnlyQueryCtx::query\<close>: a nested query runs its target with the target added to the active
  set. Every nesting adds a registered module to the set, so the modules that are not yet active
  bound the depth.
\<close>

function ro_query ::
  "'m module_ops \<Rightarrow> (module_id \<times> state_root) list \<Rightarrow> 'm registry \<Rightarrow> env \<Rightarrow> module_id fset \<Rightarrow>
   module_id \<Rightarrow> bytes \<Rightarrow> error + bytes" where
  "ro_query ops snapshot registry env active target req =
     (if target = env_me env then Inl SelfQuery
      else if target |\<in>| active then Inl (ModuleError (''query cycle: '' @ target))
      else case map_of registry target of
             Some m \<Rightarrow>
               ctx_answer
                 (\<lambda>t q. ro_query ops snapshot registry (env\<lparr>env_me := target\<rparr>)
                    (finsert target active) t q)
                 (map_of snapshot) (mod_query ops m (env\<lparr>env_me := target\<rparr>) req)
           | None \<Rightarrow> Inl (UnknownModule target))"
  by auto

lemma fresh_module_card:
  assumes "map_of registry target = Some m" and "target |\<notin>| active"
  shows "card (fst ` set registry - insert target (fset active)) <
         card (fst ` set registry - fset active)"
proof (rule psubset_card_mono)
  have "target \<in> fst ` set registry" using assms(1) by (metis map_of_SomeD image_eqI fst_conv)
  then show "fst ` set registry - insert target (fset active) \<subset> fst ` set registry - fset active"
    using assms(2) by auto
qed simp

termination ro_query
  by (relation "measure (\<lambda>(ops, snapshot, registry, env, active, target, req).
        card (fst ` set registry - fset active))")
    (auto simp: fresh_module_card)

declare ro_query.simps [simp del]

definition snapshot_of :: "'m module_ops \<Rightarrow> 'm registry \<Rightarrow> (module_id \<times> state_root) list" where
  "snapshot_of ops registry = map (\<lambda>(k, m). (k, mod_root ops m)) registry"

definition query_as ::
  "'m module_ops \<Rightarrow> clock \<Rightarrow> 'm registry \<Rightarrow> module_id \<Rightarrow> bytes \<Rightarrow> origin \<Rightarrow> error + bytes" where
  "query_as ops clk registry target req origin =
     (case map_of registry target of
        Some m \<Rightarrow>
          (let snapshot = snapshot_of ops registry;
               env = \<lparr>env_height = fst clk, env_consensus_time = snd clk,
                      env_origin = origin, env_me = target, env_cause = Direct\<rparr>
           in ctx_answer (ro_query ops snapshot registry env {|target|}) (map_of snapshot)
                (mod_query ops m env req))
      | None \<Rightarrow> Inl (UnknownModule target))"

definition host_query ::
  "'m module_ops \<Rightarrow> clock \<Rightarrow> 'm registry \<Rightarrow> module_id \<Rightarrow> bytes \<Rightarrow> error + bytes" where
  "host_query ops clk registry target req = query_as ops clk registry target req System"

definition observed_query ::
  "'m module_ops \<Rightarrow> clock \<Rightarrow> 'm registry \<Rightarrow> module_id \<Rightarrow> bytes \<Rightarrow> (error + bytes) obs" where
  "observed_query ops clk registry m request =
     observed m request (host_query ops clk registry m request)"

text \<open>
  \<^verbatim>\<open>HostCtx\<close>: the context of one dispatch. \<open>registry\<close> is the rest of the registry, without the
  module that runs.
\<close>

definition ctx_query_live ::
  "'m module_ops \<Rightarrow> (module_id \<times> state_root) list \<Rightarrow> 'm registry \<Rightarrow> env \<Rightarrow> module_id \<Rightarrow> bytes \<Rightarrow>
   error + bytes" where
  "ctx_query_live ops snapshot registry env target req =
     (case map_of registry target of
        Some m \<Rightarrow>
          ctx_answer
            (ro_query ops snapshot registry (env\<lparr>env_me := target\<rparr>) {|env_me env, target|})
            (map_of snapshot) (mod_query ops m (env\<lparr>env_me := target\<rparr>) req)
      | None \<Rightarrow> Inl (UnknownModule target))"

primrec host_run ::
  "'m module_ops \<Rightarrow> (module_id \<times> state_root) list \<Rightarrow> 'm registry \<Rightarrow> env \<Rightarrow> 'a ctx_m \<Rightarrow> 'a obs" where
  "host_run ops snapshot registry env (Done a) = State_Monad.return a"
| "host_run ops snapshot registry env (Query target req k) =
     (if target = env_me env then host_run ops snapshot registry env (k (Inl SelfQuery))
      else do {
        answer \<leftarrow> observed target req (ctx_query_live ops snapshot registry env target req);
        host_run ops snapshot registry env (k answer)
      })"
| "host_run ops snapshot registry env (AskRoot target k) = do {
     r \<leftarrow> observe_root target (map_of snapshot target);
     host_run ops snapshot registry env (k r)
   }"

section \<open>The acl gate\<close>

text \<open>The keys of one valset tier, as the gate reads them: an unreadable tier is empty.\<close>

definition tier_keys :: "valset_wires \<Rightarrow> error + bytes \<Rightarrow> bytes list" where
  "tier_keys V answer =
     (case answer of
        Inl _ \<Rightarrow> []
      | Inr b \<Rightarrow>
          (case wire_decode (vw_reply V) b of
             Inr (RValidators keys) \<Rightarrow> keys
           | Inr (RResidents keys) \<Rightarrow> keys
           | _ \<Rightarrow> []))"

definition valset_tier_holds ::
  "'m kernel \<Rightarrow> clock \<Rightarrow> 'm registry \<Rightarrow> bytes \<Rightarrow> bool \<Rightarrow> bool obs" where
  "valset_tier_holds K clk registry submitter with_residents = do {
     v \<leftarrow> observed_query (k_ops K) clk registry VALSET_MODULE_ID
            (wire_encode (vw_query (k_valset K)) QValidators);
     if submitter \<in> set (tier_keys (k_valset K) v) then State_Monad.return True
     else if with_residents then do {
       r \<leftarrow> observed_query (k_ops K) clk registry VALSET_MODULE_ID
              (wire_encode (vw_query (k_valset K)) QResidents);
       State_Monad.return (submitter \<in> set (tier_keys (k_valset K) r))
     }
     else State_Monad.return False
   }"

definition identity_account_holds ::
  "'m kernel \<Rightarrow> clock \<Rightarrow> 'm registry \<Rightarrow> bytes \<Rightarrow> bool obs" where
  "identity_account_holds K clk registry submitter = do {
     answer \<leftarrow> observed_query (k_ops K) clk registry IDENTITY_MODULE_ID
                 (wire_encode (iw_query (k_identity K)) (IdOfKey submitter));
     State_Monad.return
       (case answer of
          Inl _ \<Rightarrow> False
        | Inr b \<Rightarrow>
            (case wire_decode (iw_reply (k_identity K)) b of
               Inr (IdAccount (Some _)) \<Rightarrow> True
             | _ \<Rightarrow> False))
   }"

definition standing_refusal :: "module_id \<Rightarrow> standing \<Rightarrow> error" where
  "standing_refusal target required =
     ModuleError (''acl: target '' @ target @ '' requires '' @ standing_as_str required @
       '' standing '' @ em_dash @ '' the submitting origin holds none'')"

definition standing_holds ::
  "'m kernel \<Rightarrow> clock \<Rightarrow> 'm registry \<Rightarrow> standing \<Rightarrow> origin \<Rightarrow> bool obs" where
  "standing_holds K clk registry required origin =
     (case required of
        Open \<Rightarrow> State_Monad.return True
      | Validator \<Rightarrow>
          (case origin of
             External submitter \<Rightarrow> valset_tier_holds K clk registry submitter False
           | Program _ \<Rightarrow> State_Monad.return False
           | _ \<Rightarrow> State_Monad.return True)
      | Node \<Rightarrow>
          (case origin of
             External submitter \<Rightarrow> valset_tier_holds K clk registry submitter True
           | Program _ \<Rightarrow> State_Monad.return False
           | _ \<Rightarrow> State_Monad.return True)
      | User \<Rightarrow>
          (case origin of
             External submitter \<Rightarrow> identity_account_holds K clk registry submitter
           | _ \<Rightarrow> State_Monad.return True))"

definition gate_policy :: "acl_wires \<Rightarrow> error + bytes \<Rightarrow> standing option" where
  "gate_policy A answer =
     (case answer of
        Inl _ \<Rightarrow> None
      | Inr reply \<Rightarrow>
          (case wire_decode (aw_reply A) reply of
             Inr (AclReplyPolicyFor policy) \<Rightarrow> policy
           | _ \<Rightarrow> None))"

definition require_submit_standing ::
  "'m kernel \<Rightarrow> clock \<Rightarrow> 'm registry \<Rightarrow> origin \<Rightarrow> module_id \<Rightarrow> (error + unit) obs" where
  "require_submit_standing K clk registry origin target = do {
     answer \<leftarrow> observed_query (k_ops K) clk registry ACL_MODULE_ID
                 (wire_encode (aw_query (k_acl K)) (AclPolicyFor target));
     case gate_policy (k_acl K) answer of
       None \<Rightarrow> State_Monad.return (Inr ())
     | Some required \<Rightarrow> do {
         holds \<leftarrow> standing_holds K clk registry required origin;
         State_Monad.return
           (if holds then Inr () else Inl (standing_refusal target required))
       }
   }"

section \<open>Dispatches\<close>

record dispatch_record =
  dr_module :: module_id
  dr_origin :: origin
  dr_cause :: cause
  dr_payload :: bytes
  dr_emitted_msgs :: nat
  dr_emitted_events :: nat
  dr_output :: "bytes option"
  dr_assigned :: bytes

text \<open>What the drain changes: the registry and its three output arguments.\<close>

record 'm run =
  run_registry :: "'m registry"
  run_touched :: "module_id fset"
  run_events :: "event list"
  run_dispatches :: "dispatch_record list"

definition run_fresh :: "'m registry \<Rightarrow> 'm run" where
  "run_fresh registry =
     \<lparr>run_registry = registry, run_touched = {||}, run_events = [], run_dispatches = []\<rparr>"

text \<open>
  The part \<^verbatim>\<open>execute_one\<close> and \<^verbatim>\<open>acknowledge_one\<close> share: take the module out, run its code under a
  context over the rest, and put it back whatever the code returned.
\<close>

definition with_module ::
  "'m kernel \<Rightarrow> env \<Rightarrow> ('m \<Rightarrow> 'm dispatch_out ctx_m) \<Rightarrow> 'm run \<Rightarrow>
   ('m run \<times> (error + 'm dispatch_out)) obs" where
  "with_module K env code r =
     (case map_of (run_registry r) (env_me env) of
        None \<Rightarrow> State_Monad.return (r, Inl (UnknownModule (env_me env)))
      | Some me \<Rightarrow>
          (let rest = bt_remove (env_me env) (run_registry r);
               snapshot = bt_insert (env_me env) (mod_root (k_ops K) me) (snapshot_of (k_ops K) rest)
           in do {
             out \<leftarrow> host_run (k_ops K) snapshot rest env (code me);
             State_Monad.return
               (r\<lparr>run_registry := bt_insert (env_me env) (out_module out) rest,
                  run_touched := finsert (env_me env) (run_touched r)\<rparr>,
                and_then (out_result out) (\<lambda>_. Inr out))
           }))"

definition op_effects :: "'m dispatch_out \<Rightarrow> error + effects" where
  "op_effects out =
     and_then (into_value (out_output out) ''op output'') (\<lambda>output.
     and_then (into_value (out_assigned out) ''op assigned stamp'') (\<lambda>assigned.
     Inr \<lparr>ef_emitted = out_msgs out, ef_events = out_events out, ef_output = output,
          ef_assigned = (case assigned of None \<Rightarrow> [] | Some bs \<Rightarrow> bs)\<rparr>))"

definition execute_one ::
  "'m kernel \<Rightarrow> clock \<Rightarrow> u64 \<Rightarrow> u64 \<Rightarrow> origin \<Rightarrow> cause \<Rightarrow> msg \<Rightarrow> 'm run \<Rightarrow>
   ('m run \<times> (error + effects)) obs" where
  "execute_one K clk height consensus_time origin cause msg r = do {
     gate \<leftarrow> (case origin of
         External _ \<Rightarrow> require_submit_standing K clk (run_registry r) origin (msg_target msg)
       | Program _ \<Rightarrow> require_submit_standing K clk (run_registry r) origin (msg_target msg)
       | _ \<Rightarrow> State_Monad.return (Inr ()));
     case gate of
       Inl e \<Rightarrow> State_Monad.return (r, Inl e)
     | Inr _ \<Rightarrow>
         (let env = \<lparr>env_height = height, env_consensus_time = consensus_time,
                     env_origin = origin, env_me = msg_target msg, env_cause = cause\<rparr>
          in do {
            res \<leftarrow> with_module K env (\<lambda>me. mod_execute (k_ops K) me env msg) r;
            State_Monad.return (fst res, and_then (snd res) op_effects)
          })
   }"

definition ack_effects :: "module_id \<Rightarrow> 'm dispatch_out \<Rightarrow> error + effects" where
  "ack_effects source out =
     (if out_msgs out \<noteq> []
      then Inl (ModuleError (source @ '': an acknowledgment emitted '' @
             show_nat (length (out_msgs out)) @ '' follow-up intents; none are allowed''))
      else
        and_then (into_value (out_assigned out) ''acknowledgment assigned stamp'') (\<lambda>assigned.
        Inr \<lparr>ef_emitted = [], ef_events = out_events out, ef_output = None,
             ef_assigned = (case assigned of None \<Rightarrow> [] | Some bs \<Rightarrow> bs)\<rparr>))"

definition acknowledge_one ::
  "'m kernel \<Rightarrow> u64 \<Rightarrow> u64 \<Rightarrow> module_id \<Rightarrow> cause \<Rightarrow> ack \<Rightarrow> 'm run \<Rightarrow>
   ('m run \<times> (error + effects)) obs" where
  "acknowledge_one K height consensus_time source cause ack r =
     (let env = \<lparr>env_height = height, env_consensus_time = consensus_time,
                 env_origin = System, env_me = source, env_cause = cause\<rparr>
      in do {
        res \<leftarrow> with_module K env (\<lambda>me. mod_acknowledge (k_ops K) me env ack) r;
        State_Monad.return (fst res, and_then (snd res) (ack_effects source))
      })"

text \<open>
  The part \<^verbatim>\<open>drain_queue\<close> and \<^verbatim>\<open>run_ack\<close> share: plan the dispatch, run it and record it or stand
  its record in, and stop at a divergence.
\<close>

definition observed_dispatch ::
  "module_id \<Rightarrow> origin \<Rightarrow> cause \<Rightarrow> input \<Rightarrow> ('m run \<times> (error + effects)) obs \<Rightarrow> 'm run \<Rightarrow>
   ('m run \<times> (error + dispatched)) obs" where
  "observed_dispatch m origin cause inp exec r = do {
     p \<leftarrow> plan m origin cause inp;
     case p of
       PlanDiverged reason \<Rightarrow> State_Monad.return (r, Inl (ModuleError reason))
     | PlanSubstitute recorded \<Rightarrow> do {
         dv \<leftarrow> get_divergence;
         State_Monad.return
           (r, case dv of Some d \<Rightarrow> Inl (ModuleError (dg_reason d)) | None \<Rightarrow> Inr recorded)
       }
     | PlanExecute \<Rightarrow> do {
         res \<leftarrow> exec;
         (let d = \<lparr>dd_module = m, dd_origin = origin, dd_cause = cause, dd_input = inp,
                   dd_result = snd res\<rparr>
          in do {
            record_dispatch d;
            dv \<leftarrow> get_divergence;
            State_Monad.return
              (fst res, case dv of Some v \<Rightarrow> Inl (ModuleError (dg_reason v)) | None \<Rightarrow> Inr d)
          })
       }
   }"

definition push_dispatch :: "dispatch_record \<Rightarrow> event list \<Rightarrow> 'm run \<Rightarrow> 'm run" where
  "push_dispatch d events r =
     r\<lparr>run_dispatches := run_dispatches r @ [d], run_events := run_events r @ events\<rparr>"

definition op_record :: "dispatched \<Rightarrow> bytes \<Rightarrow> effects \<Rightarrow> dispatch_record" where
  "op_record d payload eff =
     \<lparr>dr_module = dd_module d, dr_origin = dd_origin d, dr_cause = dd_cause d,
      dr_payload = payload, dr_emitted_msgs = length (ef_emitted eff),
      dr_emitted_events = length (ef_events eff), dr_output = ef_output eff,
      dr_assigned = ef_assigned eff\<rparr>"

type_synonym queued = "origin \<times> cause \<times> msg"

text \<open>The drain. \<open>n\<close> counts the dispatches of this call.\<close>

function drain_queue ::
  "'m kernel \<Rightarrow> clock \<Rightarrow> u64 \<Rightarrow> u64 \<Rightarrow> nat \<Rightarrow> queued list \<Rightarrow> 'm run \<Rightarrow> ('m run \<times> (error + unit)) obs" where
  "drain_queue K clk height consensus_time n [] r = State_Monad.return (r, Inr ())"
| "drain_queue K clk height consensus_time n ((origin, cause, msg) # queue) r =
     (if n + 1 > MAX_DISPATCHES then State_Monad.return (r, Inl BudgetExceeded)
      else do {
        res \<leftarrow> observed_dispatch (msg_target msg) origin cause (Execute (msg_payload msg))
                 (execute_one K clk height consensus_time origin cause msg r) r;
        case snd res of
          Inl e \<Rightarrow> State_Monad.return (fst res, Inl e)
        | Inr d \<Rightarrow>
            (case dd_result d of
               Inl e \<Rightarrow> State_Monad.return (fst res, Inl e)
             | Inr eff \<Rightarrow>
                 drain_queue K clk height consensus_time (n + 1)
                   (queue @ map (\<lambda>m. (Module (dd_module d), dd_cause d, m)) (ef_emitted eff))
                   (push_dispatch (op_record d (msg_payload msg) eff) (ef_events eff) (fst res)))
      })"
  by pat_completeness auto

termination drain_queue
  by (relation "measure (\<lambda>(K, clk, height, consensus_time, n, queue, r).
        MAX_DISPATCHES + 1 - n)") auto

definition run_ack ::
  "'m kernel \<Rightarrow> u64 \<Rightarrow> u64 \<Rightarrow> module_id \<Rightarrow> cause \<Rightarrow> ack \<Rightarrow> 'm run \<Rightarrow> ('m run \<times> (error + unit)) obs" where
  "run_ack K height consensus_time source cause ack r = do {
     res \<leftarrow> observed_dispatch source System cause (Acknowledge ack)
              (acknowledge_one K height consensus_time source cause ack r) r;
     State_Monad.return
       (case snd res of
          Inl e \<Rightarrow> (fst res, Inl e)
        | Inr d \<Rightarrow>
            (case dd_result d of
               Inl e \<Rightarrow> (fst res, Inl e)
             | Inr eff \<Rightarrow>
                 (push_dispatch
                    \<lparr>dr_module = source, dr_origin = System, dr_cause = cause,
                     dr_payload = wire_encode (k_ack K) ack, dr_emitted_msgs = 0,
                     dr_emitted_events = length (ef_events eff), dr_output = None,
                     dr_assigned = ef_assigned eff\<rparr> (ef_events eff) (fst res), Inr ())))
   }"

text \<open>One step of a unit, as it is run and re-run.\<close>

datatype step = StepOp origin cause msg | StepAck module_id cause ack

definition run_step ::
  "'m kernel \<Rightarrow> clock \<Rightarrow> u64 \<Rightarrow> u64 \<Rightarrow> step \<Rightarrow> 'm run \<Rightarrow> ('m run \<times> (error + unit)) obs" where
  "run_step K clk height consensus_time s r =
     (case s of
        StepOp origin cause msg \<Rightarrow>
          drain_queue K clk height consensus_time 0 [(origin, cause, msg)] r
      | StepAck source cause ack \<Rightarrow> run_ack K height consensus_time source cause ack r)"

fun run_steps ::
  "'m kernel \<Rightarrow> clock \<Rightarrow> u64 \<Rightarrow> u64 \<Rightarrow> step list \<Rightarrow> 'm run \<Rightarrow> ('m run \<times> (error + unit)) obs" where
  "run_steps K clk height consensus_time [] r = State_Monad.return (r, Inr ())"
| "run_steps K clk height consensus_time (s # ss) r = do {
     res \<leftarrow> run_step K clk height consensus_time s r;
     case snd res of
       Inl e \<Rightarrow> State_Monad.return (fst res, Inl e)
     | Inr _ \<Rightarrow> run_steps K clk height consensus_time ss (fst res)
   }"

end
