(* ===== verification/Host_Root.thy ===== *)
theory Host_Root
  imports Host_Dispatch Codec
begin

text \<open>
  The root-hash composition of the host (\<^verbatim>\<open>global_root\<close>, \<^verbatim>\<open>module_commitment\<close>,
  \<^verbatim>\<open>global_root_of\<close>): every module's id, state root and deployment hash in one digest. The
  digest function is an argument. The lemmas show that the composition does not depend on the
  order the modules come in and that its preimage determines them.
\<close>

definition module_commitment :: "(bytes \<Rightarrow> bytes) \<Rightarrow> state_root \<Rightarrow> bytes option \<Rightarrow> state_root" where
  "module_commitment sha root code_hash =
     (case code_hash of
        None \<Rightarrow> root
      | Some ch \<Rightarrow>
          sha (as_bytes ''ducktape.module'' @ u64_le (of_nat (length ch)) @ ch @ root))"

definition root_entry :: "module_id \<times> state_root \<Rightarrow> bytes" where
  "root_entry e = u64_le (of_nat (length (fst e))) @ as_bytes (fst e) @ snd e"

definition root_preimage :: "(module_id \<times> state_root) list \<Rightarrow> bytes" where
  "root_preimage pairs =
     u64_le (of_nat (length pairs)) @ concat (map root_entry (sort_key fst pairs))"

definition global_root_of :: "(bytes \<Rightarrow> bytes) \<Rightarrow> (module_id \<times> state_root) list \<Rightarrow> state_root" where
  "global_root_of sha pairs = sha (root_preimage pairs)"

definition global_root :: "(bytes \<Rightarrow> bytes) \<Rightarrow> 'm module_ops \<Rightarrow> 'm list \<Rightarrow> state_root" where
  "global_root sha ops mods =
     global_root_of sha
       (map (\<lambda>m. (mod_id ops m, module_commitment sha (mod_root ops m) (mod_code_hash ops m))) mods)"

section \<open>What the root binds\<close>

definition module_preimage :: "state_root \<Rightarrow> bytes \<Rightarrow> bytes" where
  "module_preimage root ch = as_bytes ''ducktape.module'' @ u64_le (of_nat (length ch)) @ ch @ root"

definition module_facts :: "'m module_ops \<Rightarrow> 'm \<Rightarrow> module_id \<times> state_root \<times> bytes option" where
  "module_facts ops m = (mod_id ops m, mod_root ops m, mod_code_hash ops m)"

text \<open>A registry of deployed modules: distinct ids, code hashes present, sizes of the machine.\<close>

definition deployed :: "'m module_ops \<Rightarrow> 'm list \<Rightarrow> bool" where
  "deployed ops mods \<longleftrightarrow>
     distinct (map (mod_id ops) mods) \<and> length mods < 2 ^ 64 \<and>
     (\<forall>m\<in>set mods. length (mod_id ops m) < 2 ^ 64 \<and> length (mod_root ops m) = ROOT_LEN \<and>
        (\<exists>ch. mod_code_hash ops m = Some ch \<and> length ch < 2 ^ 64))"

definition commitments ::
  "(bytes \<Rightarrow> bytes) \<Rightarrow> 'm module_ops \<Rightarrow> 'm list \<Rightarrow> (module_id \<times> state_root) list" where
  "commitments sha ops mods =
     map (\<lambda>m. (mod_id ops m, module_commitment sha (mod_root ops m) (mod_code_hash ops m))) mods"

text \<open>Everything the composition hashes.\<close>

definition hashed :: "(bytes \<Rightarrow> bytes) \<Rightarrow> 'm module_ops \<Rightarrow> 'm list \<Rightarrow> bytes set" where
  "hashed sha ops mods =
     insert (root_preimage (commitments sha ops mods))
       {module_preimage (mod_root ops m) ch | m ch. m \<in> set mods \<and> mod_code_hash ops m = Some ch}"

lemma sort_key_set_eq:
  fixes xs ys :: "(module_id \<times> state_root) list"
  assumes "set xs = set ys" and "distinct (map fst xs)" and "distinct (map fst ys)"
  shows "sort_key fst xs = sort_key fst ys"
proof -
  have inv: "bt_inv (sort_key fst zs)" and m: "map_of (sort_key fst zs) = map_of zs"
    if "distinct (map fst zs)" for zs :: "(module_id \<times> state_root) list"
  proof -
    have d: "distinct (map fst (sort_key fst zs))" using that by (simp add: distinct_map)
    then show "bt_inv (sort_key fst zs)"
      unfolding bt_inv_def strict_sorted_iff by simp
    show "map_of (sort_key fst zs) = map_of zs"
      using map_of_inject_set [OF d that] by simp
  qed
  have "map_of xs = map_of ys" using map_of_inject_set [OF assms(2,3)] assms(1) by simp
  then show ?thesis by (intro bt.entries_ext) (simp_all add: inv m assms)
qed

lemma root_entry_split:
  assumes "root_entry a @ xs = root_entry b @ ys"
    and "length (fst a) < 2 ^ 64" and "length (fst b) < 2 ^ 64"
    and "length (snd a) = ROOT_LEN" and "length (snd b) = ROOT_LEN"
  shows "a = b" and "xs = ys"
proof -
  from assms(1) have "length (fst a) = length (fst b)"
    and rest: "as_bytes (fst a) @ snd a @ xs = as_bytes (fst b) @ snd b @ ys"
    using assms(2,3) by (simp_all add: root_entry_def append_eq_append_conv u64_le_inj of_nat_u64_inj)
  with assms(4,5) have "as_bytes (fst a) = as_bytes (fst b) \<and> snd a = snd b \<and> xs = ys"
    by (simp add: append_eq_append_conv)
  then show "a = b" "xs = ys" by (simp_all add: prod_eq_iff as_bytes_inj)
qed

lemma root_entries_inj:
  assumes "concat (map root_entry xs) = concat (map root_entry ys)" and "length xs = length ys"
    and "\<forall>e\<in>set xs \<union> set ys. length (fst e) < 2 ^ 64 \<and> length (snd e) = ROOT_LEN"
  shows "xs = ys"
  using assms
proof (induction xs arbitrary: ys)
  case (Cons x xs)
  then obtain y ys' where ys: "ys = y # ys'" by (cases ys) auto
  from Cons.prems(1) ys
  have eq: "root_entry x @ concat (map root_entry xs) = root_entry y @ concat (map root_entry ys')"
    by simp
  have "x = y" "concat (map root_entry xs) = concat (map root_entry ys')"
    using root_entry_split [OF eq] Cons.prems(3) by (simp_all add: ys)
  with Cons.IH [of ys'] Cons.prems show ?case by (simp add: ys)
qed simp

lemma root_preimage_iff:
  assumes "\<forall>e\<in>set xs \<union> set ys. length (fst e) < 2 ^ 64 \<and> length (snd e) = ROOT_LEN"
    and "length xs < 2 ^ 64" and "length ys < 2 ^ 64"
    and "distinct (map fst xs)" and "distinct (map fst ys)"
  shows "root_preimage xs = root_preimage ys \<longleftrightarrow> set xs = set ys"
proof
  assume "root_preimage xs = root_preimage ys"
  then have "length xs = length ys"
    and "concat (map root_entry (sort_key fst xs)) = concat (map root_entry (sort_key fst ys))"
    using assms(2,3) by (simp_all add: root_preimage_def append_eq_append_conv u64_le_inj of_nat_u64_inj)
  then have "sort_key fst xs = sort_key fst ys"
    using assms(1) by (intro root_entries_inj) simp_all
  then show "set xs = set ys" by (metis set_sort)
next
  assume eq: "set xs = set ys"
  then have "length xs = length ys" using assms(4,5) by (metis distinct_card distinct_map)
  with sort_key_set_eq [OF eq assms(4,5)] show "root_preimage xs = root_preimage ys"
    by (simp add: root_preimage_def)
qed

lemma module_preimage_inj:
  assumes "module_preimage r c = module_preimage r' c'"
    and "length c < 2 ^ 64" and "length c' < 2 ^ 64"
  shows "r = r' \<and> c = c'"
  using assms by (auto simp: module_preimage_def append_eq_append_conv u64_le_inj of_nat_u64_inj)

lemma module_commitment_Some: "module_commitment sha r (Some ch) = sha (module_preimage r ch)"
  by (simp add: module_commitment_def module_preimage_def)

text \<open>
  C10: the root-hash binds the registry. For two registries of deployed modules and a digest that
  has 32 bytes and no collision among the strings the compositions hash, the root-hashes are equal
  exactly when the registries have the same modules, that is the same ids with the same state
  roots and the same deployment hashes, in whatever order they come.
\<close>

theorem root_hash_binds:
  assumes "deployed ops A" and "deployed ops B"
    and "inj_on sha (hashed sha ops A \<union> hashed sha ops B)"
    and "\<And>x. length (sha x) = ROOT_LEN"
  shows "global_root sha ops A = global_root sha ops B \<longleftrightarrow>
         module_facts ops ` set A = module_facts ops ` set B"
proof -
  let ?c = "\<lambda>M. commitments sha ops M"
  let ?f = "\<lambda>m. (mod_id ops m, module_commitment sha (mod_root ops m) (mod_code_hash ops m))"
  have entry: "length (fst e) < 2 ^ 64 \<and> length (snd e) = ROOT_LEN"
    if "e \<in> set (?c M)" "deployed ops M" for e M
    using that assms(4) by (auto simp: commitments_def deployed_def module_commitment_Some)
  have d: "distinct (map fst (?c M))" "length (?c M) < 2 ^ 64" if "deployed ops M" for M
    using that by (simp_all add: commitments_def deployed_def o_def)
  have "global_root sha ops A = global_root sha ops B \<longleftrightarrow> root_preimage (?c A) = root_preimage (?c B)"
    unfolding global_root_def global_root_of_def commitments_def [symmetric]
    by (rule inj_on_eq_iff [OF assms(3)]) (simp_all add: hashed_def)
  also have "\<dots> \<longleftrightarrow> set (?c A) = set (?c B)"
    using entry d assms(1,2) by (intro root_preimage_iff) auto
  also have "\<dots> \<longleftrightarrow> ?f ` set A = ?f ` set B" by (simp add: commitments_def)
  also have "\<dots> \<longleftrightarrow> module_facts ops ` set A = module_facts ops ` set B"
  proof -
    have same: "?f m = ?f m' \<longleftrightarrow> module_facts ops m = module_facts ops m'"
      if m: "m \<in> set A \<union> set B" "m' \<in> set A \<union> set B" for m m'
    proof -
      obtain ch ch' where ch: "mod_code_hash ops m = Some ch" "length ch < 2 ^ 64"
        "mod_code_hash ops m' = Some ch'" "length ch' < 2 ^ 64"
        using m assms(1,2) unfolding deployed_def by blast
      have "module_preimage (mod_root ops m) ch \<in> hashed sha ops A \<union> hashed sha ops B"
        "module_preimage (mod_root ops m') ch' \<in> hashed sha ops A \<union> hashed sha ops B"
        using m ch by (auto simp: hashed_def)
      then have "sha (module_preimage (mod_root ops m) ch) = sha (module_preimage (mod_root ops m') ch')
          \<longleftrightarrow> mod_root ops m = mod_root ops m' \<and> ch = ch'"
        using assms(3) module_preimage_inj [OF _ ch(2,4)] by (metis inj_on_eq_iff)
      then show ?thesis by (simp add: module_facts_def module_commitment_Some ch)
    qed
    have sub: "?f ` X \<subseteq> ?f ` Y \<longleftrightarrow> module_facts ops ` X \<subseteq> module_facts ops ` Y"
      if "X \<subseteq> set A \<union> set B" "Y \<subseteq> set A \<union> set B" for X Y
      using that same unfolding image_subset_iff image_iff by (smt (verit) subset_iff)
    show ?thesis using sub [of "set A" "set B"] sub [of "set B" "set A"]
      by (auto simp: set_eq_subset)
  qed
  finally show ?thesis .
qed

text \<open>Two deployments of one module in different states, and a digest that separates what they hash.\<close>

definition demo_deploy :: "byte module_ops" where
  "demo_deploy = undefined\<lparr>mod_id := (\<lambda>_. ''kv''), mod_root := (\<lambda>b. replicate 31 0 @ [b]),
     mod_code_hash := (\<lambda>_. Some [9])\<rparr>"

definition demo_digest :: "bytes \<Rightarrow> bytes" where
  "demo_digest bs = replicate 31 0 @ [last bs + of_nat (length bs)]"

theorem root_hash_binds_witness:
  "global_root demo_digest demo_deploy [1] \<noteq> global_root demo_digest demo_deploy [2]"
proof -
  have h: "hashed demo_digest demo_deploy [b] =
      {root_preimage [(''kv'', demo_digest (module_preimage (replicate 31 0 @ [b]) [9]))],
       module_preimage (replicate 31 0 @ [b]) [9]}" for b
    by (auto simp: hashed_def demo_deploy_def commitments_def module_commitment_def module_preimage_def)
  have p: "demo_digest (module_preimage (replicate 31 0 @ [b]) [9]) = replicate 31 0 @ [b + 56]" for b
    by (simp add: demo_digest_def module_preimage_def)
  have r: "demo_digest (root_preimage [(''kv'', replicate 31 0 @ [b])]) = replicate 31 0 @ [b + 50]" for b
    by (simp add: demo_digest_def root_preimage_def root_entry_def)
  have "inj_on demo_digest (hashed demo_digest demo_deploy [1] \<union> hashed demo_digest demo_deploy [2])"
    unfolding h by (simp add: inj_on_def p r)
  moreover have "deployed demo_deploy [b]" for b
    by (simp add: deployed_def demo_deploy_def ROOT_LEN_def)
  ultimately have "global_root demo_digest demo_deploy [1] = global_root demo_digest demo_deploy [2] \<longleftrightarrow>
      module_facts demo_deploy ` set [1] = module_facts demo_deploy ` set [2]"
    by (intro root_hash_binds) (simp_all add: demo_digest_def ROOT_LEN_def)
  then show ?thesis by (simp add: module_facts_def demo_deploy_def)
qed

end
