(* ===== verification/Host_Drain.thy ===== *)
theory Host_Drain
  imports Host_Dispatch
begin

text \<open>
  The meaning of a drain. It is transparent: result and trace are the same under every observer
  that is ready for the trace, so a replay of a recorded trace reproduces the live run. Its
  outputs are only appended to, and do not influence the run. On a registry of lawful modules it
  changes only the modules it touches, and of those only what is staged.
\<close>

section \<open>Transparency\<close>

lemma transparent_if [intro]: "transparent a \<Longrightarrow> transparent b \<Longrightarrow> transparent (if c then a else b)"
  by simp

lemma transparent_sum [intro]:
  "(\<And>e. transparent (f e)) \<Longrightarrow> (\<And>x. transparent (g x)) \<Longrightarrow> transparent (case_sum f g s)"
  by (cases s) auto

lemma transparent_option [intro]:
  "transparent a \<Longrightarrow> (\<And>x. transparent (f x)) \<Longrightarrow> transparent (case_option a f x)"
  by (cases x) auto

lemma transparent_host_run [intro]: "transparent (host_run ops snapshot registry env t)"
  by (induction t) auto

lemma transparent_observed_query [intro]: "transparent (observed_query ops clk registry m req)"
  by (auto simp: observed_query_def)

lemma transparent_valset_tier [intro]:
  "transparent (valset_tier_holds K clk registry submitter with_residents)"
  unfolding valset_tier_holds_def by (intro transparent_bind transparent_if) auto

lemma transparent_identity [intro]: "transparent (identity_account_holds K clk registry submitter)"
  unfolding identity_account_holds_def by (intro transparent_bind) auto

lemma transparent_standing [intro]: "transparent (standing_holds K clk registry required origin)"
  by (cases required; cases origin) (auto simp: standing_holds_def)

lemma transparent_gate [intro]: "transparent (require_submit_standing K clk registry origin target)"
  unfolding require_submit_standing_def by (intro transparent_bind transparent_option) auto

lemma transparent_with_module [intro]: "transparent (with_module K env code r)"
  unfolding with_module_def Let_def by (intro transparent_bind transparent_option) auto

lemma transparent_execute_one [intro]:
  "transparent (execute_one K clk height consensus_time origin cause msg r)"
  unfolding execute_one_def Let_def
  by (intro transparent_bind transparent_sum) (auto split: origin.split)

lemma transparent_acknowledge_one [intro]:
  "transparent (acknowledge_one K height consensus_time source cause ack r)"
  unfolding acknowledge_one_def Let_def by (intro transparent_bind) auto

lemma transparent_observed_dispatch [intro]:
  assumes "transparent exec"
  shows "transparent (observed_dispatch m origin cause inp exec r)"
  unfolding observed_dispatch_def Let_def using assms
  by (intro transparent_bind) (auto split: plan_result.split)

text \<open>Induction on the budget a drain has left.\<close>

lemma drain_induct:
  assumes "\<And>n queue r. (n < MAX_DISPATCHES \<Longrightarrow> \<forall>q r'. P (n + 1) q r') \<Longrightarrow> P n queue r"
  shows "P n queue r"
proof (induction "MAX_DISPATCHES - n" arbitrary: n queue r rule: less_induct)
  case less
  show ?case
    by (rule assms) (use less in simp)
qed

lemma transparent_drain [intro]:
  "transparent (drain_queue K clk height consensus_time n queue r)"
proof (induction n queue r rule: drain_induct)
  case (1 n queue r)
  show ?case
  proof (cases queue)
    case (Cons q rest)
    obtain origin cause msg where q: "q = (origin, cause, msg)" by (cases q)
    show ?thesis
    proof (cases "n < MAX_DISPATCHES")
      case True
      with 1 have IH: "transparent (drain_queue K clk height consensus_time (n + 1) q' r')" for q' r'
        by blast
      show ?thesis
        unfolding Cons q drain_queue.simps
        by (intro transparent_if transparent_bind transparent_sum transparent_return
            transparent_observed_dispatch transparent_execute_one IH)
    qed (auto simp: Cons q)
  qed auto
qed

lemma transparent_run_ack [intro]:
  "transparent (run_ack K height consensus_time source cause ack r)"
  unfolding run_ack_def by (intro transparent_bind) auto

lemma transparent_run_step [intro]: "transparent (run_step K clk height consensus_time s r)"
  by (cases s) (auto simp: run_step_def)

lemma transparent_run_steps [intro]: "transparent (run_steps K clk height consensus_time ss r)"
  by (induction ss arbitrary: r) auto

section \<open>Outputs are only appended to\<close>

definition lift_run :: "module_id fset \<Rightarrow> event list \<Rightarrow> dispatch_record list \<Rightarrow> 'm run \<Rightarrow> 'm run" where
  "lift_run T E D r =
     r\<lparr>run_touched := T |\<union>| run_touched r, run_events := E @ run_events r,
       run_dispatches := D @ run_dispatches r\<rparr>"

definition lifted ::
  "module_id fset \<Rightarrow> event list \<Rightarrow> dispatch_record list \<Rightarrow> ('m run \<times> 'a) obs \<Rightarrow> ('m run \<times> 'a) obs" where
  "lifted T E D m = State_Monad.bind m (\<lambda>p. State_Monad.return (lift_run T E D (fst p), snd p))"

lemma lift_run_simps [simp]:
  "run_registry (lift_run T E D r) = run_registry r"
  "run_touched (lift_run T E D r) = T |\<union>| run_touched r"
  "run_events (lift_run T E D r) = E @ run_events r"
  "run_dispatches (lift_run T E D r) = D @ run_dispatches r"
  by (simp_all add: lift_run_def)

lemma lifted_return [simp]:
  "lifted T E D (State_Monad.return p) = State_Monad.return (lift_run T E D (fst p), snd p)"
  by (simp add: lifted_def)

lemma lifted_bind: "lifted T E D (State_Monad.bind m f) = State_Monad.bind m (\<lambda>x. lifted T E D (f x))"
  by (simp add: lifted_def)

lemma bind_lifted:
  "State_Monad.bind (lifted T E D m) f =
   State_Monad.bind m (\<lambda>p. f (lift_run T E D (fst p), snd p))"
  by (simp add: lifted_def)

lemma lift_run_update:
  "(lift_run T E D r)\<lparr>run_registry := a, run_touched := finsert x (T |\<union>| run_touched r)\<rparr> =
   lift_run T E D (r\<lparr>run_registry := a, run_touched := finsert x (run_touched r)\<rparr>)"
  by (cases r) (simp add: lift_run_def)

lemma lift_with_module:
  "with_module K env code (lift_run T E D r) = lifted T E D (with_module K env code r)"
  by (auto simp: with_module_def lifted_bind Let_def lift_run_update split: option.split)

lemma lift_execute_one:
  "execute_one K clk h t origin cause msg (lift_run T E D r) =
   lifted T E D (execute_one K clk h t origin cause msg r)"
  by (cases origin)
    (simp_all add: execute_one_def lifted_bind Let_def lift_with_module bind_lifted
      sum.case_distrib [of "lifted T E D"] cong: sum.case_cong)

lemma lift_acknowledge_one:
  "acknowledge_one K h t source cause ack (lift_run T E D r) =
   lifted T E D (acknowledge_one K h t source cause ack r)"
  by (simp add: acknowledge_one_def lifted_bind Let_def lift_with_module bind_lifted)

lemma lift_observed_dispatch:
  assumes "exec' = lifted T E D exec"
  shows "observed_dispatch m origin cause inp exec' (lift_run T E D r) =
         lifted T E D (observed_dispatch m origin cause inp exec r)"
  unfolding assms
  by (simp add: observed_dispatch_def lifted_bind bind_lifted Let_def
      plan_result.case_distrib [of "lifted T E D"] cong: plan_result.case_cong option.case_cong)

lemma lift_push_dispatch:
  "push_dispatch d es (lift_run T E D r) = lift_run T E D (push_dispatch d es r)"
  by (simp add: push_dispatch_def lift_run_def)

lemma lift_drain:
  "drain_queue K clk h t n queue (lift_run T E D r) =
   lifted T E D (drain_queue K clk h t n queue r)"
proof (induction n queue r rule: drain_induct)
  case (1 n queue r)
  show ?case
  proof (cases queue)
    case (Cons q rest)
    obtain origin cause msg where q: "q = (origin, cause, msg)" by (cases q)
    show ?thesis
    proof (cases "n < MAX_DISPATCHES")
      case True
      with 1 have IH: "drain_queue K clk h t (Suc n) q' (lift_run T E D r') =
          lifted T E D (drain_queue K clk h t (Suc n) q' r')" for q' r'
        by simp
      show ?thesis
        by (simp add: Cons q lift_observed_dispatch [OF lift_execute_one] bind_lifted lifted_bind
            lift_push_dispatch IH sum.case_distrib [of "lifted T E D"] cong: sum.case_cong)
    qed (simp add: Cons q)
  qed simp
qed

lemma lift_run_ack:
  "run_ack K h t source cause ack (lift_run T E D r) = lifted T E D (run_ack K h t source cause ack r)"
  unfolding run_ack_def lift_observed_dispatch [OF lift_acknowledge_one] bind_lifted lifted_bind
  by (auto simp: lift_push_dispatch split: sum.split
      intro!: arg_cong2 [where f = State_Monad.bind] ext)

lemma lift_run_step:
  "run_step K clk h t s (lift_run T E D r) = lifted T E D (run_step K clk h t s r)"
  by (cases s) (simp_all add: run_step_def lift_drain lift_run_ack)

lemma lift_run_steps:
  "run_steps K clk h t ss (lift_run T E D r) = lifted T E D (run_steps K clk h t ss r)"
proof (induction ss arbitrary: r)
  case (Cons s ss)
  show ?case
    by (simp add: lift_run_step bind_lifted lifted_bind Cons.IH
        sum.case_distrib [of "lifted T E D"] cong: sum.case_cong)
qed simp

lemma lift_run_fresh:
  "r = lift_run (run_touched r) (run_events r) (run_dispatches r) (run_fresh (run_registry r))"
  by (simp add: lift_run_def run_fresh_def)

lemma run_steps_append:
  "run_steps K clk h t (ss @ ss') r =
   State_Monad.bind (run_steps K clk h t ss r) (\<lambda>res.
     case snd res of
       Inl e \<Rightarrow> State_Monad.return (fst res, Inl e)
     | Inr _ \<Rightarrow> run_steps K clk h t ss' (fst res))"
proof (induction ss arbitrary: r)
  case (Cons s ss)
  show ?case
    by (auto simp: Cons.IH split: sum.split intro!: arg_cong2 [where f = State_Monad.bind] ext)
qed simp

section \<open>What a drain leaves of the registry\<close>

text \<open>
  \<open>reg_frame base T a b\<close>: registry \<open>b\<close> has the modules of \<open>a\<close> with the same base, and outside
  \<open>T\<close> the very same modules.
\<close>

definition reg_frame ::
  "('m \<Rightarrow> 'm) \<Rightarrow> module_id fset \<Rightarrow> 'm registry \<Rightarrow> 'm registry \<Rightarrow> bool" where
  "reg_frame base T a b \<longleftrightarrow>
     (bt_inv a \<longrightarrow> bt_inv b) \<and>
     (\<forall>i. map_option base (map_of b i) = map_option base (map_of a i)) \<and>
     (\<forall>i. i |\<notin>| T \<longrightarrow> map_of b i = map_of a i)"

definition run_frame :: "('m \<Rightarrow> 'm) \<Rightarrow> 'm run \<Rightarrow> 'm run \<Rightarrow> bool" where
  "run_frame base r r' \<longleftrightarrow>
     run_touched r |\<subseteq>| run_touched r' \<and>
     reg_frame base (run_touched r') (run_registry r) (run_registry r')"

lemma reg_frame_refl [simp]: "reg_frame base T a a"
  by (simp add: reg_frame_def)

lemma reg_frame_trans:
  assumes "reg_frame base T a b" and "reg_frame base U b c"
  shows "reg_frame base (T |\<union>| U) a c"
  using assms unfolding reg_frame_def by auto

lemma reg_frame_mono: "reg_frame base T a b \<Longrightarrow> T |\<subseteq>| U \<Longrightarrow> reg_frame base U a b"
  unfolding reg_frame_def by blast

lemma run_frame_refl [simp]: "run_frame base r r"
  by (simp add: run_frame_def)

lemma run_frame_trans:
  assumes "run_frame base a b" and "run_frame base b c"
  shows "run_frame base a c"
proof -
  have "run_touched b |\<union>| run_touched c = run_touched c"
    using assms by (auto simp: run_frame_def)
  then show ?thesis
    using assms reg_frame_trans [of base "run_touched b" "run_registry a" "run_registry b"
        "run_touched c" "run_registry c"]
    by (auto simp: run_frame_def)
qed

lemma run_frame_push [simp]: "run_frame base r (push_dispatch d es r') = run_frame base r r'"
  by (simp add: run_frame_def push_dispatch_def)

lemma pred_state_bind:
  "pred_state Q m \<Longrightarrow> (\<And>x. Q x \<Longrightarrow> pred_state P (f x)) \<Longrightarrow> pred_state P (State_Monad.bind m f)"
  by (rule bind_predI, rule pred_stateI) (meson pred_stateD)

lemma pred_state_return [simp]: "pred_state P (State_Monad.return x) = P x"
proof
  show "pred_state P (State_Monad.return x) \<Longrightarrow> P x"
    using pred_state_run_state [of P "State_Monad.return x" undefined] by simp
  show "P x \<Longrightarrow> pred_state P (State_Monad.return x)"
    by (rule pred_stateI) simp
qed

lemma pred_state_True [simp]: "pred_state (\<lambda>_. True) m"
  by (rule pred_stateI) simp

lemma pred_state_anyway: "(\<And>x. pred_state P (f x)) \<Longrightarrow> pred_state P (State_Monad.bind m f)"
  by (rule pred_state_bind [of "\<lambda>_. True"]) simp_all

lemma host_run_leaf: "ctx_all P t \<Longrightarrow> pred_state P (host_run ops snapshot registry env t)"
proof (induction t)
  case (Query target req k)
  then show ?case by (auto intro!: pred_state_anyway)
next
  case (AskRoot target k)
  then show ?case by (auto intro!: pred_state_anyway)
qed simp

section \<open>How many dispatches a drain makes\<close>

lemma with_module_outputs:
  "pred_state (\<lambda>p. run_dispatches (fst p) = run_dispatches r) (with_module K env code r)"
  by (cases "map_of (run_registry r) (env_me env)")
    (auto simp: with_module_def Let_def intro!: pred_state_anyway)

lemma execute_one_outputs:
  "pred_state (\<lambda>p. run_dispatches (fst p) = run_dispatches r) (execute_one K clk h t origin cause msg r)"
  unfolding execute_one_def Let_def
  by (rule pred_state_anyway) (auto split: sum.split intro!: pred_state_bind [OF with_module_outputs])

lemma acknowledge_one_outputs:
  "pred_state (\<lambda>p. run_dispatches (fst p) = run_dispatches r) (acknowledge_one K h t source cause ack r)"
  unfolding acknowledge_one_def Let_def by (rule pred_state_bind [OF with_module_outputs]) simp

lemma observed_dispatch_outputs:
  assumes "pred_state (\<lambda>p. run_dispatches (fst p) = run_dispatches r) exec"
  shows "pred_state (\<lambda>p. run_dispatches (fst p) = run_dispatches r)
           (observed_dispatch m origin cause inp exec r)"
  unfolding observed_dispatch_def Let_def
  by (rule pred_state_anyway, rename_tac p, case_tac p)
    (auto intro!: pred_state_anyway pred_state_bind [OF assms])

text \<open>
  A drain that starts after \<open>n\<close> dispatches appends at most \<open>MAX_DISPATCHES - n\<close> records, and one
  that succeeds has at least one for every op it was given.
\<close>

lemma drain_count:
  "pred_state (\<lambda>p. \<exists>D. run_dispatches (fst p) = run_dispatches r @ D \<and>
       length D \<le> MAX_DISPATCHES - n \<and> (snd p = Inr () \<longrightarrow> length queue \<le> length D))
     (drain_queue K clk h t n queue r)"
proof (induction n queue r rule: drain_induct)
  case (1 n queue r)
  show ?case
  proof (cases queue)
    case (Cons q rest)
    obtain origin cause msg where q: "q = (origin, cause, msg)" by (cases q)
    show ?thesis
    proof (cases "n < MAX_DISPATCHES")
      case True
      have next_drain: "pred_state (\<lambda>p. \<exists>D. run_dispatches (fst p) = run_dispatches r @ D \<and>
            length D \<le> MAX_DISPATCHES - n \<and> (snd p = Inr () \<longrightarrow> Suc (length rest) \<le> length D))
          (drain_queue K clk h t (Suc n) (rest @ more) (push_dispatch d es r'))"
        if r': "run_dispatches r' = run_dispatches r" for more d es r'
      proof (rule pred_stateI)
        fix p ob ob'
        assume "run_state (drain_queue K clk h t (Suc n) (rest @ more) (push_dispatch d es r')) ob = (p, ob')"
        from pred_stateD [OF 1 [OF True, THEN spec, THEN spec] this [unfolded Suc_eq_plus1]]
        obtain D where "run_dispatches (fst p) = run_dispatches r' @ d # D"
          "length D \<le> MAX_DISPATCHES - Suc n" "snd p = Inr () \<longrightarrow> length (rest @ more) \<le> length D"
          by (auto simp: push_dispatch_def)
        with True r' show "\<exists>D. run_dispatches (fst p) = run_dispatches r @ D \<and>
            length D \<le> MAX_DISPATCHES - n \<and> (snd p = Inr () \<longrightarrow> Suc (length rest) \<le> length D)"
          by (intro exI [of _ "d # D"]) auto
      qed
      show ?thesis
        using True
        by (auto simp: Cons q split: sum.split intro!: next_drain
            pred_state_bind [OF observed_dispatch_outputs [OF execute_one_outputs]])
    qed (simp add: Cons q)
  qed simp
qed

lemma run_op_dispatches:
  assumes "run_state (run_steps K clk h t [StepOp origin cause msg] r) ob = ((r', Inr ()), ob')"
  shows "run_dispatches r' \<noteq> []"
proof -
  obtain p ob1 where d: "run_state (drain_queue K clk h t 0 [(origin, cause, msg)] r) ob = (p, ob1)"
    by fastforce
  then have "fst p = r'" "snd p = Inr ()"
    using assms by (auto simp: run_step_def split: sum.splits simp del: drain_queue.simps)
  with pred_stateD [OF drain_count d] show ?thesis by auto
qed

section \<open>Registries of lawful modules\<close>

locale host_laws = module_laws "k_ops K" base
  for K :: "'m kernel" and base :: "'m \<Rightarrow> 'm"
begin

lemma with_module_frame:
  assumes "\<And>me. ctx_all (\<lambda>out. base (out_module out) = base me) (code me)"
  shows "pred_state (\<lambda>p. run_frame base r (fst p)) (with_module K env code r)"
proof (cases "map_of (run_registry r) (env_me env)")
  case (Some me)
  show ?thesis
    unfolding with_module_def Some Let_def option.case
    by (rule pred_state_bind [OF host_run_leaf [OF assms]])
      (auto simp: run_frame_def reg_frame_def Some)
qed (simp add: with_module_def)

lemma execute_one_frame:
  "pred_state (\<lambda>p. run_frame base r (fst p)) (execute_one K clk h t origin cause msg r)"
  unfolding execute_one_def Let_def
proof (rule pred_state_anyway)
  fix gate
  show "pred_state (\<lambda>p. run_frame base r (fst p))
    (case gate of Inl e \<Rightarrow> State_Monad.return (r, Inl e)
     | Inr x \<Rightarrow> State_Monad.bind
         (with_module K \<lparr>env_height = h, env_consensus_time = t, env_origin = origin,
            env_me = msg_target msg, env_cause = cause\<rparr>
           (\<lambda>me. mod_execute (k_ops K) me \<lparr>env_height = h, env_consensus_time = t,
              env_origin = origin, env_me = msg_target msg, env_cause = cause\<rparr> msg) r)
         (\<lambda>res. State_Monad.return (fst res, and_then (snd res) op_effects)))"
    by (cases gate) (auto intro!: pred_state_bind [OF with_module_frame] execute_base)
qed

lemma acknowledge_one_frame:
  "pred_state (\<lambda>p. run_frame base r (fst p)) (acknowledge_one K h t source cause ack r)"
  unfolding acknowledge_one_def Let_def
  by (rule pred_state_bind [OF with_module_frame]) (auto intro: acknowledge_base)

lemma observed_dispatch_frame:
  assumes "pred_state (\<lambda>p. run_frame base r (fst p)) exec"
  shows "pred_state (\<lambda>p. run_frame base r (fst p)) (observed_dispatch m origin cause inp exec r)"
  unfolding observed_dispatch_def Let_def
  by (rule pred_state_anyway, rename_tac p, case_tac p)
    (auto intro!: pred_state_anyway pred_state_bind [OF assms])

lemma drain_frame:
  "pred_state (\<lambda>p. run_frame base r (fst p)) (drain_queue K clk h t n queue r)"
proof (induction n queue r rule: drain_induct)
  case (1 n queue r)
  show ?case
  proof (cases queue)
    case (Cons q rest)
    obtain origin cause msg where q: "q = (origin, cause, msg)" by (cases q)
    show ?thesis
    proof (cases "n < MAX_DISPATCHES")
      case True
      have IH: "pred_state (\<lambda>p. run_frame base r (fst p)) (drain_queue K clk h t (Suc n) q' r')"
        if "run_frame base r r'" for q' r'
        using 1 [OF True, rule_format, of r' q'] run_frame_trans [OF that]
        by (auto intro!: pred_stateI dest: pred_stateD)
      show ?thesis
        using True
        by (auto simp: Cons q split: sum.split
            intro!: pred_state_bind [OF observed_dispatch_frame [OF execute_one_frame]] IH)
    qed (simp add: Cons q)
  qed simp
qed

lemma run_ack_frame:
  "pred_state (\<lambda>p. run_frame base r (fst p)) (run_ack K h t source cause ack r)"
  unfolding run_ack_def
  by (rule pred_state_bind [OF observed_dispatch_frame [OF acknowledge_one_frame]])
    (auto split: sum.split)

lemma run_steps_frame:
  "pred_state (\<lambda>p. run_frame base r (fst p)) (run_steps K clk h t ss r)"
proof (induction ss arbitrary: r)
  case (Cons s ss)
  have step: "pred_state (\<lambda>p. run_frame base r (fst p)) (run_step K clk h t s r)"
    by (cases s) (simp_all add: run_step_def drain_frame run_ack_frame del: drain_queue.simps)
  have IH: "pred_state (\<lambda>p. run_frame base r (fst p)) (run_steps K clk h t ss r')"
    if "run_frame base r r'" for r'
    using Cons.IH [of r'] run_frame_trans [OF that] by (auto intro!: pred_stateI dest: pred_stateD)
  show ?case
    by (auto split: sum.split intro!: pred_state_bind [OF step] IH)
qed simp

end

end
