(* ===== verification/Host_Block.thy ===== *)
theory Host_Block
  imports Host_Drain Host_Root
begin

text \<open>
  The block engine of the host (\<^verbatim>\<open>crates/kernel/host/src/lib.rs\<close>, \<^verbatim>\<open>apply_block\<close> and what it
  calls): units, their isolation by rollback and replay, the prepared calls and deliveries with
  their finalizers, and the commit boundary.

  The state of a block is the pair of the registry and \<^verbatim>\<open>BlockRun\<close>; an operation that can fault
  returns the state it has reached and the fault. A fault stands for \<^verbatim>\<open>SubmitError\<close>, with the
  extra constructor \<open>SubmitPanicked\<close> for the places where the source panics (\<^verbatim>\<open>unwrap\<close>,
  \<^verbatim>\<open>expect\<close>, \<^verbatim>\<open>unreachable!\<close>, an index out of range). The pre-commit hook (\<^verbatim>\<open>CommitWitness\<close>) is
  an argument.
\<close>

section \<open>Outcomes and faults\<close>

datatype boundary_phase = PhaseCommit | PhaseAbort | PhasePrepare | PhaseWitness

record fatal_error =
  fe_module :: module_id
  fe_phase :: boundary_phase
  fe_source :: error

datatype submit_error = Rejected error | Fatal fatal_error | SubmitPanicked string

fun submit_rejected :: "submit_error \<Rightarrow> error option" where
  "submit_rejected (Rejected e) = Some e"
| "submit_rejected _ = None"

record prepared_call =
  pp_enqueued :: u64
  pp_id :: call_id
  pp_account :: account_number
  pp_generation :: u64
  pp_target :: module_id
  pp_payload :: bytes
  pp_cause :: cause

record prepared_delivery =
  pd_item :: item_ref
  pd_target :: module_id
  pd_payload :: bytes
  pd_cause :: cause

record prepared_work =
  pw_advance :: "msg option"
  pw_calls :: "prepared_call list"
  pw_deliveries :: "prepared_delivery list"

definition prepared_is_empty :: "prepared_work \<Rightarrow> bool" where
  "prepared_is_empty p = (pw_advance p = None \<and> pw_calls p = [] \<and> pw_deliveries p = [])"

datatype verdict = Admitted | Refused refusal

datatype member_outcome = MemberApplied "dispatch_record list" | MemberRejected string

datatype call_disposition =
    CallApplied
  | CallRejected string
  | CallRefused refusal
  | CallUnrepresentable attempt
  | CallNotFinalized string

record call_record =
  cr_enqueued :: u64
  cr_id :: call_id
  cr_disposition :: call_disposition
  cr_dispatches :: "dispatch_record list"

datatype delivery_disposition =
    DispApplied
  | DispFailed string
  | DispUnrepresentable
  | DispNotFinalized string

record delivery_record =
  de_item :: item_ref
  de_target :: module_id
  de_disposition :: delivery_disposition
  de_dispatches :: "dispatch_record list"

record batch_outcome =
  bo_root_hash :: state_root
  bo_members :: "member_outcome list"
  bo_calls :: "call_record list"
  bo_deliveries :: "delivery_record list"
  bo_events :: "event list"
  bo_system_dispatches :: "dispatch_record list"
  bo_prepared :: prepared_work
  bo_witness :: witness

definition internal_dispatches :: "batch_outcome \<Rightarrow> dispatch_record list" where
  "internal_dispatches out =
     concat (map cr_dispatches (bo_calls out)) @ concat (map de_dispatches (bo_deliveries out)) @
     bo_system_dispatches out"

definition ran_internal_work :: "batch_outcome \<Rightarrow> bool" where
  "ran_internal_work out =
     (list_ex (\<lambda>c. cr_dispatches c \<noteq> []) (bo_calls out) \<or>
      list_ex (\<lambda>d. de_dispatches d \<noteq> []) (bo_deliveries out) \<or>
      bo_system_dispatches out \<noteq> [])"

fun member_dispatches :: "member_outcome \<Rightarrow> dispatch_record list" where
  "member_dispatches (MemberApplied d) = d"
| "member_dispatches (MemberRejected reason) = []"

definition into_trace :: "batch_outcome \<Rightarrow> bool \<times> dispatch_record list" where
  "into_trace out =
     (ran_internal_work out \<or>
        list_ex (\<lambda>m. case m of MemberApplied _ \<Rightarrow> True | MemberRejected _ \<Rightarrow> False) (bo_members out),
      concat (map member_dispatches (bo_members out)) @ internal_dispatches out)"

record block_op =
  op_origin :: origin
  op_msg :: msg
  op_frame :: bytes

definition bare_op :: "origin \<Rightarrow> msg \<Rightarrow> block_op" where
  "bare_op origin msg = \<lparr>op_origin = origin, op_msg = msg, op_frame = replicate 32 0\<rparr>"

datatype admission = Batch | Sole

datatype slot = SlotMember nat | SlotCall nat | SlotDelivery nat

datatype resolved =
    ResolvedMember
  | ResolvedCall call_disposition
  | ResolvedDelivery delivery_disposition

record accepted_unit =
  au_slot :: slot
  au_resolved :: resolved
  au_steps :: "step list"
  au_events :: "event list"
  au_dispatches :: "dispatch_record list"
  au_entry :: nat

record block_run =
  br_height :: u64
  br_consensus_time :: u64
  br_touched :: "module_id fset"
  br_accepted :: "accepted_unit list"
  br_replays :: nat
  br_observer :: observing

datatype unit_verdict = Accepted accepted_unit | UnitRejected error | Unattempted

definition budget_exhausted :: "block_run \<Rightarrow> bool" where
  "budget_exhausted b = (br_replays b > MAX_BLOCK_REPLAYS)"

definition REPLAY_BUDGET_REASON :: string where
  "REPLAY_BUDGET_REASON = ''block replay budget exhausted''"

definition budget_reason :: string where
  "budget_reason = REPLAY_BUDGET_REASON @ '' ('' @ show_nat MAX_BLOCK_REPLAYS @ '')''"

definition prepare_fault :: "error \<Rightarrow> submit_error" where
  "prepare_fault e =
     Fatal \<lparr>fe_module = DISPATCH_MODULE_ID, fe_phase = PhasePrepare, fe_source = e\<rparr>"

definition witness_fault :: "divergence \<Rightarrow> submit_error" where
  "witness_fault d =
     Fatal \<lparr>fe_module = dg_module d, fe_phase = PhaseWitness,
            fe_source = ModuleError (''witness divergence: '' @ dg_reason d)\<rparr>"

definition authority_fault :: "error \<Rightarrow> submit_error" where
  "authority_fault e =
     Fatal \<lparr>fe_module = IDENTITY_MODULE_ID, fe_phase = PhasePrepare, fe_source = e\<rparr>"

section \<open>Boundary hooks\<close>

type_synonym 'm blk = "'m registry \<times> block_run"

text \<open>Abort every touched module, whatever fails, and report the first fault.\<close>

fun abort_loop ::
  "'m module_ops \<Rightarrow> 'm registry \<Rightarrow> fatal_error option \<Rightarrow> module_id list \<Rightarrow>
   'm registry \<times> fatal_error option" where
  "abort_loop ops registry fatal [] = (registry, fatal)"
| "abort_loop ops registry fatal (i # ids) =
     (case map_of registry i of
        None \<Rightarrow> abort_loop ops registry fatal ids
      | Some m \<Rightarrow>
          (case mod_abort_block ops m of
             (m', Inr _) \<Rightarrow> abort_loop ops (bt_insert i m' registry) fatal ids
           | (m', Inl source) \<Rightarrow>
               abort_loop ops (bt_insert i m' registry)
                 (case fatal of
                    Some f \<Rightarrow> Some f
                  | None \<Rightarrow> Some \<lparr>fe_module = i, fe_phase = PhaseAbort, fe_source = source\<rparr>) ids))"

definition abort_all ::
  "'m module_ops \<Rightarrow> 'm registry \<Rightarrow> module_id fset \<Rightarrow> 'm registry \<times> (submit_error + unit)" where
  "abort_all ops registry touched =
     (case abort_loop ops registry None (sorted_list_of_fset touched) of
        (registry', Some f) \<Rightarrow> (registry', Inl (Fatal f))
      | (registry', None) \<Rightarrow> (registry', Inr ()))"

text \<open>\<^verbatim>\<open>self.abort_all(&mut block.touched)\<close>: the set is empty afterwards.\<close>

definition abort_stage :: "'m module_ops \<Rightarrow> 'm blk \<Rightarrow> 'm blk \<times> (submit_error + unit)" where
  "abort_stage ops c =
     (case abort_all ops (fst c) (br_touched (snd c)) of
        (registry, res) \<Rightarrow> ((registry, (snd c)\<lparr>br_touched := {||}\<rparr>), res))"

fun commit_loop ::
  "'m module_ops \<Rightarrow> module_id fset option \<Rightarrow> 'm registry \<Rightarrow> module_id list \<Rightarrow>
   'm registry \<times> (submit_error + unit)" where
  "commit_loop ops commit_only registry [] = (registry, Inr ())"
| "commit_loop ops commit_only registry (i # ids) =
     (case map_of registry i of
        None \<Rightarrow> commit_loop ops commit_only registry ids
      | Some m \<Rightarrow>
          if (case commit_only of None \<Rightarrow> True | Some only \<Rightarrow> i |\<in>| only) then
            (case mod_commit_block ops m of
               (m', Inr _) \<Rightarrow> commit_loop ops commit_only (bt_insert i m' registry) ids
             | (m', Inl source) \<Rightarrow>
                 (bt_insert i m' registry,
                  Inl (Fatal \<lparr>fe_module = i, fe_phase = PhaseCommit, fe_source = source\<rparr>)))
          else
            (case mod_abort_block ops m of
               (m', Inr _) \<Rightarrow> commit_loop ops commit_only (bt_insert i m' registry) ids
             | (m', Inl source) \<Rightarrow>
                 (bt_insert i m' registry,
                  Inl (Fatal \<lparr>fe_module = i, fe_phase = PhaseAbort, fe_source = source\<rparr>))))"

definition commit_boundary ::
  "'m module_ops \<Rightarrow> 'm registry \<Rightarrow> module_id fset \<Rightarrow> module_id fset option \<Rightarrow>
   'm registry \<times> (submit_error + unit)" where
  "commit_boundary ops registry touched commit_only =
     commit_loop ops commit_only registry (sorted_list_of_fset touched)"

section \<open>Units\<close>

definition unit_module :: "accepted_unit \<Rightarrow> module_id" where
  "unit_module u =
     (case au_steps u of
        [] \<Rightarrow> []
      | StepOp origin cause msg # _ \<Rightarrow> msg_target msg
      | StepAck source cause ack # _ \<Rightarrow> source)"

text \<open>
  Run steps on the block's stage: what they reach is part of the stage from here on.
\<close>

definition stage_steps ::
  "'m kernel \<Rightarrow> clock \<Rightarrow> step list \<Rightarrow> 'm blk \<Rightarrow> 'm blk \<times> 'm run \<times> (error + unit)" where
  "stage_steps K clk ss c =
     (let b = snd c
      in case run_state (run_steps K clk (br_height b) (br_consensus_time b) ss (run_fresh (fst c)))
                (br_observer b) of
           ((r, res), ob) \<Rightarrow>
             ((run_registry r,
               b\<lparr>br_observer := ob, br_touched := br_touched b |\<union>| run_touched r\<rparr>), r, res))"

definition check_witness :: "'m module_ops \<Rightarrow> 'm blk \<Rightarrow> 'm blk \<times> (submit_error + unit)" where
  "check_witness ops c =
     (case ob_divergence (br_observer (snd c)) of
        None \<Rightarrow> (c, Inr ())
      | Some d \<Rightarrow> st_then (abort_stage ops c) (\<lambda>c' _. (c', Inl (witness_fault d))))"

definition set_accepted :: "accepted_unit list \<Rightarrow> 'm blk \<Rightarrow> 'm blk" where
  "set_accepted us c = (fst c, (snd c)\<lparr>br_accepted := us\<rparr>)"

fun replay_loop ::
  "'m kernel \<Rightarrow> clock \<Rightarrow> 'm blk \<Rightarrow> accepted_unit list \<Rightarrow> accepted_unit list \<Rightarrow>
   'm blk \<times> (submit_error + unit)" where
  "replay_loop K clk c replayed [] = (set_accepted replayed c, Inr ())"
| "replay_loop K clk c replayed (u # us) =
     (let c0 = (fst c, (snd c)\<lparr>br_observer :=
            snd (run_state (resume (au_entry u)) (br_observer (snd c)))\<rparr>)
      in case stage_steps K clk (au_steps u) c0 of
           (c1, r, res) \<Rightarrow>
             (case ob_divergence (br_observer (snd c1)) of
                Some d \<Rightarrow>
                  st_then (abort_stage (k_ops K) (set_accepted (replayed @ u # us) c1))
                    (\<lambda>c' _. (c', Inl (witness_fault d)))
              | None \<Rightarrow>
                  (case res of
                     Inl re \<Rightarrow>
                       (set_accepted (replayed @ u # us) c1,
                        Inl (Fatal \<lparr>fe_module = unit_module u, fe_phase = PhaseAbort,
                               fe_source = ModuleError
                                 (''non-deterministic reject replaying accepted unit during '' @
                                  ''per-unit isolation: '' @ error_to_string re)\<rparr>))
                   | Inr _ \<Rightarrow>
                       replay_loop K clk c1
                         (replayed @ [u\<lparr>au_events := run_events r, au_dispatches := run_dispatches r\<rparr>])
                         us)))"

definition replay_accepted :: "'m kernel \<Rightarrow> clock \<Rightarrow> 'm blk \<Rightarrow> 'm blk \<times> (submit_error + unit)" where
  "replay_accepted K clk c = replay_loop K clk (set_accepted [] c) [] (br_accepted (snd c))"

definition isolate :: "'m kernel \<Rightarrow> clock \<Rightarrow> 'm blk \<Rightarrow> 'm blk \<times> (submit_error + unit)" where
  "isolate K clk c =
     st_then (abort_stage (k_ops K) c) (\<lambda>c1 _.
     st_then (replay_accepted K clk c1) (\<lambda>c2 _.
       ((fst c2, (snd c2)\<lparr>br_replays := br_replays (snd c2) + 1\<rparr>), Inr ())))"

definition run_unit ::
  "'m kernel \<Rightarrow> clock \<Rightarrow> step list \<Rightarrow> 'm blk \<Rightarrow> 'm blk \<times> (submit_error + unit_verdict)" where
  "run_unit K clk ss c =
     (if budget_exhausted (snd c) then (c, Inr Unattempted)
      else
        (case run_state begin_unit (br_observer (snd c)) of
           (entry, ob) \<Rightarrow>
             (case stage_steps K clk ss (fst c, (snd c)\<lparr>br_observer := ob\<rparr>) of
                (c1, r, res) \<Rightarrow>
                  st_then (check_witness (k_ops K) c1) (\<lambda>c2 _.
                    (case res of
                       Inr _ \<Rightarrow>
                         (c2, Inr (Accepted
                            \<lparr>au_slot = SlotMember 0, au_resolved = ResolvedMember, au_steps = ss,
                             au_events = run_events r, au_dispatches = run_dispatches r,
                             au_entry = entry\<rparr>))
                     | Inl reason \<Rightarrow>
                         if run_touched r \<noteq> {||}
                         then st_then (isolate K clk c2) (\<lambda>c3 _. (c3, Inr (UnitRejected reason)))
                         else (c2, Inr (UnitRejected reason)))))))"

definition extend_unit ::
  "'m kernel \<Rightarrow> clock \<Rightarrow> accepted_unit \<Rightarrow> step list \<Rightarrow> 'm blk \<Rightarrow>
   'm blk \<times> (submit_error + (string + accepted_unit))" where
  "extend_unit K clk u ss c =
     (case stage_steps K clk ss c of
        (c1, r, res) \<Rightarrow>
          st_then (check_witness (k_ops K) c1) (\<lambda>c2 _.
            (case res of
               Inr _ \<Rightarrow>
                 (c2, Inr (Inr (u\<lparr>au_steps := au_steps u @ ss,
                                  au_events := au_events u @ run_events r,
                                  au_dispatches := au_dispatches u @ run_dispatches r\<rparr>)))
             | Inl reason \<Rightarrow>
                 st_then (isolate K clk c2) (\<lambda>c3 _. (c3, Inr (Inl (error_to_string reason)))))))"

text \<open>\<^verbatim>\<open>unit.slot = ..; unit.resolved = ..; block.accepted.push(unit)\<close>.\<close>

definition accept_as :: "slot \<Rightarrow> resolved \<Rightarrow> accepted_unit \<Rightarrow> 'm blk \<Rightarrow> 'm blk" where
  "accept_as slot resolved u c =
     set_accepted (br_accepted (snd c) @ [u\<lparr>au_slot := slot, au_resolved := resolved\<rparr>]) c"

section \<open>Calls\<close>

text \<open>The authority a queued call runs under, from the account read of its unit.\<close>

definition account_verdict :: "prepared_call \<Rightarrow> account_view option \<Rightarrow> verdict" where
  "account_verdict call view =
     (case view of
        None \<Rightarrow> Refused NotAProgram
      | Some v \<Rightarrow>
          (case av_control v of
             Keys \<Rightarrow> Refused NotAProgram
           | RevokedControl _ \<Rightarrow> Refused RefusedRevoked
           | ProgramControl controller executor generation standing \<Rightarrow>
               if executor \<noteq> ci_requester (pp_id call) then Refused WrongExecutor
               else if generation \<noteq> pp_generation call then Refused StaleGeneration
               else (case standing of
                       Active \<Rightarrow> Admitted
                     | Suspended \<Rightarrow> Refused RefusedSuspended)))"

definition authority_of_answer ::
  "identity_wires \<Rightarrow> prepared_call \<Rightarrow> error + bytes \<Rightarrow> error + verdict" where
  "authority_of_answer I call answer =
     (case answer of
        Inl (UnknownModule _) \<Rightarrow> Inr (Refused NotAProgram)
      | Inl e \<Rightarrow> Inl (ModuleError (''identity: account read: '' @ error_to_string e))
      | Inr b \<Rightarrow>
          (case wire_decode (iw_reply I) b of
             Inr (IdAccount view) \<Rightarrow> Inr (account_verdict call view)
           | Inr other \<Rightarrow>
               Inl (ModuleError (''identity: account read answered '' @ iw_debug_reply I other))
           | Inl e \<Rightarrow> Inl (ModuleError (''identity: account read: '' @ e))))"

definition call_authority ::
  "'m kernel \<Rightarrow> clock \<Rightarrow> 'm registry \<Rightarrow> prepared_call \<Rightarrow> (error + verdict) obs" where
  "call_authority K clk registry call = do {
     answer \<leftarrow> observed_query (k_ops K) clk registry IDENTITY_MODULE_ID
                 (wire_encode (iw_query (k_identity K)) (IdGet (pp_account call)));
     State_Monad.return (authority_of_answer (k_identity K) call answer)
   }"

definition complete_call_step :: "'m kernel \<Rightarrow> prepared_call \<Rightarrow> call_outcome \<Rightarrow> step" where
  "complete_call_step K call outcome =
     StepOp System (pp_cause call)
       \<lparr>msg_target = DISPATCH_MODULE_ID,
        msg_payload = wire_encode (dw_msg (k_dispatch K))
          (CompleteCall (pp_enqueued call) (pp_id call) outcome)\<rparr>"

fun call_disposition_of :: "call_outcome \<Rightarrow> call_disposition" where
  "call_disposition_of (OutcomeApplied out assigned) = CallApplied"
| "call_disposition_of (OutcomeRejected reason) = CallRejected reason"
| "call_disposition_of (OutcomeRefused r) = CallRefused r"
| "call_disposition_of (OutcomeUnrepresentable a) = CallUnrepresentable a"

fun call_fallback :: "call_outcome \<Rightarrow> attempt option" where
  "call_fallback (OutcomeApplied out assigned) = Some AttemptApplied"
| "call_fallback (OutcomeRejected reason) = Some AttemptRejected"
| "call_fallback (OutcomeRefused r) = Some AttemptRefused"
| "call_fallback (OutcomeUnrepresentable a) = None"

definition not_finalized :: "prepared_call \<Rightarrow> string \<Rightarrow> call_record" where
  "not_finalized call reason =
     \<lparr>cr_enqueued = pp_enqueued call, cr_id = pp_id call,
      cr_disposition = CallNotFinalized reason, cr_dispatches = []\<rparr>"

function finalize_call ::
  "'m kernel \<Rightarrow> clock \<Rightarrow> nat \<Rightarrow> prepared_call \<Rightarrow> call_outcome \<Rightarrow> 'm blk \<Rightarrow>
   'm blk \<times> (submit_error + call_record option)" where
  "finalize_call K clk i call outcome c =
     st_then (run_unit K clk [complete_call_step K call outcome] c) (\<lambda>c1 v.
       (case v of
          Accepted u \<Rightarrow>
            (accept_as (SlotCall i) (ResolvedCall (call_disposition_of outcome)) u c1, Inr None)
        | Unattempted \<Rightarrow> (c1, Inr (Some (not_finalized call budget_reason)))
        | UnitRejected reason \<Rightarrow>
            (case call_fallback outcome of
               Some attempted \<Rightarrow>
                 finalize_call K clk i call (OutcomeUnrepresentable attempted) c1
             | None \<Rightarrow> (c1, Inr (Some (not_finalized call (error_to_string reason)))))))"
  by auto

termination finalize_call
  by (relation "measure (\<lambda>(K, clk, i, call, outcome, c).
        if call_fallback outcome = None then 0 else 1)") auto

declare finalize_call.simps [simp del]

definition run_call ::
  "'m kernel \<Rightarrow> clock \<Rightarrow> nat \<Rightarrow> prepared_call \<Rightarrow> verdict option \<Rightarrow> 'm blk \<Rightarrow>
   'm blk \<times> (submit_error + call_record option)" where
  "run_call K clk i call verdict c =
     (case verdict of
        None \<Rightarrow> (c, Inr (Some (not_finalized call budget_reason)))
      | Some (Refused r) \<Rightarrow> finalize_call K clk i call (OutcomeRefused r) c
      | Some Admitted \<Rightarrow>
          st_then
            (run_unit K clk
               [StepOp (Program (pp_account call)) (pp_cause call)
                  \<lparr>msg_target = pp_target call, msg_payload = pp_payload call\<rparr>] c)
            (\<lambda>c1 v.
               (case v of
                  Unattempted \<Rightarrow> (c1, Inr (Some (not_finalized call budget_reason)))
                | UnitRejected reason \<Rightarrow>
                    finalize_call K clk i call (OutcomeRejected (error_to_string reason)) c1
                | Accepted u \<Rightarrow>
                    (case au_dispatches u of
                       [] \<Rightarrow>
                         (c1, Inl (SubmitPanicked ''an accepted op unit ran its root dispatch''))
                     | root # _ \<Rightarrow>
                         st_then
                           (extend_unit K clk u
                              [complete_call_step K call
                                 (OutcomeApplied
                                    (case dr_output root of None \<Rightarrow> [] | Some bs \<Rightarrow> bs)
                                    (dr_assigned root))] c1)
                           (\<lambda>c2 ext.
                              (case ext of
                                 Inr u' \<Rightarrow>
                                   (accept_as (SlotCall i) (ResolvedCall CallApplied) u' c2, Inr None)
                               | Inl _ \<Rightarrow>
                                   finalize_call K clk i call
                                     (OutcomeUnrepresentable AttemptApplied) c2))))))"

section \<open>Deliveries\<close>

definition ack_step :: "prepared_delivery \<Rightarrow> delivery_outcome \<Rightarrow> step" where
  "ack_step d outcome =
     StepAck (ir_source (pd_item d)) (pd_cause d)
       \<lparr>ack_item = ir_item (pd_item d), ack_target = pd_target d, ack_outcome = outcome\<rparr>"

fun delivery_disposition_of :: "delivery_outcome \<Rightarrow> delivery_disposition" where
  "delivery_disposition_of DeliveryApplied = DispApplied"
| "delivery_disposition_of (DeliveryFailed reason) = DispFailed reason"
| "delivery_disposition_of DeliveryUnrepresentable = DispUnrepresentable"

definition not_delivered :: "prepared_delivery \<Rightarrow> string \<Rightarrow> delivery_record" where
  "not_delivered d reason =
     \<lparr>de_item = pd_item d, de_target = pd_target d, de_disposition = DispNotFinalized reason,
      de_dispatches = []\<rparr>"

function acknowledge_delivery ::
  "'m kernel \<Rightarrow> clock \<Rightarrow> nat \<Rightarrow> prepared_delivery \<Rightarrow> delivery_outcome \<Rightarrow> 'm blk \<Rightarrow>
   'm blk \<times> (submit_error + delivery_record option)" where
  "acknowledge_delivery K clk i d outcome c =
     st_then (run_unit K clk [ack_step d outcome] c) (\<lambda>c1 v.
       (case v of
          Accepted u \<Rightarrow>
            (accept_as (SlotDelivery i) (ResolvedDelivery (delivery_disposition_of outcome)) u c1,
             Inr None)
        | Unattempted \<Rightarrow> (c1, Inr (Some (not_delivered d budget_reason)))
        | UnitRejected reason \<Rightarrow>
            if outcome \<noteq> DeliveryUnrepresentable
            then acknowledge_delivery K clk i d DeliveryUnrepresentable c1
            else (c1, Inr (Some (not_delivered d (error_to_string reason))))))"
  by auto

termination acknowledge_delivery
  by (relation "measure (\<lambda>(K, clk, i, d, outcome, c).
        if outcome = DeliveryUnrepresentable then 0 else 1)") auto

declare acknowledge_delivery.simps [simp del]

definition run_delivery ::
  "'m kernel \<Rightarrow> clock \<Rightarrow> nat \<Rightarrow> prepared_delivery \<Rightarrow> 'm blk \<Rightarrow>
   'm blk \<times> (submit_error + delivery_record option)" where
  "run_delivery K clk i d c =
     st_then
       (run_unit K clk
          [StepOp (Module (ir_source (pd_item d))) (pd_cause d)
             \<lparr>msg_target = pd_target d, msg_payload = pd_payload d\<rparr>] c)
       (\<lambda>c1 v.
          (case v of
             Unattempted \<Rightarrow> (c1, Inr (Some (not_delivered d budget_reason)))
           | UnitRejected reason \<Rightarrow>
               acknowledge_delivery K clk i d (DeliveryFailed (error_to_string reason)) c1
           | Accepted u \<Rightarrow>
               st_then (extend_unit K clk u [ack_step d DeliveryApplied] c1) (\<lambda>c2 ext.
                 (case ext of
                    Inr u' \<Rightarrow>
                      (accept_as (SlotDelivery i) (ResolvedDelivery DispApplied) u' c2, Inr None)
                  | Inl _ \<Rightarrow> acknowledge_delivery K clk i d DeliveryUnrepresentable c2))))"

section \<open>The block\<close>

text \<open>The three loops of \<^verbatim>\<open>apply_block\<close>; \<open>i\<close> is the enumeration index, the list of slots grows with it.\<close>

fun run_members ::
  "'m kernel \<Rightarrow> clock \<Rightarrow> admission \<Rightarrow> nat \<Rightarrow> block_op list \<Rightarrow> member_outcome option list \<Rightarrow> 'm blk \<Rightarrow>
   'm blk \<times> (submit_error + member_outcome option list)" where
  "run_members K clk adm i [] mems c = (c, Inr mems)"
| "run_members K clk adm i (op # ops) mems c =
     st_then (run_unit K clk [StepOp (op_origin op) Direct (op_msg op)] c) (\<lambda>c1 v.
       (case v of
          Accepted u \<Rightarrow>
            run_members K clk adm (i + 1) ops mems
              (set_accepted (br_accepted (snd c1) @ [u\<lparr>au_slot := SlotMember i\<rparr>]) c1)
        | UnitRejected reason \<Rightarrow>
            if adm = Sole
            then st_then (abort_stage (k_ops K) c1) (\<lambda>c2 _. (c2, Inl (Rejected reason)))
            else run_members K clk adm (i + 1) ops
                   (mems[i := Some (MemberRejected (error_to_string reason))]) c1
        | Unattempted \<Rightarrow>
            run_members K clk adm (i + 1) ops
              (mems[i := Some (MemberRejected budget_reason)]) c1))"

definition decide_call ::
  "'m kernel \<Rightarrow> clock \<Rightarrow> prepared_call \<Rightarrow> 'm blk \<Rightarrow> 'm blk \<times> (submit_error + verdict option)" where
  "decide_call K clk call c =
     (if budget_exhausted (snd c) then (c, Inr None)
      else
        (case run_state (State_Monad.bind begin_unit (\<lambda>_. call_authority K clk (fst c) call))
                (br_observer (snd c)) of
           (authority, ob) \<Rightarrow>
             st_then (check_witness (k_ops K) (fst c, (snd c)\<lparr>br_observer := ob\<rparr>)) (\<lambda>c1 _.
               (case authority of
                  Inr verdict \<Rightarrow> (c1, Inr (Some verdict))
                | Inl e \<Rightarrow>
                    st_then (abort_stage (k_ops K) c1) (\<lambda>c2 _. (c2, Inl (authority_fault e)))))))"

fun run_calls ::
  "'m kernel \<Rightarrow> clock \<Rightarrow> nat \<Rightarrow> prepared_call list \<Rightarrow> call_record option list \<Rightarrow> 'm blk \<Rightarrow>
   'm blk \<times> (submit_error + call_record option list)" where
  "run_calls K clk i [] calls c = (c, Inr calls)"
| "run_calls K clk i (call # rest) calls c =
     st_then (decide_call K clk call c) (\<lambda>c1 verdict.
     st_then (run_call K clk i call verdict c1) (\<lambda>c2 rec.
       run_calls K clk (i + 1) rest
         (case rec of Some r \<Rightarrow> calls[i := Some r] | None \<Rightarrow> calls) c2))"

fun run_deliveries ::
  "'m kernel \<Rightarrow> clock \<Rightarrow> nat \<Rightarrow> prepared_delivery list \<Rightarrow> delivery_record option list \<Rightarrow> 'm blk \<Rightarrow>
   'm blk \<times> (submit_error + delivery_record option list)" where
  "run_deliveries K clk i [] deliveries c = (c, Inr deliveries)"
| "run_deliveries K clk i (d # rest) deliveries c =
     st_then (run_delivery K clk i d c) (\<lambda>c1 rec.
       run_deliveries K clk (i + 1) rest
         (case rec of Some r \<Rightarrow> deliveries[i := Some r] | None \<Rightarrow> deliveries) c1)"

text \<open>The accepted units' traces land in their slots.\<close>

type_synonym slots =
  "member_outcome option list \<times> call_record option list \<times> delivery_record option list"

definition settle_unit :: "prepared_work \<Rightarrow> accepted_unit \<Rightarrow> slots \<Rightarrow> submit_error + slots" where
  "settle_unit prepared u s =
     (case s of (mems, calls, deliveries) \<Rightarrow>
        (case (au_slot u, au_resolved u) of
           (SlotMember i, ResolvedMember) \<Rightarrow>
             if i < length mems
             then Inr (mems[i := Some (MemberApplied (au_dispatches u))], calls, deliveries)
             else Inl (SubmitPanicked ''index out of bounds'')
         | (SlotCall i, ResolvedCall disposition) \<Rightarrow>
             if i < length calls \<and> i < length (pw_calls prepared)
             then Inr (mems,
                    calls[i := Some \<lparr>cr_enqueued = pp_enqueued (pw_calls prepared ! i),
                                     cr_id = pp_id (pw_calls prepared ! i),
                                     cr_disposition = disposition,
                                     cr_dispatches = au_dispatches u\<rparr>],
                    deliveries)
             else Inl (SubmitPanicked ''index out of bounds'')
         | (SlotDelivery i, ResolvedDelivery disposition) \<Rightarrow>
             if i < length deliveries \<and> i < length (pw_deliveries prepared)
             then Inr (mems, calls,
                    deliveries[i := Some \<lparr>de_item = pd_item (pw_deliveries prepared ! i),
                                          de_target = pd_target (pw_deliveries prepared ! i),
                                          de_disposition = disposition,
                                          de_dispatches = au_dispatches u\<rparr>])
             else Inl (SubmitPanicked ''index out of bounds'')
         | _ \<Rightarrow> Inl (SubmitPanicked ''an accepted unit resolves to its own slot kind'')))"

fun settle :: "prepared_work \<Rightarrow> accepted_unit list \<Rightarrow> slots \<Rightarrow> submit_error + slots" where
  "settle prepared [] s = Inr s"
| "settle prepared (u # us) s = and_then (settle_unit prepared u s) (settle prepared us)"

definition unwrap_all :: "'a option list \<Rightarrow> submit_error + 'a list" where
  "unwrap_all xs =
     (if None \<in> set xs
      then Inl (SubmitPanicked ''called Option::unwrap() on a None value'')
      else Inr (map the xs))"

section \<open>The host\<close>

text \<open>What a factory made of an admission's bytes.\<close>

datatype 'm admitted = AdmittedModule 'm | ForeignAbi

record 'm host =
  h_registry :: "'m registry"
  h_module_factory :: "(module_id \<Rightarrow> bytes \<Rightarrow> error + 'm admitted) option"
  h_foreign_admissions :: "(module_id \<times> bytes) fset"
  h_status_cache :: "((state_root \<times> bytes option) \<times> module_code list) option"
  h_committed :: clock

record block_context =
  bc_height :: u64
  bc_consensus_time :: u64
  bc_origin :: origin

definition default_context :: block_context where
  "default_context = \<lparr>bc_height = 0, bc_consensus_time = 0, bc_origin = External []\<rparr>"

definition root_hash :: "'m kernel \<Rightarrow> 'm host \<Rightarrow> state_root" where
  "root_hash K h = global_root (k_sha256 K) (k_ops K) (map snd (h_registry h))"

definition block_start :: "block_context \<Rightarrow> observation \<Rightarrow> 'm registry \<Rightarrow> 'm blk" where
  "block_start ctx observation registry =
     (registry,
      \<lparr>br_height = bc_height ctx, br_consensus_time = bc_consensus_time ctx, br_touched = {||},
       br_accepted = [], br_replays = 0, br_observer = observer_new observation\<rparr>)"

text \<open>Members, calls and deliveries, in this order.\<close>

definition run_units ::
  "'m kernel \<Rightarrow> clock \<Rightarrow> admission \<Rightarrow> block_op list \<Rightarrow> prepared_work \<Rightarrow> 'm blk \<Rightarrow>
   'm blk \<times> (submit_error + slots)" where
  "run_units K clk adm ops prepared c =
     st_then (run_members K clk adm 0 ops (replicate (length ops) None) c) (\<lambda>c1 mems.
     st_then (run_calls K clk 0 (pw_calls prepared)
                (replicate (length (pw_calls prepared)) None) c1) (\<lambda>c2 calls.
     st_then (run_deliveries K clk 0 (pw_deliveries prepared)
                (replicate (length (pw_deliveries prepared)) None) c2) (\<lambda>c3 deliveries.
       (c3, Inr (mems, calls, deliveries)))))"

definition injections :: "prepared_work \<Rightarrow> queued list" where
  "injections prepared =
     (case pw_advance prepared of None \<Rightarrow> [] | Some adv \<Rightarrow> [(System, Direct, adv)])"

text \<open>The once-per-block injection, on top of every accepted unit.\<close>

definition drain_injections ::
  "'m kernel \<Rightarrow> clock \<Rightarrow> prepared_work \<Rightarrow> 'm blk \<Rightarrow> ('m run \<times> (error + unit)) \<times> observing" where
  "drain_injections K clk prepared c =
     (let b = snd c
      in run_state
           (State_Monad.bind begin_unit (\<lambda>_.
              drain_queue K clk (br_height b) (br_consensus_time b) 0 (injections prepared)
                \<lparr>run_registry = fst c, run_touched = br_touched b, run_events = [],
                 run_dispatches = []\<rparr>))
           (br_observer b))"

definition host_abort ::
  "'m kernel \<Rightarrow> 'm host \<Rightarrow> 'm registry \<Rightarrow> module_id fset \<Rightarrow> submit_error \<Rightarrow>
   'm host \<times> (submit_error + 'a)" where
  "host_abort K h registry touched fault =
     (case abort_all (k_ops K) registry touched of
        (registry', Inl f) \<Rightarrow> (h\<lparr>h_registry := registry'\<rparr>, Inl f)
      | (registry', Inr _) \<Rightarrow> (h\<lparr>h_registry := registry'\<rparr>, Inl fault))"

text \<open>The witness, the commit boundary, the clock and the outcome.\<close>

definition seal_block ::
  "'m kernel \<Rightarrow> (u64 \<Rightarrow> witness \<Rightarrow> string + unit) \<Rightarrow> module_id fset option \<Rightarrow> block_context \<Rightarrow>
   prepared_work \<Rightarrow> slots \<Rightarrow> event list \<Rightarrow> 'm run \<Rightarrow> observing \<Rightarrow> 'm host \<Rightarrow>
   'm host \<times> (submit_error + batch_outcome)" where
  "seal_block K hook commit_only ctx prepared filled events r ob h =
     (case observer_finish ob of
        Inl d \<Rightarrow> host_abort K h (run_registry r) (run_touched r) (witness_fault d)
      | Inr wit \<Rightarrow>
          (case hook (bc_height ctx) wit of
             Inl reason \<Rightarrow>
               host_abort K h (run_registry r) (run_touched r)
                 (Fatal \<lparr>fe_module = DISPATCH_MODULE_ID, fe_phase = PhaseWitness,
                         fe_source = ModuleError reason\<rparr>)
           | Inr _ \<Rightarrow>
               (case commit_boundary (k_ops K) (run_registry r) (run_touched r) commit_only of
                  (registry, Inl f) \<Rightarrow> (h\<lparr>h_registry := registry\<rparr>, Inl f)
                | (registry, Inr _) \<Rightarrow>
                    (let h' = h\<lparr>h_registry := registry,
                               h_committed := (bc_height ctx, bc_consensus_time ctx)\<rparr>
                     in case filled of (mems, calls, deliveries) \<Rightarrow>
                       (h',
                        and_then (unwrap_all mems) (\<lambda>ms.
                        and_then (unwrap_all calls) (\<lambda>cs.
                        and_then (unwrap_all deliveries) (\<lambda>ds.
                        Inr \<lparr>bo_root_hash = root_hash K h', bo_members = ms, bo_calls = cs,
                             bo_deliveries = ds, bo_events = events @ run_events r,
                             bo_system_dispatches = run_dispatches r, bo_prepared = prepared,
                             bo_witness = wit\<rparr>))))))))"

definition apply_block ::
  "'m kernel \<Rightarrow> (u64 \<Rightarrow> witness \<Rightarrow> string + unit) \<Rightarrow> module_id fset option \<Rightarrow> admission \<Rightarrow>
   observation \<Rightarrow> block_context \<Rightarrow> block_op list \<Rightarrow> prepared_work \<Rightarrow> 'm host \<Rightarrow>
   'm host \<times> (submit_error + batch_outcome)" where
  "apply_block K hook commit_only adm observation ctx ops prepared h =
     (case run_units K (h_committed h) adm ops prepared
             (block_start ctx observation (h_registry h)) of
        (c, Inl e) \<Rightarrow> (h\<lparr>h_registry := fst c\<rparr>, Inl e)
      | (c, Inr slots) \<Rightarrow>
          (case settle prepared (br_accepted (snd c)) slots of
             Inl e \<Rightarrow> (h\<lparr>h_registry := fst c\<rparr>, Inl e)
           | Inr filled \<Rightarrow>
               (case drain_injections K (h_committed h) prepared c of
                  ((r, drained), ob) \<Rightarrow>
                    (case ob_divergence ob of
                       Some d \<Rightarrow> host_abort K h (run_registry r) (run_touched r) (witness_fault d)
                     | None \<Rightarrow>
                         (case drained of
                            Inl reason \<Rightarrow>
                              host_abort K h (run_registry r) (run_touched r) (Rejected reason)
                          | Inr _ \<Rightarrow>
                              seal_block K hook commit_only ctx prepared filled
                                (concat (map au_events (br_accepted (snd c)))) r ob h)))))"

end
