(* ===== verification/Host_Rollback.thy ===== *)
theory Host_Rollback
  imports Host_Block
begin

text \<open>
  The rollback of a block in every mode (live, replay, replay with substitution). A block that is
  rejected, or that faults before its commit boundary, leaves the host exactly as it was: the
  rollback is an abort of the touched modules, and the frame of the drain says that this is
  enough. The last section has what the commit boundary makes of each module.
\<close>

section \<open>Rollback\<close>

definition quiescent :: "('m \<Rightarrow> 'm) \<Rightarrow> 'm registry \<Rightarrow> bool" where
  "quiescent base registry \<longleftrightarrow> bt_inv registry \<and> (\<forall>i m. map_of registry i = Some m \<longrightarrow> base m = m)"

text \<open>Errors after which the stage has been rolled back.\<close>

fun clean_fault :: "submit_error \<Rightarrow> bool" where
  "clean_fault (Rejected e) = True"
| "clean_fault (Fatal f) = (fe_phase f = PhaseWitness \<or> fe_phase f = PhasePrepare)"
| "clean_fault (SubmitPanicked s) = False"

definition blk_frame :: "('m \<Rightarrow> 'm) \<Rightarrow> 'm registry \<Rightarrow> 'm blk \<Rightarrow> bool" where
  "blk_frame base reg0 c \<longleftrightarrow> reg_frame base (br_touched (snd c)) reg0 (fst c)"

definition safe :: "('m \<Rightarrow> 'm) \<Rightarrow> 'm registry \<Rightarrow> 'm blk \<times> (submit_error + 'a) \<Rightarrow> bool" where
  "safe base reg0 p \<longleftrightarrow>
     blk_frame base reg0 (fst p) \<and>
     (\<forall>e. snd p = Inl e \<longrightarrow> clean_fault e \<longrightarrow> fst (fst p) = reg0)"

lemma blk_frame_simps [simp]:
  "blk_frame base reg0 (set_accepted us c) = blk_frame base reg0 c"
  "blk_frame base reg0 (accept_as s r u c) = blk_frame base reg0 c"
  "blk_frame base reg0 (g, b\<lparr>br_observer := ob\<rparr>) = blk_frame base reg0 (g, b)"
  "blk_frame base reg0 (g, b\<lparr>br_replays := n\<rparr>) = blk_frame base reg0 (g, b)"
  "blk_frame base reg0 (g, b\<lparr>br_accepted := us\<rparr>) = blk_frame base reg0 (g, b)"
  by (simp_all add: blk_frame_def set_accepted_def accept_as_def)

lemma set_accepted_simps [simp]:
  "fst (set_accepted us c) = fst c"
  "br_observer (snd (set_accepted us c)) = br_observer (snd c)"
  "br_touched (snd (set_accepted us c)) = br_touched (snd c)"
  "br_accepted (snd (set_accepted us c)) = us"
  "br_replays (snd (set_accepted us c)) = br_replays (snd c)"
  "br_height (snd (set_accepted us c)) = br_height (snd c)"
  "br_consensus_time (snd (set_accepted us c)) = br_consensus_time (snd c)"
  by (simp_all add: set_accepted_def)

lemma settle_fault:
  "settle prepared us s = Inl e \<Longrightarrow> \<exists>m. e = SubmitPanicked m"
proof (induction us arbitrary: s)
  case (Cons u us)
  show ?case
  proof (cases "settle_unit prepared u s")
    case (Inl e')
    with Cons.prems show ?thesis
      by (auto simp: settle_unit_def split: prod.splits slot.splits resolved.splits if_splits)
  qed (use Cons in simp)
qed simp

lemma safe_Inr [simp]: "safe base reg0 (c, Inr v) = blk_frame base reg0 c"
  by (simp add: safe_def)

lemma safe_st_then:
  assumes "safe base reg0 p" and "\<And>c v. blk_frame base reg0 c \<Longrightarrow> safe base reg0 (k c v)"
  shows "safe base reg0 (st_then p k)"
proof (cases p)
  case (Pair c r)
  with assms show ?thesis by (cases r) (auto simp: safe_def)
qed

context host_laws
begin

lemma abort_loop_laws:
  "\<exists>reg'. abort_loop (k_ops K) reg f ids = (reg', f) \<and> (bt_inv reg \<longrightarrow> bt_inv reg') \<and>
     (\<forall>i. map_of reg' i = (if i \<in> set ids then map_option base (map_of reg i) else map_of reg i))"
proof (induction ids arbitrary: reg)
  case (Cons j ids)
  show ?case
  proof (cases "map_of reg j")
    case None
    with Cons.IH [of reg] show ?thesis by auto
  next
    case (Some m)
    obtain reg' where "abort_loop (k_ops K) (bt_insert j (base m) reg) f ids = (reg', f)"
      "bt_inv (bt_insert j (base m) reg) \<longrightarrow> bt_inv reg'"
      "\<forall>i. map_of reg' i = (if i \<in> set ids then map_option base (map_of (bt_insert j (base m) reg) i)
                            else map_of (bt_insert j (base m) reg) i)"
      using Cons.IH [of "bt_insert j (base m) reg"] by auto
    with Some show ?thesis by (auto simp: abort_base base_base)
  qed
qed simp

lemma abort_all_restores:
  assumes "quiescent base reg0" and "reg_frame base T reg0 reg"
  shows "abort_all (k_ops K) reg T = (reg0, Inr ())"
proof -
  obtain reg' where r: "abort_loop (k_ops K) reg None (sorted_list_of_fset T) = (reg', None)"
    "bt_inv reg \<longrightarrow> bt_inv reg'"
    "\<forall>i. map_of reg' i = (if i |\<in>| T then map_option base (map_of reg i) else map_of reg i)"
    using abort_loop_laws [of reg None "sorted_list_of_fset T"] by auto
  have "map_of reg' i = map_of reg0 i" for i
    using r(3) assms by (cases "map_of reg0 i") (auto simp: reg_frame_def quiescent_def)
  then have "reg' = reg0"
    using r(2) assms by (intro bt.entries_ext ext) (auto simp: reg_frame_def quiescent_def)
  with r(1) show ?thesis by (simp add: abort_all_def)
qed

lemma abort_stage_restores:
  assumes "quiescent base reg0" and "blk_frame base reg0 c"
  shows "abort_stage (k_ops K) c = ((reg0, (snd c)\<lparr>br_touched := {||}\<rparr>), Inr ())"
  using abort_all_restores [OF assms(1)] assms(2) by (simp add: abort_stage_def blk_frame_def)

lemma safe_abort:
  assumes "quiescent base reg0" and "blk_frame base reg0 c"
  shows "safe base reg0 (st_then (abort_stage (k_ops K) c) (\<lambda>c' _. (c', Inl e)))"
  by (simp add: abort_stage_restores [OF assms] safe_def blk_frame_def)

lemma stage_steps_frame:
  assumes "blk_frame base reg0 c" and "stage_steps K clk ss c = (c1, r, res)"
  shows "blk_frame base reg0 c1"
proof -
  let ?b = "snd c"
  obtain ob where run: "run_state (run_steps K clk (br_height ?b) (br_consensus_time ?b) ss
        (run_fresh (fst c))) (br_observer ?b) = ((r, res), ob)"
    and c1: "c1 = (run_registry r, ?b\<lparr>br_observer := ob, br_touched := br_touched ?b |\<union>| run_touched r\<rparr>)"
    using assms(2) by (auto simp: stage_steps_def Let_def split: prod.splits)
  have "run_frame base (run_fresh (fst c)) r"
    using pred_stateD [OF run_steps_frame run] by simp
  then show ?thesis
    using assms(1) reg_frame_trans [of base "br_touched ?b" reg0 "fst c" "run_touched r" "run_registry r"]
    by (simp add: c1 blk_frame_def run_frame_def run_fresh_def)
qed

lemma safe_check_witness:
  "quiescent base reg0 \<Longrightarrow> blk_frame base reg0 c \<Longrightarrow> safe base reg0 (check_witness (k_ops K) c)"
  by (auto simp: check_witness_def safe_abort split: option.split)

lemma safe_replay_loop:
  assumes "quiescent base reg0" and "blk_frame base reg0 c"
  shows "safe base reg0 (replay_loop K clk c replayed us)"
  using assms(2)
proof (induction us arbitrary: c replayed)
  case (Cons u us)
  let ?c0 = "(fst c, (snd c)\<lparr>br_observer :=
    snd (run_state (resume (au_entry u)) (br_observer (snd c)))\<rparr>)"
  obtain c1 r res where st: "stage_steps K clk (au_steps u) ?c0 = (c1, r, res)"
    by (cases "stage_steps K clk (au_steps u) ?c0")
  have "blk_frame base reg0 ?c0" using Cons.prems by (simp add: blk_frame_def)
  then have f: "blk_frame base reg0 c1" using stage_steps_frame st by blast
  show ?case
    unfolding replay_loop.simps Let_def st prod.case
    using f Cons.IH [OF f]
    by (auto simp: safe_def [of base reg0 "(set_accepted _ _, Inl (Fatal _))"]
        intro!: safe_abort [OF assms(1)] split: option.split sum.split)
qed simp

lemma safe_isolate:
  "quiescent base reg0 \<Longrightarrow> blk_frame base reg0 c \<Longrightarrow> safe base reg0 (isolate K clk c)"
  unfolding isolate_def replay_accepted_def
  by (intro safe_st_then safe_replay_loop)
    (auto simp: abort_stage_restores blk_frame_def)

lemma safe_run_unit:
  assumes "quiescent base reg0" and "blk_frame base reg0 c"
  shows "safe base reg0 (run_unit K clk ss c)"
proof (cases "budget_exhausted (snd c)")
  case False
  obtain entry ob where o: "run_state begin_unit (br_observer (snd c)) = (entry, ob)" by fastforce
  let ?c0 = "(fst c, (snd c)\<lparr>br_observer := ob\<rparr>)"
  obtain c1 r res where st: "stage_steps K clk ss ?c0 = (c1, r, res)"
    by (cases "stage_steps K clk ss ?c0")
  have "blk_frame base reg0 ?c0" using assms by (simp add: blk_frame_def)
  then have f: "blk_frame base reg0 c1" using stage_steps_frame st by blast
  show ?thesis
    using False f
    by (auto simp: run_unit_def o st intro!: safe_st_then safe_check_witness safe_isolate assms(1)
        split: sum.split)
qed (simp add: run_unit_def assms)

lemma safe_extend_unit:
  assumes "quiescent base reg0" and "blk_frame base reg0 c"
  shows "safe base reg0 (extend_unit K clk u ss c)"
proof -
  obtain c1 r res where st: "stage_steps K clk ss c = (c1, r, res)"
    by (cases "stage_steps K clk ss c")
  show ?thesis
    using stage_steps_frame [OF assms(2) st]
    by (auto simp: extend_unit_def st intro!: safe_st_then safe_check_witness safe_isolate assms(1)
        split: sum.split)
qed

lemma safe_finalize_marker:
  "quiescent base reg0 \<Longrightarrow> blk_frame base reg0 c \<Longrightarrow>
   safe base reg0 (finalize_call K clk i call (OutcomeUnrepresentable a) c)"
  by (subst finalize_call.simps)
    (auto intro!: safe_st_then safe_run_unit split: unit_verdict.split)

lemma safe_finalize_call:
  "quiescent base reg0 \<Longrightarrow> blk_frame base reg0 c \<Longrightarrow>
   safe base reg0 (finalize_call K clk i call outcome c)"
  by (subst finalize_call.simps)
    (auto intro!: safe_st_then safe_run_unit safe_finalize_marker split: unit_verdict.split option.split)

lemma safe_run_call:
  "quiescent base reg0 \<Longrightarrow> blk_frame base reg0 c \<Longrightarrow> safe base reg0 (run_call K clk i call verdict c)"
  unfolding run_call_def
  by (auto intro!: safe_st_then safe_run_unit safe_extend_unit safe_finalize_call
      simp: safe_def [of base reg0 "(_, Inl (SubmitPanicked _))"]
      split: unit_verdict.split option.split verdict.split list.split sum.split)

lemma safe_ack_marker:
  "quiescent base reg0 \<Longrightarrow> blk_frame base reg0 c \<Longrightarrow>
   safe base reg0 (acknowledge_delivery K clk i d DeliveryUnrepresentable c)"
  by (subst acknowledge_delivery.simps)
    (auto intro!: safe_st_then safe_run_unit split: unit_verdict.split)

lemma safe_acknowledge_delivery:
  "quiescent base reg0 \<Longrightarrow> blk_frame base reg0 c \<Longrightarrow>
   safe base reg0 (acknowledge_delivery K clk i d outcome c)"
  by (subst acknowledge_delivery.simps)
    (auto intro!: safe_st_then safe_run_unit safe_ack_marker split: unit_verdict.split)

lemma safe_run_delivery:
  "quiescent base reg0 \<Longrightarrow> blk_frame base reg0 c \<Longrightarrow> safe base reg0 (run_delivery K clk i d c)"
  unfolding run_delivery_def
  by (auto intro!: safe_st_then safe_run_unit safe_extend_unit safe_acknowledge_delivery
      split: unit_verdict.split sum.split)

lemma safe_run_members:
  assumes "quiescent base reg0" and "blk_frame base reg0 c"
  shows "safe base reg0 (run_members K clk adm i ops mems c)"
  using assms(2)
  by (induction ops arbitrary: i mems c)
    (auto simp: set_accepted_def intro!: safe_st_then safe_run_unit safe_abort assms(1)
      split: unit_verdict.split)

lemma safe_decide_call:
  assumes "quiescent base reg0" and "blk_frame base reg0 c"
  shows "safe base reg0 (decide_call K clk call c)"
proof (cases "budget_exhausted (snd c)")
  case False
  obtain a ob where o: "run_state (State_Monad.bind begin_unit (\<lambda>_. call_authority K clk (fst c) call))
      (br_observer (snd c)) = (a, ob)"
    by fastforce
  have "blk_frame base reg0 (fst c, (snd c)\<lparr>br_observer := ob\<rparr>)"
    using assms(2) by (simp add: blk_frame_def)
  then show ?thesis
    unfolding decide_call_def o prod.case
    using False assms(1)
    by (auto intro!: safe_st_then safe_check_witness safe_abort split: sum.split)
qed (simp add: decide_call_def assms)

lemma safe_run_calls:
  assumes "quiescent base reg0" and "blk_frame base reg0 c"
  shows "safe base reg0 (run_calls K clk i calls recs c)"
  using assms(2)
  by (induction calls arbitrary: i recs c)
    (auto intro!: safe_st_then safe_decide_call safe_run_call assms(1))

lemma safe_run_deliveries:
  assumes "quiescent base reg0" and "blk_frame base reg0 c"
  shows "safe base reg0 (run_deliveries K clk i ds recs c)"
  using assms(2)
  by (induction ds arbitrary: i recs c) (auto intro!: safe_st_then safe_run_delivery assms(1))

lemma safe_run_units:
  "quiescent base reg0 \<Longrightarrow> blk_frame base reg0 c \<Longrightarrow> safe base reg0 (run_units K clk adm ops prepared c)"
  unfolding run_units_def
  by (auto intro!: safe_st_then safe_run_members safe_run_calls safe_run_deliveries)

lemma host_abort_restores:
  assumes "quiescent base (h_registry h)" and "reg_frame base T (h_registry h) reg"
  shows "host_abort K h reg T fault = (h, Inl fault)"
  by (simp add: host_abort_def abort_all_restores [OF assms])

lemma drain_injections_frame:
  assumes "blk_frame base reg0 c" and "drain_injections K clk prepared c = ((r, res), ob)"
  shows "reg_frame base (run_touched r) reg0 (run_registry r)"
proof -
  let ?r0 = "\<lparr>run_registry = fst c, run_touched = br_touched (snd c), run_events = [],
    run_dispatches = []\<rparr>"
  obtain e ob1 where "run_state begin_unit (br_observer (snd c)) = (e, ob1)" by fastforce
  with assms(2) have "run_state (drain_queue K clk (br_height (snd c)) (br_consensus_time (snd c)) 0
      (injections prepared) ?r0) ob1 = ((r, res), ob)"
    by (simp add: drain_injections_def Let_def)
  from pred_stateD [OF drain_frame this] have "run_frame base ?r0 r" by simp
  then show ?thesis
    using assms(1) reg_frame_trans [of base "br_touched (snd c)" reg0 "fst c" "run_touched r"]
    by (auto simp: run_frame_def blk_frame_def sup.absorb2)
qed

lemma commit_fault_phase:
  "commit_loop (k_ops K) only reg ids = (reg', Inl e) \<Longrightarrow> \<exists>f. e = Fatal f \<and> fe_phase f = PhaseCommit"
proof (induction ids arbitrary: reg)
  case (Cons i ids)
  show ?case
  proof (cases "map_of reg i")
    case None
    with Cons show ?thesis by simp
  next
    case (Some m)
    obtain m' cr where "mod_commit_block (k_ops K) m = (m', cr)" by fastforce
    with Cons.prems Cons.IH [of "bt_insert i m' reg"] Cons.IH [of "bt_insert i (base m) reg"] Some
    show ?thesis
      by (cases "case only of None \<Rightarrow> True | Some s \<Rightarrow> i |\<in>| s"; cases cr) (auto simp: abort_base)
  qed
qed simp

lemma seal_block_clean:
  assumes "quiescent base (h_registry h)"
    and "reg_frame base (run_touched r) (h_registry h) (run_registry r)"
    and "seal_block K hook only ctx prepared filled events r ob h = (h', Inl e)" and "clean_fault e"
  shows "h' = h"
proof (cases "observer_finish ob")
  case (Inl d)
  then show ?thesis using assms(3) by (simp add: seal_block_def host_abort_restores [OF assms(1,2)])
next
  case (Inr w)
  show ?thesis
  proof (cases "hook (bc_height ctx) w")
    case (Inl reason)
    then show ?thesis
      using assms(3) Inr by (simp add: seal_block_def host_abort_restores [OF assms(1,2)])
  next
    case hook: (Inr x)
    obtain reg cres where cb: "commit_boundary (k_ops K) (run_registry r) (run_touched r) only = (reg, cres)"
      by fastforce
    obtain ms cs ds where fl: "filled = (ms, cs, ds)" by (cases filled)
    show ?thesis
    proof (cases cres)
      case (Inl f)
      with cb commit_fault_phase [of only "run_registry r"] assms(3,4) Inr hook show ?thesis
        by (fastforce simp: seal_block_def commit_boundary_def)
    next
      case (Inr y)
      with assms(3,4) \<open>observer_finish ob = Inr w\<close> hook cb fl show ?thesis
        by (auto simp: seal_block_def Let_def and_then_def unwrap_all_def split: if_splits)
    qed
  qed
qed

lemma apply_block_clean:
  assumes "quiescent base (h_registry h)"
    and "apply_block K hook only adm observation ctx ops prepared h = (h', Inl e)" and "clean_fault e"
  shows "h' = h"
proof -
  obtain c res where u: "run_units K (h_committed h) adm ops prepared
      (block_start ctx observation (h_registry h)) = (c, res)"
    by fastforce
  have s: "safe base (h_registry h) (c, res)"
    using safe_run_units [OF assms(1), of "block_start ctx observation (h_registry h)"]
    by (simp add: u [symmetric] blk_frame_def block_start_def)
  show ?thesis
  proof (cases res)
    case (Inl e')
    then have "e' = e" "h' = h\<lparr>h_registry := fst c\<rparr>"
      using assms(2) by (simp_all add: apply_block_def u)
    then show ?thesis using s Inl assms(3) by (auto simp: safe_def)
  next
    case (Inr slots)
    show ?thesis
    proof (cases "settle prepared (br_accepted (snd c)) slots")
      case (Inl e')
      then have "e' = e" using assms(2) Inr by (simp add: apply_block_def u)
      with settle_fault [OF Inl] assms(3) show ?thesis by auto
    next
      case filled: (Inr filled)
      obtain r drained ob where d: "drain_injections K (h_committed h) prepared c = ((r, drained), ob)"
        by (metis prod.collapse)
      have f: "reg_frame base (run_touched r) (h_registry h) (run_registry r)"
        using drain_injections_frame [OF _ d] s by (simp add: Inr)
      note undo = host_abort_restores [OF assms(1) f]
      show ?thesis
      proof (rule ccontr)
        assume "h' \<noteq> h"
        with assms(2) have "seal_block K hook only ctx prepared filled
            (concat (map au_events (br_accepted (snd c)))) r ob h = (h', Inl e)"
          by (auto simp: apply_block_def u Inr filled d undo split: option.splits sum.splits)
        then show False
          using assms(3) \<open>h' \<noteq> h\<close> seal_block_clean [OF assms(1) f] by blast
      qed
    qed
  qed
qed

end

section \<open>The commit boundary\<close>

definition commits :: "module_id fset option \<Rightarrow> module_id \<Rightarrow> bool" where
  "commits only i \<longleftrightarrow> (case only of None \<Rightarrow> True | Some s \<Rightarrow> i |\<in>| s)"

text \<open>What becomes of the module at \<open>i\<close> when the modules \<open>I\<close> end their block.\<close>

definition boundary_entry ::
  "'m module_ops \<Rightarrow> ('m \<Rightarrow> 'm) \<Rightarrow> module_id fset option \<Rightarrow> module_id set \<Rightarrow> module_id \<Rightarrow> 'm \<Rightarrow> 'm" where
  "boundary_entry ops base only I i m =
     (if i \<notin> I then m else if commits only i then fst (mod_commit_block ops m) else base m)"

context host_laws
begin

lemma commit_loop_exact:
  assumes "commit_loop (k_ops K) only reg ids = (reg', Inr ())" and "distinct ids"
  shows "(bt_inv reg \<longrightarrow> bt_inv reg') \<and>
    (\<forall>i. map_of reg' i = map_option (boundary_entry (k_ops K) base only (set ids) i) (map_of reg i)) \<and>
    (\<forall>i m. i \<in> set ids \<longrightarrow> commits only i \<longrightarrow> map_of reg i = Some m \<longrightarrow>
       snd (mod_commit_block (k_ops K) m) = Inr ())"
  using assms
proof (induction ids arbitrary: reg)
  case Nil
  then show ?case by (simp add: boundary_entry_def [abs_def] option.map_ident)
next
  case (Cons j ids)
  show ?case
  proof (cases "map_of reg j")
    case None
    with Cons.prems Cons.IH [of reg] show ?thesis
      by (auto simp: boundary_entry_def intro!: option.map_cong)
  next
    case (Some m)
    let ?m = "boundary_entry (k_ops K) base only (set (j # ids)) j m"
    have step: "commit_loop (k_ops K) only (bt_insert j ?m reg) ids = (reg', Inr ())"
      "commits only j \<Longrightarrow> snd (mod_commit_block (k_ops K) m) = Inr ()"
      using Cons.prems(1) Some
      by (cases "mod_commit_block (k_ops K) m"; cases "snd (mod_commit_block (k_ops K) m)";
          cases "commits only j"; simp add: boundary_entry_def commits_def abort_base)+
    note ih = Cons.IH [OF step(1)]
    have "j \<notin> set ids" "distinct ids" using Cons.prems(2) by simp_all
    with ih have ih: "bt_inv reg \<longrightarrow> bt_inv reg'"
      "\<And>i. map_of reg' i = map_option (boundary_entry (k_ops K) base only (set ids) i)
         (map_of (bt_insert j ?m reg) i)"
      "\<And>i m'. i \<in> set ids \<Longrightarrow> commits only i \<Longrightarrow> map_of (bt_insert j ?m reg) i = Some m' \<Longrightarrow>
         snd (mod_commit_block (k_ops K) m') = Inr ()"
      by blast+
    have "map_of reg' i = map_option (boundary_entry (k_ops K) base only (set (j # ids)) i) (map_of reg i)" for i
      using ih(2) [of i] \<open>j \<notin> set ids\<close> Some
      by (cases "i = j") (auto simp: boundary_entry_def intro!: option.map_cong)
    moreover have "snd (mod_commit_block (k_ops K) m') = Inr ()"
      if "i \<in> set (j # ids)" "commits only i" "map_of reg i = Some m'" for i m'
      using that ih(3) [of i m'] step(2) Some \<open>j \<notin> set ids\<close> by (cases "i = j") auto
    ultimately show ?thesis using ih(1) by blast
  qed
qed

lemma commit_boundary_entries:
  assumes "commit_boundary (k_ops K) reg touched only = (reg', Inr ())"
  shows "(bt_inv reg \<longrightarrow> bt_inv reg') \<and>
    (\<forall>i. map_of reg' i = map_option (boundary_entry (k_ops K) base only (fset touched) i) (map_of reg i)) \<and>
    (\<forall>i m. i |\<in>| touched \<longrightarrow> commits only i \<longrightarrow> map_of reg i = Some m \<longrightarrow>
       snd (mod_commit_block (k_ops K) m) = Inr ())"
  using commit_loop_exact [of only reg "sorted_list_of_fset touched" reg'] assms
  by (simp add: commit_boundary_def sorted_list_of_fset.rep_eq)

end

end
