(* ===== verification/Host_Isolation.thy ===== *)
theory Host_Isolation
  imports Host_Rollback
begin

text \<open>
  Per-unit isolation on the live path, and its replay. The state of a live block is described by
  the units it has accepted: its registry is what their steps make of the pre-block registry, in
  order, and every accepted unit's events, dispatches and witness entry are those of that run
  (\<open>live_inv\<close>). A rejected unit keeps this description, since the rollback returns to the pre-block
  registry and the re-run of the accepted units is the run the description speaks of.

  Every operation is related to the same operation under an observer that replays a witness \<open>W\<close>
  (\<open>runs\<close>): as long as the live run ends with a recording that \<open>W\<close> continues, the replay takes the
  same steps, with the same results.
\<close>

section \<open>The run of the accepted units\<close>

definition steps_out ::
  "'m kernel \<Rightarrow> clock \<Rightarrow> u64 \<Rightarrow> u64 \<Rightarrow> step list \<Rightarrow> 'm registry \<Rightarrow> 'm run \<times> (error + unit)" where
  "steps_out K clk h t ss reg = obs_result (run_steps K clk h t ss (run_fresh reg))"

definition steps_trace ::
  "'m kernel \<Rightarrow> clock \<Rightarrow> u64 \<Rightarrow> u64 \<Rightarrow> step list \<Rightarrow> 'm registry \<Rightarrow> trace list" where
  "steps_trace K clk h t ss reg = obs_trace (run_steps K clk h t ss (run_fresh reg))"

lemma steps_ready:
  "ready (steps_trace K clk h t ss reg) ob \<Longrightarrow>
   run_state (run_steps K clk h t ss (run_fresh reg)) ob =
   (steps_out K clk h t ss reg, advance (steps_trace K clk h t ss reg) ob)"
  unfolding steps_out_def steps_trace_def by (rule transparent_run) auto

text \<open>Steps run one after the other: results, outputs and traces.\<close>

lemma steps_append:
  assumes "steps_out K clk h t ss reg = (r, Inr ())"
    and "steps_out K clk h t ss' (run_registry r) = (r', res)"
  shows "steps_out K clk h t (ss @ ss') reg =
           (lift_run (run_touched r) (run_events r) (run_dispatches r) r', res)"
    and "steps_trace K clk h t (ss @ ss') reg =
           steps_trace K clk h t ss reg @ steps_trace K clk h t ss' (run_registry r)"
proof -
  let ?m = "run_steps K clk h t ss (run_fresh reg)"
  let ?n = "run_steps K clk h t ss' (run_fresh (run_registry r))"
  have m: "emits ?m (r, Inr ()) (steps_trace K clk h t ss reg)"
    using transparent_emits [of ?m] assms(1) by (auto simp: steps_out_def steps_trace_def)
  have n: "emits (run_steps K clk h t ss' r)
      (lift_run (run_touched r) (run_events r) (run_dispatches r) r', res)
      (steps_trace K clk h t ss' (run_registry r) @ [])"
  proof -
    have n: "emits ?n (r', res) (steps_trace K clk h t ss' (run_registry r))"
      using transparent_emits [of ?n] assms(2) by (auto simp: steps_out_def steps_trace_def)
    have "run_steps K clk h t ss' r =
        lifted (run_touched r) (run_events r) (run_dispatches r) ?n"
      by (subst lift_run_fresh [of r]) (rule lift_run_steps)
    then show ?thesis
      unfolding lifted_def by (simp only:) (rule emits_bind [OF n], simp add: emits_return)
  qed
  have "emits (run_steps K clk h t (ss @ ss') (run_fresh reg))
      (lift_run (run_touched r) (run_events r) (run_dispatches r) r', res)
      (steps_trace K clk h t ss reg @ steps_trace K clk h t ss' (run_registry r) @ [])"
    unfolding run_steps_append
    by (rule emits_bind [OF m]) (use n in simp)
  from emits_result [OF this] show
    "steps_out K clk h t (ss @ ss') reg =
       (lift_run (run_touched r) (run_events r) (run_dispatches r) r', res)"
    "steps_trace K clk h t (ss @ ss') reg =
       steps_trace K clk h t ss reg @ steps_trace K clk h t ss' (run_registry r)"
    by (simp_all add: steps_out_def steps_trace_def)
qed

text \<open>What a list of accepted units makes of a registry, and the modules it reaches.\<close>

definition unit_reg ::
  "'m kernel \<Rightarrow> clock \<Rightarrow> u64 \<Rightarrow> u64 \<Rightarrow> accepted_unit \<Rightarrow> 'm registry \<Rightarrow> 'm registry" where
  "unit_reg K clk h t u reg = run_registry (fst (steps_out K clk h t (au_steps u) reg))"

fun after_units ::
  "'m kernel \<Rightarrow> clock \<Rightarrow> u64 \<Rightarrow> u64 \<Rightarrow> accepted_unit list \<Rightarrow> 'm registry \<Rightarrow> 'm registry" where
  "after_units K clk h t [] reg = reg"
| "after_units K clk h t (u # us) reg = after_units K clk h t us (unit_reg K clk h t u reg)"

fun units_reach ::
  "'m kernel \<Rightarrow> clock \<Rightarrow> u64 \<Rightarrow> u64 \<Rightarrow> accepted_unit list \<Rightarrow> 'm registry \<Rightarrow> module_id fset" where
  "units_reach K clk h t [] reg = {||}"
| "units_reach K clk h t (u # us) reg =
     run_touched (fst (steps_out K clk h t (au_steps u) reg)) |\<union>|
     units_reach K clk h t us (unit_reg K clk h t u reg)"

definition unit_ok ::
  "'m kernel \<Rightarrow> clock \<Rightarrow> u64 \<Rightarrow> u64 \<Rightarrow> witness \<Rightarrow> 'm registry \<Rightarrow> accepted_unit \<Rightarrow> bool" where
  "unit_ok K clk h t W reg u \<longleftrightarrow>
     (\<exists>r. steps_out K clk h t (au_steps u) reg = (r, Inr ()) \<and>
          au_events u = run_events r \<and> au_dispatches u = run_dispatches r) \<and>
     au_entry u < length W \<and> W ! au_entry u = steps_trace K clk h t (au_steps u) reg"

fun units_ok ::
  "'m kernel \<Rightarrow> clock \<Rightarrow> u64 \<Rightarrow> u64 \<Rightarrow> witness \<Rightarrow> accepted_unit list \<Rightarrow> 'm registry \<Rightarrow> bool" where
  "units_ok K clk h t W [] reg = True"
| "units_ok K clk h t W (u # us) reg =
     (unit_ok K clk h t W reg u \<and> units_ok K clk h t W us (unit_reg K clk h t u reg))"

lemma after_units_append:
  "after_units K clk h t (us @ vs) reg = after_units K clk h t vs (after_units K clk h t us reg)"
  by (induction us arbitrary: reg) auto

lemma units_reach_append:
  "units_reach K clk h t (us @ vs) reg =
   units_reach K clk h t us reg |\<union>| units_reach K clk h t vs (after_units K clk h t us reg)"
  by (induction us arbitrary: reg) auto

lemma units_ok_append:
  "units_ok K clk h t W (us @ vs) reg \<longleftrightarrow>
   units_ok K clk h t W us reg \<and> units_ok K clk h t W vs (after_units K clk h t us reg)"
  by (induction us arbitrary: reg) auto

lemma units_ok_cong:
  "\<forall>u\<in>set us. au_entry u < length W \<longrightarrow> au_entry u < length W' \<and> W' ! au_entry u = W ! au_entry u \<Longrightarrow>
   units_ok K clk h t W us reg \<Longrightarrow> units_ok K clk h t W' us reg"
  by (induction us arbitrary: reg) (auto simp: unit_ok_def)

lemma units_ok_entry: "units_ok K clk h t W us reg \<Longrightarrow> u \<in> set us \<Longrightarrow> au_entry u < length W"
  by (induction us arbitrary: reg) (auto simp: unit_ok_def)

section \<open>Live observers and replays of them\<close>

text \<open>
  \<open>fits ob W\<close>: the witness \<open>W\<close> continues the recording of the live observer \<open>ob\<close>, in which only the
  open entry can still grow. \<open>serves W ob ob'\<close>: \<open>ob'\<close> replays \<open>W\<close> and stands where \<open>ob\<close> does.
\<close>

definition live_ob :: "observing \<Rightarrow> bool" where
  "live_ob ob \<longleftrightarrow> ob_mode ob = Live \<and> ob_divergence ob = None \<and> ob_ok ob"

definition fits :: "observing \<Rightarrow> witness \<Rightarrow> bool" where
  "fits ob W \<longleftrightarrow>
     length (ob_units ob) \<le> length W \<and>
     (\<forall>e < length (ob_units ob).
        if \<exists>n. ob_open ob = Unit e n then prefix (ob_units ob ! e) (W ! e)
        else ob_units ob ! e = W ! e)"

definition serves :: "witness \<Rightarrow> observing \<Rightarrow> observing \<Rightarrow> bool" where
  "serves W ob ob' \<longleftrightarrow>
     ob_mode ob' = Replay {||} \<and> ob_units ob' = W \<and> ob_attempted ob' = ob_attempted ob \<and>
     ob_divergence ob' = None \<and>
     (case ob_open ob of
        Unit e n \<Rightarrow> ob_open ob' = Unit e (length (ob_units ob ! e))
      | Unrecorded \<Rightarrow> (\<forall>e n. ob_open ob' = Unit e n \<longrightarrow> e < length W \<and> n = length (W ! e)))"

lemma live_begin:
  assumes "live_ob ob"
  shows "run_state begin_unit ob =
           (length (ob_units ob),
            ob\<lparr>ob_units := ob_units ob @ [[]], ob_attempted := Suc (length (ob_units ob)),
               ob_open := Unit (length (ob_units ob)) 0\<rparr>)"
  using assms
  by (cases ob) (auto simp: live_ob_def ob_ok_def begin_unit_def close_open_def Let_def)

lemma replay_begin:
  assumes "live_ob ob" and "serves W ob o2"
    and "fits (snd (run_state begin_unit ob)) W"
  shows "\<exists>o2'. run_state begin_unit o2 = (length (ob_units ob), o2') \<and>
               serves W (snd (run_state begin_unit ob)) o2'"
proof -
  have "close_open o2 = o2"
    using assms
    by (auto simp: serves_def close_open_def fits_def live_begin live_ob_def ob_ok_def
        nth_append split: open_unit.splits if_splits)
  then show ?thesis
    unfolding live_begin [OF assms(1)] snd_conv
    using assms(1,2) by (auto simp: begin_unit_def Let_def serves_def live_ob_def ob_ok_def)
qed

lemma fits_begin:
  assumes "live_ob ob" and "fits (snd (run_state begin_unit ob)) W"
  shows "fits ob W"
  using assms by (auto simp: fits_def live_begin nth_append less_Suc_eq split: if_splits)

lemma live_resume:
  "live_ob ob \<Longrightarrow> run_state (resume e) ob = ((), ob\<lparr>ob_open := Unrecorded\<rparr>)"
  by (simp add: live_ob_def resume_def close_open_def)

lemma replay_resume:
  assumes "live_ob ob" and "serves W ob o2" and "fits (ob\<lparr>ob_open := Unrecorded\<rparr>) W"
  shows "run_state (resume e) o2 = ((), o2\<lparr>ob_open := Unit e 0\<rparr>)"
proof -
  have "close_open o2 = o2"
    using assms
    by (auto simp: serves_def close_open_def fits_def live_ob_def ob_ok_def
        split: open_unit.splits)
  with assms(2) show ?thesis by (simp add: resume_def serves_def)
qed

lemma fits_resume: "fits (ob\<lparr>ob_open := Unrecorded\<rparr>) W \<Longrightarrow> fits ob W"
  by (auto simp: fits_def)

lemma fits_advance:
  assumes "live_ob ob" and "fits (advance trs ob) W"
  shows "fits ob W"
proof (cases "ob_open ob")
  case (Unit e n)
  with assms have e: "e < length (ob_units ob)" by (auto simp: live_ob_def ob_ok_def)
  have "prefix (ob_units ob ! e) (W ! e)" if "prefix (ob_units ob ! e @ trs) (W ! e)"
    using that by (rule append_prefixD)
  with assms Unit e show ?thesis
    by (auto simp: fits_def advance_def live_ob_def nth_list_update split: if_splits)
qed (use assms in \<open>simp add: advance_def\<close>)

lemma replay_advance:
  assumes "live_ob ob" and "serves W ob o2" and "ob_open ob = Unit e n" and "fits (advance trs ob) W"
  shows "ready trs o2" and "serves W (advance trs ob) (advance trs o2)"
proof -
  have e: "e < length (ob_units ob)" using assms(1,3) by (auto simp: live_ob_def ob_ok_def)
  with assms have p: "prefix (ob_units ob ! e @ trs) (W ! e)" "e < length W"
    by (auto simp: fits_def advance_def live_ob_def)
  then have "prefix trs (drop (length (ob_units ob ! e)) (W ! e))" by (auto simp: prefix_def)
  then show "ready trs o2"
    using assms(2,3) p(2) by (simp add: ready_def serves_def)
  show "serves W (advance trs ob) (advance trs o2)"
    using assms(1,2,3) e by (auto simp: serves_def advance_def live_ob_def)
qed

lemma live_advance: "live_ob ob \<Longrightarrow> live_ob (advance trs ob)"
  by (auto simp: live_ob_def ob_ok_def advance_def split: open_unit.split)

lemma live_ready: "live_ob ob \<Longrightarrow> ready trs ob"
  by (simp add: live_ob_def ready_live)

section \<open>Operations that replay\<close>

abbreviation blk_ob :: "'m blk \<Rightarrow> observing" where
  "blk_ob c \<equiv> br_observer (snd c)"

definition with_ob :: "observing \<Rightarrow> 'm blk \<Rightarrow> 'm blk" where
  "with_ob ob c = (fst c, (snd c)\<lparr>br_observer := ob\<rparr>)"

lemma with_ob_simps [simp]:
  "fst (with_ob ob c) = fst c"
  "br_observer (snd (with_ob ob c)) = ob"
  "br_touched (snd (with_ob ob c)) = br_touched (snd c)"
  "br_accepted (snd (with_ob ob c)) = br_accepted (snd c)"
  "br_replays (snd (with_ob ob c)) = br_replays (snd c)"
  "br_height (snd (with_ob ob c)) = br_height (snd c)"
  "br_consensus_time (snd (with_ob ob c)) = br_consensus_time (snd c)"
  "budget_exhausted (snd (with_ob ob c)) = budget_exhausted (snd c)"
  by (simp_all add: with_ob_def budget_exhausted_def)

text \<open>
  \<open>f\<close> takes the live state \<open>c\<close> to \<open>c'\<close> with result \<open>v\<close>, and so it does under every observer that
  replays a witness which continues the recording of \<open>c'\<close>.
\<close>

definition runs :: "('m blk \<Rightarrow> 'm blk \<times> (submit_error + 'v)) \<Rightarrow> 'm blk \<Rightarrow> 'm blk \<Rightarrow> 'v \<Rightarrow> bool" where
  "runs f c c' v \<longleftrightarrow>
     f c = (c', Inr v) \<and>
     (\<forall>W. fits (blk_ob c') W \<longrightarrow> fits (blk_ob c) W) \<and>
     (\<forall>W o2. serves W (blk_ob c) o2 \<longrightarrow> fits (blk_ob c') W \<longrightarrow>
        (\<exists>o2'. f (with_ob o2 c) = (with_ob o2' c', Inr v) \<and> serves W (blk_ob c') o2'))"

definition good ::
  "('m blk \<Rightarrow> 'm blk \<times> (submit_error + 'v)) \<Rightarrow> 'm blk \<Rightarrow> ('m blk \<Rightarrow> 'v \<Rightarrow> bool) \<Rightarrow>
   (submit_error \<Rightarrow> bool) \<Rightarrow> bool" where
  "good f c P E \<longleftrightarrow>
     (\<exists>c' v. runs f c c' v \<and> P c' v) \<or> (\<exists>c' e. f c = (c', Inl e) \<and> E e)"

lemma runs_then:
  assumes "runs f c c1 v" and "runs (\<lambda>c. k c v) c1 c2 w"
  shows "runs (\<lambda>c. st_then (f c) k) c c2 w"
  unfolding runs_def
proof (intro conjI allI impI)
  show "st_then (f c) k = (c2, Inr w)" using assms by (simp add: runs_def)
  show "fits (blk_ob c) W" if "fits (blk_ob c2) W" for W
    using assms that by (auto simp: runs_def)
  show "\<exists>o2'. st_then (f (with_ob o2 c)) k = (with_ob o2' c2, Inr w) \<and> serves W (blk_ob c2) o2'"
    if o2: "serves W (blk_ob c) o2" and W: "fits (blk_ob c2) W" for W o2
  proof -
    have "fits (blk_ob c1) W" using assms(2) W by (auto simp: runs_def)
    then obtain o1 where 1: "f (with_ob o2 c) = (with_ob o1 c1, Inr v)" "serves W (blk_ob c1) o1"
      using assms(1) o2 unfolding runs_def by blast
    then obtain o3 where "k (with_ob o1 c1) v = (with_ob o3 c2, Inr w)" "serves W (blk_ob c2) o3"
      using assms(2) W unfolding runs_def by blast
    with 1 show ?thesis by auto
  qed
qed

lemma runs_Inr:
  assumes "\<And>ob. g (with_ob ob c) = with_ob ob (g c)" and "blk_ob (g c) = blk_ob c"
  shows "runs (\<lambda>c. (g c, Inr v)) c (g c) v"
  using assms by (auto simp: runs_def)

lemma runs_cong:
  assumes "runs g c c' v" and "f c = g c" and "\<And>ob. f (with_ob ob c) = g (with_ob ob c)"
  shows "runs f c c' v"
  using assms by (simp add: runs_def)

lemma runs_step:
  assumes "runs g c1 c' v" and "f c = g c1"
    and "\<And>W. fits (blk_ob c1) W \<Longrightarrow> fits (blk_ob c) W"
    and "\<And>W o2. serves W (blk_ob c) o2 \<Longrightarrow> fits (blk_ob c1) W \<Longrightarrow>
           \<exists>o1. f (with_ob o2 c) = g (with_ob o1 c1) \<and> serves W (blk_ob c1) o1"
  shows "runs f c c' v"
  unfolding runs_def
proof (intro conjI allI impI)
  show "f c = (c', Inr v)" using assms(1,2) by (simp add: runs_def)
  show "fits (blk_ob c) W" if "fits (blk_ob c') W" for W
    using assms(1,3) that by (auto simp: runs_def)
  show "\<exists>o2'. f (with_ob o2 c) = (with_ob o2' c', Inr v) \<and> serves W (blk_ob c') o2'"
    if o2: "serves W (blk_ob c) o2" and W: "fits (blk_ob c') W" for W o2
  proof -
    have "fits (blk_ob c1) W" using assms(1) W by (auto simp: runs_def)
    from assms(4) [OF o2 this] obtain o1 where
      "f (with_ob o2 c) = g (with_ob o1 c1)" "serves W (blk_ob c1) o1" by blast
    moreover from this obtain o3 where "g (with_ob o1 c1) = (with_ob o3 c', Inr v)"
      "serves W (blk_ob c') o3"
      using assms(1) W unfolding runs_def by blast
    ultimately show ?thesis by auto
  qed
qed

lemma good_then:
  assumes "good f c Q E" and "\<And>c1 v. Q c1 v \<Longrightarrow> good (\<lambda>c. k c v) c1 P E"
  shows "good (\<lambda>c. st_then (f c) k) c P E"
  using assms(1)
proof (unfold good_def [of f c Q E], elim disjE exE conjE)
  fix c1 v assume r: "runs f c c1 v" and "Q c1 v"
  from assms(2) [OF this(2)] show ?thesis
    unfolding good_def
  proof (elim disjE exE conjE)
    fix c2 w assume w: "runs (\<lambda>c. k c v) c1 c2 w" and "P c2 w"
    with runs_then [where k = k, OF r w] show "(\<exists>c' v. runs (\<lambda>c. st_then (f c) k) c c' v \<and> P c' v) \<or>
      (\<exists>c' e. st_then (f c) k = (c', Inl e) \<and> E e)"
      by blast
  next
    fix c2 e assume "k c1 v = (c2, Inl e)" "E e"
    moreover have "f c = (c1, Inr v)" using r by (simp add: runs_def)
    ultimately show "(\<exists>c' v. runs (\<lambda>c. st_then (f c) k) c c' v \<and> P c' v) \<or>
      (\<exists>c' e. st_then (f c) k = (c', Inl e) \<and> E e)"
      by auto
  qed
next
  fix c1 e assume "f c = (c1, Inl e)" "E e"
  then show ?thesis unfolding good_def by auto
qed

lemma good_runs: "runs f c c' v \<Longrightarrow> P c' v \<Longrightarrow> good f c P E"
  unfolding good_def by blast

lemma good_cong:
  assumes "good g c P E" and "f c = g c" and "\<And>ob. f (with_ob ob c) = g (with_ob ob c)"
  shows "good f c P E"
  using assms(1) runs_cong [OF _ assms(2,3)] assms(2) unfolding good_def by metis

lemma good_return: "P c v \<Longrightarrow> good (\<lambda>c. (c, Inr v)) c P E"
  by (rule good_runs [OF runs_Inr [of "\<lambda>c. c"]]) simp_all

lemma accept_as_with_ob: "accept_as s r u (with_ob ob c) = with_ob ob (accept_as s r u c)"
  by (simp add: accept_as_def set_accepted_def with_ob_def)

lemma set_accepted_with_ob: "set_accepted us (with_ob ob c) = with_ob ob (set_accepted us c)"
  by (simp add: set_accepted_def with_ob_def)

lemma good_accept:
  "P (accept_as s r u c) v \<Longrightarrow> good (\<lambda>c. (accept_as s r u c, Inr v)) c P E"
  by (rule good_runs [OF runs_Inr [of "accept_as s r u"]])
    (simp_all add: accept_as_with_ob, simp add: accept_as_def)

lemma good_weaken:
  "good f c P E \<Longrightarrow> (\<And>c v. P c v \<Longrightarrow> Q c v) \<Longrightarrow> (\<And>e. E e \<Longrightarrow> F e) \<Longrightarrow> good f c Q F"
  unfolding good_def by blast

section \<open>The live invariant\<close>

definition live_inv ::
  "'m kernel \<Rightarrow> clock \<Rightarrow> u64 \<Rightarrow> u64 \<Rightarrow> 'm registry \<Rightarrow> accepted_unit list \<Rightarrow> 'm blk \<Rightarrow> bool" where
  "live_inv K clk h t reg0 acc c \<longleftrightarrow>
     br_height (snd c) = h \<and> br_consensus_time (snd c) = t \<and> live_ob (blk_ob c) \<and>
     fst c = after_units K clk h t acc reg0 \<and>
     br_touched (snd c) = units_reach K clk h t acc reg0 \<and>
     units_ok K clk h t (ob_units (blk_ob c)) acc reg0 \<and>
     sorted_wrt (<) (map au_entry acc)"

text \<open>Between units, and while a unit is open that is not yet among the accepted ones.\<close>

definition at_rest :: "'m kernel \<Rightarrow> clock \<Rightarrow> u64 \<Rightarrow> u64 \<Rightarrow> 'm registry \<Rightarrow> 'm blk \<Rightarrow> bool" where
  "at_rest K clk h t reg0 c \<longleftrightarrow> live_inv K clk h t reg0 (br_accepted (snd c)) c"

definition unit_open ::
  "'m kernel \<Rightarrow> clock \<Rightarrow> u64 \<Rightarrow> u64 \<Rightarrow> 'm registry \<Rightarrow> accepted_unit \<Rightarrow> 'm blk \<Rightarrow> bool" where
  "unit_open K clk h t reg0 u c \<longleftrightarrow>
     live_inv K clk h t reg0 (br_accepted (snd c) @ [u]) c \<and>
     (\<exists>n. ob_open (blk_ob c) = Unit (au_entry u) n) \<and>
     length (ob_units (blk_ob c)) = Suc (au_entry u)"

lemma unit_ok_slot [simp]:
  "unit_ok K clk h t W reg (u\<lparr>au_slot := s\<rparr>) = unit_ok K clk h t W reg u"
  "unit_ok K clk h t W reg (u\<lparr>au_resolved := r\<rparr>) = unit_ok K clk h t W reg u"
  "unit_reg K clk h t (u\<lparr>au_slot := s\<rparr>) reg = unit_reg K clk h t u reg"
  "unit_reg K clk h t (u\<lparr>au_resolved := r\<rparr>) reg = unit_reg K clk h t u reg"
  by (simp_all add: unit_ok_def unit_reg_def)

lemma live_inv_slot:
  "live_inv K clk h t reg0 (acc @ [u\<lparr>au_slot := s, au_resolved := r\<rparr>]) c = live_inv K clk h t reg0 (acc @ [u]) c"
  by (simp add: live_inv_def after_units_append units_reach_append units_ok_append)

lemma at_rest_accept: "unit_open K clk h t reg0 u c \<Longrightarrow> at_rest K clk h t reg0 (accept_as s r u c)"
  by (simp add: unit_open_def at_rest_def accept_as_def live_inv_slot)
    (simp add: live_inv_def)

lemma live_inv_set_accepted [simp]:
  "live_inv K clk h t reg0 acc (set_accepted us c) = live_inv K clk h t reg0 acc c"
  by (simp add: live_inv_def)

context host_laws
begin

lemma steps_out_frame:
  assumes "steps_out K clk h t ss reg = (r, res)"
  shows "reg_frame base (run_touched r) reg (run_registry r)"
proof -
  have "run_state (run_steps K clk h t ss (run_fresh reg)) recorder =
      ((r, res), advance (steps_trace K clk h t ss reg) recorder)"
    using steps_ready [of K clk h t ss reg recorder] assms by simp
  from pred_stateD [OF run_steps_frame this] show ?thesis
    by (simp add: run_frame_def run_fresh_def)
qed

lemma after_units_frame:
  "reg_frame base (units_reach K clk h t us reg) reg (after_units K clk h t us reg)"
proof (induction us arbitrary: reg)
  case (Cons u us)
  obtain r res where s: "steps_out K clk h t (au_steps u) reg = (r, res)" by fastforce
  from reg_frame_trans [OF steps_out_frame [OF s] Cons.IH [of "run_registry r"]]
  show ?case by (simp add: unit_reg_def s)
qed simp

lemma live_inv_frame: "live_inv K clk h t reg0 acc c \<Longrightarrow> blk_frame base reg0 c"
  using after_units_frame by (simp add: live_inv_def blk_frame_def)

lemma stage_steps_live:
  assumes "ready (steps_trace K clk (br_height (snd c)) (br_consensus_time (snd c)) ss (fst c)) (blk_ob c)"
    and "steps_out K clk (br_height (snd c)) (br_consensus_time (snd c)) ss (fst c) = (r, res)"
  shows "stage_steps K clk ss c =
    ((run_registry r, (snd c)\<lparr>br_observer :=
        advance (steps_trace K clk (br_height (snd c)) (br_consensus_time (snd c)) ss (fst c)) (blk_ob c),
        br_touched := br_touched (snd c) |\<union>| run_touched r\<rparr>), r, res)"
  unfolding stage_steps_def Let_def using steps_ready [OF assms(1)] assms(2) by simp

lemma replay_loop_runs:
  fixes c :: "'m blk"
  assumes "live_ob (blk_ob c)"
    and "units_ok K clk (br_height (snd c)) (br_consensus_time (snd c)) (ob_units (blk_ob c)) us (fst c)"
  shows "runs (\<lambda>c. replay_loop K clk c replayed us) c
    (after_units K clk (br_height (snd c)) (br_consensus_time (snd c)) us (fst c),
     (snd c)\<lparr>br_observer := (if us = [] then blk_ob c else (blk_ob c)\<lparr>ob_open := Unrecorded\<rparr>),
       br_touched := br_touched (snd c) |\<union>|
         units_reach K clk (br_height (snd c)) (br_consensus_time (snd c)) us (fst c),
       br_accepted := replayed @ us\<rparr>) ()"
  using assms
proof (induction us arbitrary: c replayed)
  case Nil
  have "(fst c, (snd c)\<lparr>br_observer := blk_ob c, br_touched := br_touched (snd c) |\<union>| {||},
      br_accepted := replayed\<rparr>) = set_accepted replayed c"
    by (simp add: set_accepted_def)
  then show ?case
    using runs_Inr [of "set_accepted replayed" c "()"] by (simp add: set_accepted_with_ob)
next
  case (Cons u us)
  let ?h = "br_height (snd c)" and ?t = "br_consensus_time (snd c)"
  let ?tr = "steps_trace K clk ?h ?t (au_steps u) (fst c)"
  let ?ob = "(blk_ob c)\<lparr>ob_open := Unrecorded\<rparr>"
  from Cons.prems(2) obtain r where r: "steps_out K clk ?h ?t (au_steps u) (fst c) = (r, Inr ())"
    "au_events u = run_events r" "au_dispatches u = run_dispatches r"
    and entry: "au_entry u < length (ob_units (blk_ob c))" "ob_units (blk_ob c) ! au_entry u = ?tr"
    by (auto simp: unit_ok_def)
  have u: "u\<lparr>au_events := run_events r, au_dispatches := run_dispatches r\<rparr> = u"
    by (cases u) (use r in simp)
  define c1 where "c1 = (run_registry r, (snd c)\<lparr>br_observer := ?ob,
      br_touched := br_touched (snd c) |\<union>| run_touched r\<rparr>)"
  have live: "live_ob ?ob" using Cons.prems(1) by (simp add: live_ob_def ob_ok_def)
  have same: "advance ?tr ?ob = ?ob" by (simp add: advance_def)
  show ?case
  proof (rule runs_step [of "\<lambda>c. replay_loop K clk c (replayed @ [u]) us" c1])
    have "stage_steps K clk (au_steps u) (fst c, (snd c)\<lparr>br_observer := ?ob\<rparr>) = (c1, r, Inr ())"
      using stage_steps_live [of clk "(fst c, (snd c)\<lparr>br_observer := ?ob\<rparr>)" "au_steps u" r "Inr ()"]
        live_ready [OF live] r(1) by (simp add: same c1_def)
    then show "replay_loop K clk c replayed (u # us) = replay_loop K clk c1 (replayed @ [u]) us"
      using Cons.prems(1) live by (simp add: live_resume u c1_def live_ob_def)
    show "fits (blk_ob c) W" if "fits (blk_ob c1) W" for W
      using that fits_resume by (simp add: c1_def)
    show "\<exists>o1. replay_loop K clk (with_ob o2 c) replayed (u # us) =
        replay_loop K clk (with_ob o1 c1) (replayed @ [u]) us \<and> serves W (blk_ob c1) o1"
      if o2: "serves W (blk_ob c) o2" and W: "fits (blk_ob c1) W" for W o2
    proof -
      let ?o = "o2\<lparr>ob_open := Unit (au_entry u) 0\<rparr>"
      have res: "run_state (resume (au_entry u)) o2 = ((), ?o)"
        using replay_resume [OF Cons.prems(1) o2] W by (simp add: c1_def)
      have We: "au_entry u < length W" "W ! au_entry u = ?tr"
        using W entry by (auto simp: c1_def fits_def)
      have rd: "ready ?tr ?o" using o2 We by (simp add: ready_def serves_def)
      have st: "stage_steps K clk (au_steps u) (fst c, (snd c)\<lparr>br_observer := ?o\<rparr>) =
          (with_ob (advance ?tr ?o) c1, r, Inr ())"
        using stage_steps_live [of clk "(fst c, (snd c)\<lparr>br_observer := ?o\<rparr>)" "au_steps u" r "Inr ()"]
          rd r(1) by (simp add: with_ob_def c1_def)
      have "serves W (blk_ob c1) (advance ?tr ?o)"
        using o2 We by (auto simp: serves_def c1_def advance_def)
      moreover have "replay_loop K clk (with_ob o2 c) replayed (u # us) =
          replay_loop K clk (with_ob (advance ?tr ?o) c1) (replayed @ [u]) us"
        using st o2 by (simp add: res u serves_def) (simp add: with_ob_def u)
      ultimately show ?thesis by blast
    qed
    have ok: "units_ok K clk ?h ?t (ob_units (blk_ob c1)) us (fst c1)"
      using Cons.prems(2) r(1) by (simp add: c1_def unit_reg_def)
    show "runs (\<lambda>c. replay_loop K clk c (replayed @ [u]) us) c1
      (after_units K clk ?h ?t (u # us) (fst c),
       (snd c)\<lparr>br_observer := (if u # us = [] then blk_ob c else ?ob),
         br_touched := br_touched (snd c) |\<union>| units_reach K clk ?h ?t (u # us) (fst c),
         br_accepted := replayed @ u # us\<rparr>) ()"
      using Cons.IH [of c1 "replayed @ [u]"] live ok r(1)
      by (simp add: c1_def unit_reg_def sup_assoc cong: if_cong)
  qed
qed

lemma abort_stage_runs:
  assumes "quiescent base reg0" and "blk_frame base reg0 c"
  shows "runs (abort_stage (k_ops K)) c (reg0, (snd c)\<lparr>br_touched := {||}\<rparr>) ()"
proof -
  have "blk_frame base reg0 (with_ob ob c)" for ob
    using assms(2) by (simp add: blk_frame_def)
  note this [THEN abort_stage_restores [OF assms(1)]]
  moreover have "(reg0, (snd (with_ob ob c))\<lparr>br_touched := {||}\<rparr>) =
      with_ob ob (reg0, (snd c)\<lparr>br_touched := {||}\<rparr>)" for ob
    by (cases "snd c") (simp add: with_ob_def)
  ultimately show ?thesis
    using abort_stage_restores [OF assms] by (auto simp: runs_def)
qed

lemma isolate_runs:
  assumes "quiescent base reg0" and "blk_frame base reg0 c" and "live_ob (blk_ob c)"
    and "br_height (snd c) = h" and "br_consensus_time (snd c) = t"
    and "units_ok K clk h t (ob_units (blk_ob c)) (br_accepted (snd c)) reg0"
    and "sorted_wrt (<) (map au_entry (br_accepted (snd c)))"
  shows "\<exists>c'. runs (isolate K clk) c c' () \<and> at_rest K clk h t reg0 c' \<and>
              br_accepted (snd c') = br_accepted (snd c) \<and> br_replays (snd c') = Suc (br_replays (snd c))"
proof -
  let ?acc = "br_accepted (snd c)"
  define c1 where "c1 = (reg0, (snd c)\<lparr>br_touched := {||}, br_accepted := []\<rparr>)"
  have c1: "c1 = set_accepted [] (reg0, (snd c)\<lparr>br_touched := {||}\<rparr>)"
    by (simp add: c1_def set_accepted_def)
  define ob where "ob = (if ?acc = [] then blk_ob c else (blk_ob c)\<lparr>ob_open := Unrecorded\<rparr>)"
  define c2 where "c2 = (after_units K clk h t ?acc reg0, (snd c)\<lparr>br_observer := ob,
    br_touched := units_reach K clk h t ?acc reg0, br_accepted := ?acc\<rparr>)"
  have "runs (\<lambda>c. replay_loop K clk c [] ?acc) c1 c2 ()"
    using replay_loop_runs [of c1 clk ?acc "[]"] assms(3-6)
    by (simp add: c1_def c2_def ob_def cong: if_cong)
  then have "runs (replay_accepted K clk) (reg0, (snd c)\<lparr>br_touched := {||}\<rparr>) c2 ()"
    by (rule runs_step)
      (auto simp: replay_accepted_def set_accepted_with_ob c1)
  moreover have "runs (\<lambda>c. ((fst c, (snd c)\<lparr>br_replays := br_replays (snd c) + 1\<rparr>), Inr ())) c2
      (fst c2, (snd c2)\<lparr>br_replays := br_replays (snd c2) + 1\<rparr>) ()"
    by (rule runs_Inr) (simp_all add: with_ob_def)
  ultimately have "runs (isolate K clk) c (fst c2, (snd c2)\<lparr>br_replays := br_replays (snd c2) + 1\<rparr>) ()"
    unfolding isolate_def using abort_stage_runs [OF assms(1,2)] by (auto intro!: runs_then)
  moreover have "live_ob ob" using assms(3) by (auto simp: ob_def live_ob_def ob_ok_def)
  ultimately show ?thesis
    using assms(4-7)
    by (intro exI [of _ "(fst c2, (snd c2)\<lparr>br_replays := br_replays (snd c2) + 1\<rparr>)"])
      (simp add: at_rest_def live_inv_def c2_def ob_def)
qed

end

end
