(* ===== verification/Host_Replay.thy ===== *)
theory Host_Replay
  imports Host_Isolation
begin

text \<open>
  The units of a live block, one operation at a time: every operation of the block engine keeps the
  live invariant, never faults except where a read of this node fails, and replays.
\<close>

section \<open>Units\<close>

definition stage_next :: "'m kernel \<Rightarrow> clock \<Rightarrow> step list \<Rightarrow> 'm blk \<Rightarrow> 'm blk" where
  "stage_next K clk ss c =
     (let h = br_height (snd c); t = br_consensus_time (snd c);
          r = fst (steps_out K clk h t ss (fst c))
      in (run_registry r,
          (snd c)\<lparr>br_observer := advance (steps_trace K clk h t ss (fst c)) (blk_ob c),
                  br_touched := br_touched (snd c) |\<union>| run_touched r\<rparr>))"

context host_laws
begin

lemma stage_ready:
  assumes "ready (steps_trace K clk (br_height (snd c)) (br_consensus_time (snd c)) ss (fst c)) (blk_ob c)"
  shows "stage_steps K clk ss c =
    (stage_next K clk ss c, steps_out K clk (br_height (snd c)) (br_consensus_time (snd c)) ss (fst c))"
  using stage_steps_live [OF assms]
  by (cases "steps_out K clk (br_height (snd c)) (br_consensus_time (snd c)) ss (fst c)")
    (simp add: stage_next_def Let_def)

lemma stage_live:
  "live_ob (blk_ob c) \<Longrightarrow> stage_steps K clk ss c =
    (stage_next K clk ss c, steps_out K clk (br_height (snd c)) (br_consensus_time (snd c)) ss (fst c))"
  by (rule stage_ready, rule live_ready)

lemma stage_next_live: "live_ob (blk_ob c) \<Longrightarrow> live_ob (blk_ob (stage_next K clk ss c))"
  by (simp add: stage_next_def Let_def live_advance)

lemma stage_next_fits:
  "live_ob (blk_ob c) \<Longrightarrow> fits (blk_ob (stage_next K clk ss c)) W \<Longrightarrow> fits (blk_ob c) W"
  by (rule fits_advance) (simp_all add: stage_next_def Let_def)

lemma stage_next_with_ob:
  "stage_next K clk ss (with_ob ob c) =
   with_ob (advance (steps_trace K clk (br_height (snd c)) (br_consensus_time (snd c)) ss (fst c)) ob)
     (stage_next K clk ss c)"
  by (cases "snd c") (simp add: stage_next_def Let_def with_ob_def)

lemma stage_replay:
  assumes "live_ob (blk_ob c)" and "ob_open (blk_ob c) = Unit e n"
    and "serves W (blk_ob c) o2" and "fits (blk_ob (stage_next K clk ss c)) W"
  shows "\<exists>o1. stage_steps K clk ss (with_ob o2 c) = (with_ob o1 (stage_next K clk ss c),
           steps_out K clk (br_height (snd c)) (br_consensus_time (snd c)) ss (fst c)) \<and>
         serves W (blk_ob (stage_next K clk ss c)) o1"
proof -
  have f: "fits (advance (steps_trace K clk (br_height (snd c)) (br_consensus_time (snd c)) ss (fst c))
      (blk_ob c)) W"
    using assms(4) by (simp add: stage_next_def Let_def)
  note rs = replay_advance [OF assms(1,3,2) f]
  show ?thesis
    by (intro exI [of _ "advance (steps_trace K clk (br_height (snd c)) (br_consensus_time (snd c)) ss
          (fst c)) o2"] conjI)
      (use stage_ready [of clk "with_ob o2 c" ss] rs in
        \<open>simp add: stage_next_with_ob\<close>, use rs in \<open>simp add: stage_next_def Let_def\<close>)
qed

lemma check_witness_live: "live_ob (blk_ob c) \<Longrightarrow> check_witness (k_ops K) c = (c, Inr ())"
  by (simp add: check_witness_def live_ob_def)

lemma check_witness_serves:
  "serves W ob o2 \<Longrightarrow> check_witness (k_ops K) (with_ob o2 c) = (with_ob o2 c, Inr ())"
  by (simp add: check_witness_def serves_def)

text \<open>What the steps of a unit make of the live invariant.\<close>

lemma stage_next_frame:
  "blk_frame base reg0 c \<Longrightarrow> blk_frame base reg0 (stage_next K clk ss c)"
  using steps_out_frame [of clk "br_height (snd c)" "br_consensus_time (snd c)" ss "fst c"]
    reg_frame_trans [of base "br_touched (snd c)" reg0 "fst c"]
  by (cases "steps_out K clk (br_height (snd c)) (br_consensus_time (snd c)) ss (fst c)")
    (simp add: blk_frame_def stage_next_def Let_def)

lemma stage_untouched:
  assumes "quiescent base reg0" and "blk_frame base reg0 c"
    and "run_touched (fst (steps_out K clk (br_height (snd c)) (br_consensus_time (snd c)) ss (fst c))) = {||}"
  shows "fst (stage_next K clk ss c) = fst c"
    and "br_touched (snd (stage_next K clk ss c)) = br_touched (snd c)"
proof -
  obtain r res where o: "steps_out K clk (br_height (snd c)) (br_consensus_time (snd c)) ss (fst c) = (r, res)"
    by fastforce
  have f: "reg_frame base {||} (fst c) (run_registry r)"
    using steps_out_frame [OF o] assms(3) o by simp
  have "bt_inv (fst c)" using assms(1,2) by (auto simp: quiescent_def blk_frame_def reg_frame_def)
  then have "run_registry r = fst c"
    using f by (intro bt.entries_ext) (auto simp: reg_frame_def)
  then show "fst (stage_next K clk ss c) = fst c" by (simp add: stage_next_def Let_def o)
  show "br_touched (snd (stage_next K clk ss c)) = br_touched (snd c)"
    using assms(3) by (simp add: stage_next_def Let_def)
qed

end

text \<open>A unit that has just been opened.\<close>

definition opened :: "'m blk \<Rightarrow> 'm blk" where
  "opened c = with_ob (snd (run_state begin_unit (blk_ob c))) c"

definition new_unit ::
  "'m kernel \<Rightarrow> clock \<Rightarrow> u64 \<Rightarrow> u64 \<Rightarrow> step list \<Rightarrow> 'm blk \<Rightarrow> accepted_unit" where
  "new_unit K clk h t ss c =
     (let r = fst (steps_out K clk h t ss (fst c))
      in \<lparr>au_slot = SlotMember 0, au_resolved = ResolvedMember, au_steps = ss,
          au_events = run_events r, au_dispatches = run_dispatches r,
          au_entry = length (ob_units (blk_ob c))\<rparr>)"

lemma opened_simps [simp]:
  "fst (opened c) = fst c"
  "br_touched (snd (opened c)) = br_touched (snd c)"
  "br_accepted (snd (opened c)) = br_accepted (snd c)"
  "br_replays (snd (opened c)) = br_replays (snd c)"
  "br_height (snd (opened c)) = br_height (snd c)"
  "br_consensus_time (snd (opened c)) = br_consensus_time (snd c)"
  by (simp_all add: opened_def)

lemma opened_live:
  assumes "live_ob (blk_ob c)"
  shows "live_ob (blk_ob (opened c))"
    and "ob_units (blk_ob (opened c)) = ob_units (blk_ob c) @ [[]]"
    and "ob_open (blk_ob (opened c)) = Unit (length (ob_units (blk_ob c))) 0"
  using assms by (auto simp: opened_def live_begin live_ob_def ob_ok_def)

lemma stage_next_simps [simp]:
  "br_accepted (snd (stage_next K clk ss c)) = br_accepted (snd c)"
  "br_replays (snd (stage_next K clk ss c)) = br_replays (snd c)"
  "br_height (snd (stage_next K clk ss c)) = br_height (snd c)"
  "br_consensus_time (snd (stage_next K clk ss c)) = br_consensus_time (snd c)"
  by (simp_all add: stage_next_def Let_def)

lemma stage_next_units:
  assumes "live_ob (blk_ob c)" and "ob_open (blk_ob c) = Unit e n"
  shows "ob_units (blk_ob (stage_next K clk ss c)) =
     (ob_units (blk_ob c))[e := ob_units (blk_ob c) ! e @
        steps_trace K clk (br_height (snd c)) (br_consensus_time (snd c)) ss (fst c)]"
    and "ob_open (blk_ob (stage_next K clk ss c)) = Unit e n"
  using assms by (simp_all add: stage_next_def Let_def advance_def live_ob_def)

text \<open>What a unit's verdict says of the run of its steps.\<close>

definition unit_result ::
  "'m kernel \<Rightarrow> clock \<Rightarrow> u64 \<Rightarrow> u64 \<Rightarrow> step list \<Rightarrow> 'm blk \<Rightarrow> 'm blk \<Rightarrow> unit_verdict \<Rightarrow> bool" where
  "unit_result K clk h t ss c c' v \<longleftrightarrow>
     br_accepted (snd c') = br_accepted (snd c) \<and>
     (case (v, steps_out K clk h t ss (fst c)) of
        (Unattempted, _) \<Rightarrow>
          budget_exhausted (snd c) \<and> br_replays (snd c') = br_replays (snd c)
      | (UnitRejected e, r, res) \<Rightarrow>
          \<not> budget_exhausted (snd c) \<and> res = Inl e \<and>
          br_replays (snd c') = br_replays (snd c) + (if run_touched r = {||} then 0 else 1)
      | (Accepted u, r, res) \<Rightarrow>
          \<not> budget_exhausted (snd c) \<and> res = Inr () \<and> au_steps u = ss \<and>
          au_resolved u = ResolvedMember \<and> br_replays (snd c') = br_replays (snd c))"

lemma runs_id: "runs (\<lambda>c. (c, Inr v)) c c v"
  by (rule runs_Inr) simp_all

lemma runs_then_return: "runs f c c' v \<Longrightarrow> runs (\<lambda>c. st_then (f c) (\<lambda>c _. (c, Inr w))) c c' w"
  by (rule runs_then [where k = "\<lambda>c _. (c, Inr w)"]) (assumption, rule runs_id)

context host_laws
begin

text \<open>The decision at the end of \<^verbatim>\<open>run_unit\<close>.\<close>

lemma run_unit_live:
  assumes "live_ob (blk_ob c)" and "\<not> budget_exhausted (snd c)"
    and "steps_out K clk (br_height (snd c)) (br_consensus_time (snd c)) ss (fst c) = (r, res)"
    and "runs (\<lambda>c2. case res of
           Inr _ \<Rightarrow> (c2, Inr (Accepted
             (new_unit K clk (br_height (snd c)) (br_consensus_time (snd c)) ss c)))
         | Inl reason \<Rightarrow>
             if run_touched r \<noteq> {||}
             then st_then (isolate K clk c2) (\<lambda>c3 _. (c3, Inr (UnitRejected reason)))
             else (c2, Inr (UnitRejected reason)))
         (stage_next K clk ss (opened c)) c' v"
  shows "runs (run_unit K clk ss) c c' v"
proof -
  let ?g = "\<lambda>c2. case res of
           Inr _ \<Rightarrow> (c2, Inr (Accepted
             (new_unit K clk (br_height (snd c)) (br_consensus_time (snd c)) ss c)))
         | Inl reason \<Rightarrow>
             if run_touched r \<noteq> {||}
             then st_then (isolate K clk c2) (\<lambda>c3 _. (c3, Inr (UnitRejected reason)))
             else (c2, Inr (UnitRejected reason))"
  let ?c1 = "stage_next K clk ss (opened c)"
  have unit: "new_unit K clk (br_height (snd c)) (br_consensus_time (snd c)) ss c =
      \<lparr>au_slot = SlotMember 0, au_resolved = ResolvedMember, au_steps = ss,
       au_events = run_events r, au_dispatches = run_dispatches r,
       au_entry = length (ob_units (blk_ob c))\<rparr>"
    by (simp add: new_unit_def assms(3))
  note live1 = opened_live [OF assms(1)]
  show ?thesis
  proof (rule runs_step [OF assms(4)])
    have "run_state begin_unit (blk_ob c) = (length (ob_units (blk_ob c)), blk_ob (opened c))"
      by (simp add: opened_def live_begin [OF assms(1)])
    moreover have "stage_steps K clk ss (opened c) = (?c1, r, res)"
      using stage_live [OF live1(1), of clk ss] assms(3) by simp
    moreover have "(fst c, (snd c)\<lparr>br_observer := blk_ob (opened c)\<rparr>) = opened c"
      by (simp add: opened_def with_ob_def)
    ultimately show "run_unit K clk ss c = ?g ?c1"
      using assms(2) check_witness_live [OF stage_next_live [OF live1(1)]]
      by (cases res) (simp_all add: run_unit_def unit)
    show "fits (blk_ob c) W" if "fits (blk_ob ?c1) W" for W
      using fits_begin [OF assms(1)] stage_next_fits [OF live1(1) that] by (simp add: opened_def)
    show "\<exists>o1. run_unit K clk ss (with_ob o2 c) = ?g (with_ob o1 ?c1) \<and> serves W (blk_ob ?c1) o1"
      if o2: "serves W (blk_ob c) o2" and W: "fits (blk_ob ?c1) W" for W o2
    proof -
      have "fits (snd (run_state begin_unit (blk_ob c))) W"
        using stage_next_fits [OF live1(1) W] by (simp add: opened_def)
      from replay_begin [OF assms(1) o2 this] obtain o3 where
        o3: "run_state begin_unit o2 = (length (ob_units (blk_ob c)), o3)" "serves W (blk_ob (opened c)) o3"
        by (auto simp: opened_def)
      from stage_replay [OF live1(1,3) o3(2) W] assms(3) obtain o1 where
        o1: "stage_steps K clk ss (with_ob o3 (opened c)) = (with_ob o1 ?c1, r, res)"
          "serves W (blk_ob ?c1) o1"
        by auto
      have same: "(fst (with_ob o2 c), (snd (with_ob o2 c))\<lparr>br_observer := o3\<rparr>) = with_ob o3 (opened c)"
        by (simp add: with_ob_def opened_def)
      have "run_unit K clk ss (with_ob o2 c) = ?g (with_ob o1 ?c1)"
        unfolding run_unit_def
        using assms(2)
        by (cases res) (simp_all add: o3(1) same [simplified] o1(1) check_witness_serves [OF o1(2)] unit)
      with o1(2) show ?thesis by blast
    qed
  qed
qed

lemma units_ok_snoc:
  "units_ok K clk h t W us reg \<Longrightarrow> units_ok K clk h t (W @ [x]) us reg"
  by (erule units_ok_cong [rotated]) (auto simp: nth_append)

lemma run_unit_good:
  assumes q: "quiescent base reg0" and rest: "at_rest K clk h t reg0 c"
  shows "\<exists>c' v. runs (run_unit K clk ss) c c' v \<and> unit_result K clk h t ss c c' v \<and>
           (case v of
              Accepted u \<Rightarrow> unit_open K clk h t reg0 u c'
            | _ \<Rightarrow> at_rest K clk h t reg0 c')"
proof (cases "budget_exhausted (snd c)")
  case True
  then have "runs (run_unit K clk ss) c c Unattempted"
    by (intro runs_cong [OF runs_id]) (simp_all add: run_unit_def)
  with rest True show ?thesis
    by (intro exI [of _ c] exI [of _ Unattempted]) (simp add: unit_result_def)
next
  case False
  let ?acc = "br_accepted (snd c)"
  have ht: "br_height (snd c) = h" "br_consensus_time (snd c) = t" and live: "live_ob (blk_ob c)"
    and reg: "fst c = after_units K clk h t ?acc reg0"
    and touched: "br_touched (snd c) = units_reach K clk h t ?acc reg0"
    and ok: "units_ok K clk h t (ob_units (blk_ob c)) ?acc reg0"
    and sorted: "sorted_wrt (<) (map au_entry ?acc)"
    using rest by (auto simp: at_rest_def live_inv_def)
  have frame: "blk_frame base reg0 c" using rest live_inv_frame unfolding at_rest_def by blast
  obtain r res where out: "steps_out K clk h t ss (fst c) = (r, res)" by fastforce
  let ?c1 = "stage_next K clk ss (opened c)" and ?tr = "steps_trace K clk h t ss (fst c)"
  let ?u = "new_unit K clk h t ss c"
  note live1 = opened_live [OF live]
  have units1: "ob_units (blk_ob ?c1) = ob_units (blk_ob c) @ [?tr]"
    "ob_open (blk_ob ?c1) = Unit (length (ob_units (blk_ob c))) 0"
    using stage_next_units [OF live1(1,3), of K clk ss] live1(2) by (simp_all add: ht)
  have c1: "fst ?c1 = run_registry r" "br_touched (snd ?c1) = br_touched (snd c) |\<union>| run_touched r"
    by (simp_all add: stage_next_def Let_def ht out)
  have live2: "live_ob (blk_ob ?c1)" using stage_next_live [OF live1(1)] .
  have frame1: "blk_frame base reg0 ?c1"
    using stage_next_frame [of reg0 "opened c"] frame by (simp add: blk_frame_def)
  note run = run_unit_live [OF live False, of clk ss, unfolded ht, OF out]
  show ?thesis
  proof (cases res)
    case (Inr x)
    have "runs (run_unit K clk ss) c ?c1 (Accepted ?u)"
      by (rule run) (simp add: Inr runs_id)
    moreover have "live_inv K clk h t reg0 (?acc @ [?u]) ?c1"
      using live2 ok sorted units1 c1 out reg touched units_ok_entry [OF ok]
      by (auto simp: live_inv_def ht new_unit_def Let_def after_units_append units_reach_append
          units_ok_append unit_reg_def unit_ok_def units_ok_snoc sorted_wrt_append Inr)
    ultimately show ?thesis
      using units1 by (intro exI [of _ ?c1] exI [of _ "Accepted ?u"])
        (simp add: unit_open_def new_unit_def Let_def unit_result_def False out Inr)
  next
    case (Inl reason)
    show ?thesis
    proof (cases "run_touched r = {||}")
      case True
      have "runs (run_unit K clk ss) c ?c1 (UnitRejected reason)"
        by (rule run) (simp add: Inl True runs_id)
      moreover have "at_rest K clk h t reg0 ?c1"
        using stage_untouched [OF q, of "opened c" clk ss] frame True out live2 ok sorted units1 reg touched
        by (simp add: at_rest_def live_inv_def ht units_ok_snoc blk_frame_def)
      ultimately show ?thesis
        by (intro exI [of _ ?c1] exI [of _ "UnitRejected reason"])
          (simp add: unit_result_def out Inl \<open>\<not> budget_exhausted (snd c)\<close> True)
    next
      case touched: False
      have "\<exists>c'. runs (isolate K clk) ?c1 c' () \<and> at_rest K clk h t reg0 c' \<and>
          br_accepted (snd c') = br_accepted (snd ?c1) \<and> br_replays (snd c') = Suc (br_replays (snd ?c1))"
        by (rule isolate_runs [OF q frame1 live2])
          (use ok sorted units1 in \<open>simp_all add: ht units_ok_snoc\<close>)
      then obtain c' where iso: "runs (isolate K clk) ?c1 c' ()" "at_rest K clk h t reg0 c'"
        "br_accepted (snd c') = ?acc" "br_replays (snd c') = Suc (br_replays (snd c))"
        by auto
      have "runs (run_unit K clk ss) c c' (UnitRejected reason)"
        by (rule run)
          (use iso(1) touched in \<open>simp add: Inl runs_then_return\<close>)
      with iso show ?thesis
        by (intro exI [of _ c'] exI [of _ "UnitRejected reason"])
          (simp add: unit_result_def out Inl False touched)
    qed
  qed
qed

lemma extend_unit_live:
  assumes "live_ob (blk_ob c)" and "ob_open (blk_ob c) = Unit e n"
    and "steps_out K clk (br_height (snd c)) (br_consensus_time (snd c)) ss (fst c) = (r, res)"
    and "runs (\<lambda>c2. case res of
           Inr _ \<Rightarrow> (c2, Inr (Inr (u\<lparr>au_steps := au_steps u @ ss,
                                    au_events := au_events u @ run_events r,
                                    au_dispatches := au_dispatches u @ run_dispatches r\<rparr>)))
         | Inl reason \<Rightarrow>
             st_then (isolate K clk c2) (\<lambda>c3 _. (c3, Inr (Inl (error_to_string reason)))))
         (stage_next K clk ss c) c' v"
  shows "runs (extend_unit K clk u ss) c c' v"
proof (rule runs_step [OF assms(4)])
  show "extend_unit K clk u ss c = (case res of
      Inr _ \<Rightarrow> (stage_next K clk ss c, Inr (Inr (u\<lparr>au_steps := au_steps u @ ss,
                au_events := au_events u @ run_events r,
                au_dispatches := au_dispatches u @ run_dispatches r\<rparr>)))
    | Inl reason \<Rightarrow>
        st_then (isolate K clk (stage_next K clk ss c))
          (\<lambda>c3 _. (c3, Inr (Inl (error_to_string reason)))))"
    using stage_live [OF assms(1), of clk ss] assms(3)
      check_witness_live [OF stage_next_live [OF assms(1)], of clk ss]
    by (cases res) (simp_all add: extend_unit_def)
  show "fits (blk_ob c) W" if "fits (blk_ob (stage_next K clk ss c)) W" for W
    using stage_next_fits [OF assms(1) that] .
  show "\<exists>o1. extend_unit K clk u ss (with_ob o2 c) = (case res of
      Inr _ \<Rightarrow> (with_ob o1 (stage_next K clk ss c), Inr (Inr (u\<lparr>au_steps := au_steps u @ ss,
                au_events := au_events u @ run_events r,
                au_dispatches := au_dispatches u @ run_dispatches r\<rparr>)))
    | Inl reason \<Rightarrow>
        st_then (isolate K clk (with_ob o1 (stage_next K clk ss c)))
          (\<lambda>c3 _. (c3, Inr (Inl (error_to_string reason))))) \<and>
      serves W (blk_ob (stage_next K clk ss c)) o1"
    if "serves W (blk_ob c) o2" and "fits (blk_ob (stage_next K clk ss c)) W" for W o2
  proof -
    from stage_replay [OF assms(1,2) that] assms(3) obtain o1 where
      o1: "stage_steps K clk ss (with_ob o2 c) = (with_ob o1 (stage_next K clk ss c), r, res)"
        "serves W (blk_ob (stage_next K clk ss c)) o1"
      by auto
    show ?thesis
      by (intro exI [of _ o1] conjI o1(2), cases res)
        (simp_all add: extend_unit_def o1(1) check_witness_serves [OF o1(2)])
  qed
qed

lemma extend_unit_good:
  assumes q: "quiescent base reg0" and op: "unit_open K clk h t reg0 u c"
  shows "\<exists>c' x. runs (extend_unit K clk u ss) c c' x \<and> br_accepted (snd c') = br_accepted (snd c) \<and>
           (case x of
              Inr u' \<Rightarrow> unit_open K clk h t reg0 u' c' \<and> au_steps u' = au_steps u @ ss
            | Inl _ \<Rightarrow> at_rest K clk h t reg0 c')"
proof -
  let ?acc = "br_accepted (snd c)" and ?us = "ob_units (blk_ob c)" and ?e = "au_entry u"
  let ?reg = "after_units K clk h t ?acc reg0"
  have ht: "br_height (snd c) = h" "br_consensus_time (snd c) = t" and live: "live_ob (blk_ob c)"
    and reg: "fst c = after_units K clk h t (?acc @ [u]) reg0"
    and touched: "br_touched (snd c) = units_reach K clk h t (?acc @ [u]) reg0"
    and ok: "units_ok K clk h t ?us ?acc reg0" "unit_ok K clk h t ?us ?reg u"
    and sorted: "sorted_wrt (<) (map au_entry ?acc)" "\<forall>v\<in>set ?acc. au_entry v < ?e"
    and len: "length ?us = Suc ?e"
    using op by (auto simp: unit_open_def live_inv_def units_ok_append sorted_wrt_append)
  obtain n where opn: "ob_open (blk_ob c) = Unit ?e n" using op by (auto simp: unit_open_def)
  have frame: "blk_frame base reg0 c" using op live_inv_frame unfolding unit_open_def by blast
  obtain r0 where r0: "steps_out K clk h t (au_steps u) ?reg = (r0, Inr ())"
    "au_events u = run_events r0" "au_dispatches u = run_dispatches r0"
    "?us ! ?e = steps_trace K clk h t (au_steps u) ?reg"
    using ok(2) by (auto simp: unit_ok_def)
  have c0: "fst c = run_registry r0"
    "br_touched (snd c) = units_reach K clk h t ?acc reg0 |\<union>| run_touched r0"
    using reg touched r0(1) by (simp_all add: after_units_append units_reach_append unit_reg_def)
  obtain r res where out: "steps_out K clk h t ss (fst c) = (r, res)" by fastforce
  let ?c1 = "stage_next K clk ss c" and ?tr = "steps_trace K clk h t ss (fst c)"
  let ?u = "u\<lparr>au_steps := au_steps u @ ss, au_events := au_events u @ run_events r,
              au_dispatches := au_dispatches u @ run_dispatches r\<rparr>"
  have units1: "ob_units (blk_ob ?c1) = ?us[?e := ?us ! ?e @ ?tr]" "ob_open (blk_ob ?c1) = Unit ?e n"
    using stage_next_units [OF live opn, of K clk ss] by (simp_all add: ht)
  have ok1: "units_ok K clk h t (ob_units (blk_ob ?c1)) ?acc reg0"
    by (rule units_ok_cong [OF _ ok(1)]) (use sorted(2) in \<open>auto simp: units1\<close>)
  note live1 = stage_next_live [OF live, of clk ss]
  note run = extend_unit_live [OF live opn, of clk ss, unfolded ht, OF out, of u]
  show ?thesis
  proof (cases res)
    case (Inr x)
    have "runs (extend_unit K clk u ss) c ?c1 (Inr ?u)"
      by (rule run) (simp add: Inr runs_id)
    moreover have "live_inv K clk h t reg0 (?acc @ [?u]) ?c1"
    proof -
      note both = steps_append [OF r0(1), of ss r "Inr ()"]
      have "steps_out K clk h t ss (run_registry r0) = (r, Inr ())" using out c0 Inr by simp
      note both = both [OF this]
      have "unit_ok K clk h t (ob_units (blk_ob ?c1)) ?reg ?u"
        using both r0 len c0 by (simp add: unit_ok_def units1)
      moreover have "fst ?c1 = unit_reg K clk h t ?u ?reg"
        using both out by (simp add: unit_reg_def stage_next_def Let_def ht)
      moreover have "br_touched (snd ?c1) = units_reach K clk h t (?acc @ [?u]) reg0"
        using both out c0 by (simp add: stage_next_def Let_def ht units_reach_append sup_assoc)
      ultimately show ?thesis
        using ok1 sorted live1
        by (simp add: live_inv_def ht units_ok_append after_units_append sorted_wrt_append)
    qed
    ultimately show ?thesis
      using units1 len by (intro exI [of _ ?c1] exI [of _ "Inr ?u"]) (simp add: unit_open_def)
  next
    case (Inl reason)
    have "\<exists>c'. runs (isolate K clk) ?c1 c' () \<and> at_rest K clk h t reg0 c' \<and>
        br_accepted (snd c') = br_accepted (snd ?c1) \<and> br_replays (snd c') = Suc (br_replays (snd ?c1))"
      by (rule isolate_runs [OF q stage_next_frame [OF frame] live1])
        (use ok1 sorted in \<open>simp_all add: ht\<close>)
    then obtain c' where iso: "runs (isolate K clk) ?c1 c' ()" "at_rest K clk h t reg0 c'"
      "br_accepted (snd c') = ?acc"
      by auto
    have "runs (extend_unit K clk u ss) c c' (Inl (error_to_string reason))"
      by (rule run) (use iso(1) in \<open>simp add: Inl runs_then_return\<close>)
    with iso show ?thesis
      by (intro exI [of _ c'] exI [of _ "Inl (error_to_string reason)"]) simp
  qed
qed

section \<open>Calls, deliveries and members\<close>

lemma good_run_unit:
  assumes "quiescent base reg0" and "at_rest K clk h t reg0 c"
    and "\<And>c1 u. unit_open K clk h t reg0 u c1 \<Longrightarrow> au_steps u = ss \<Longrightarrow> au_resolved u = ResolvedMember \<Longrightarrow>
           br_accepted (snd c1) = br_accepted (snd c) \<Longrightarrow> good (\<lambda>c. k c (Accepted u)) c1 P E"
    and "\<And>c1 e. at_rest K clk h t reg0 c1 \<Longrightarrow> br_accepted (snd c1) = br_accepted (snd c) \<Longrightarrow>
           good (\<lambda>c. k c (UnitRejected e)) c1 P E"
    and "\<And>c1. at_rest K clk h t reg0 c1 \<Longrightarrow> br_accepted (snd c1) = br_accepted (snd c) \<Longrightarrow>
           good (\<lambda>c. k c Unattempted) c1 P E"
  shows "good (\<lambda>c. st_then (run_unit K clk ss c) k) c P E"
proof (rule good_then)
  show "good (run_unit K clk ss) c (\<lambda>c' v. unit_result K clk h t ss c c' v \<and> (case v of
      Accepted u \<Rightarrow> unit_open K clk h t reg0 u c' | _ \<Rightarrow> at_rest K clk h t reg0 c')) E"
    using run_unit_good [OF assms(1,2), of ss] unfolding good_def by blast
  show "good (\<lambda>c. k c v) c1 P E"
    if "unit_result K clk h t ss c c1 v \<and> (case v of
      Accepted u \<Rightarrow> unit_open K clk h t reg0 u c1 | _ \<Rightarrow> at_rest K clk h t reg0 c1)" for c1 v
    using that assms(3-5) by (cases v) (simp_all add: unit_result_def split: prod.splits)
qed

lemma good_extend_unit:
  assumes "quiescent base reg0" and "unit_open K clk h t reg0 u c"
    and "\<And>c1 u'. unit_open K clk h t reg0 u' c1 \<Longrightarrow> br_accepted (snd c1) = br_accepted (snd c) \<Longrightarrow>
           good (\<lambda>c. k c (Inr u')) c1 P E"
    and "\<And>c1 e. at_rest K clk h t reg0 c1 \<Longrightarrow> br_accepted (snd c1) = br_accepted (snd c) \<Longrightarrow>
           good (\<lambda>c. k c (Inl e)) c1 P E"
  shows "good (\<lambda>c. st_then (extend_unit K clk u ss c) k) c P E"
proof (rule good_then)
  show "good (extend_unit K clk u ss) c (\<lambda>c' x. br_accepted (snd c') = br_accepted (snd c) \<and> (case x of
      Inr u' \<Rightarrow> unit_open K clk h t reg0 u' c' | Inl _ \<Rightarrow> at_rest K clk h t reg0 c')) E"
    using extend_unit_good [OF assms(1,2), of ss] unfolding good_def
    by (metis (no_types, lifting) sum.case_eq_if)
  show "good (\<lambda>c. k c x) c1 P E"
    if "br_accepted (snd c1) = br_accepted (snd c) \<and> (case x of
      Inr u' \<Rightarrow> unit_open K clk h t reg0 u' c1 | Inl _ \<Rightarrow> at_rest K clk h t reg0 c1)" for c1 x
    using that assms(3,4) by (cases x) auto
qed

end

text \<open>
  What a call or a delivery leaves: a record, or one more accepted unit in its slot.
\<close>

definition resolves ::
  "'m kernel \<Rightarrow> clock \<Rightarrow> u64 \<Rightarrow> u64 \<Rightarrow> 'm registry \<Rightarrow> accepted_unit list \<Rightarrow> slot \<Rightarrow> (resolved \<Rightarrow> bool) \<Rightarrow>
   'm blk \<Rightarrow> 'r option \<Rightarrow> bool" where
  "resolves K clk h t reg0 acc s R c rec \<longleftrightarrow>
     at_rest K clk h t reg0 c \<and>
     (case rec of
        Some _ \<Rightarrow> br_accepted (snd c) = acc
      | None \<Rightarrow> \<exists>u. br_accepted (snd c) = acc @ [u] \<and> au_slot u = s \<and> R (au_resolved u))"

definition call_resolved :: "resolved \<Rightarrow> bool" where
  "call_resolved r \<longleftrightarrow> (\<exists>d. r = ResolvedCall d)"

definition delivery_resolved :: "resolved \<Rightarrow> bool" where
  "delivery_resolved r \<longleftrightarrow> (\<exists>d. r = ResolvedDelivery d)"

lemma resolves_accept:
  "unit_open K clk h t reg0 u c \<Longrightarrow> br_accepted (snd c) = acc \<Longrightarrow> R r \<Longrightarrow>
   resolves K clk h t reg0 acc s R (accept_as s r u c) None"
  by (simp add: resolves_def at_rest_accept) (simp add: accept_as_def)

lemma resolves_record:
  "at_rest K clk h t reg0 c \<Longrightarrow> br_accepted (snd c) = acc \<Longrightarrow> resolves K clk h t reg0 acc s R c (Some r)"
  by (simp add: resolves_def)

lemmas resolving = good_accept good_return resolves_accept resolves_record
  call_resolved_def [THEN iffD2] delivery_resolved_def [THEN iffD2]

lemma finalize_call_eq:
  "finalize_call K' clk i call outcome =
     (\<lambda>c. st_then (run_unit K' clk [complete_call_step K' call outcome] c) (\<lambda>c1 v.
       (case v of
          Accepted u \<Rightarrow>
            (accept_as (SlotCall i) (ResolvedCall (call_disposition_of outcome)) u c1, Inr None)
        | Unattempted \<Rightarrow> (c1, Inr (Some (not_finalized call budget_reason)))
        | UnitRejected reason \<Rightarrow>
            (case call_fallback outcome of
               Some attempted \<Rightarrow>
                 finalize_call K' clk i call (OutcomeUnrepresentable attempted) c1
             | None \<Rightarrow> (c1, Inr (Some (not_finalized call (error_to_string reason))))))))"
  by (rule ext) (subst finalize_call.simps, rule refl)

lemma acknowledge_delivery_eq:
  "acknowledge_delivery K' clk i d outcome =
     (\<lambda>c. st_then (run_unit K' clk [ack_step d outcome] c) (\<lambda>c1 v.
       (case v of
          Accepted u \<Rightarrow>
            (accept_as (SlotDelivery i) (ResolvedDelivery (delivery_disposition_of outcome)) u c1,
             Inr None)
        | Unattempted \<Rightarrow> (c1, Inr (Some (not_delivered d budget_reason)))
        | UnitRejected reason \<Rightarrow>
            if outcome \<noteq> DeliveryUnrepresentable
            then acknowledge_delivery K' clk i d DeliveryUnrepresentable c1
            else (c1, Inr (Some (not_delivered d (error_to_string reason)))))))"
  by (rule ext) (subst acknowledge_delivery.simps, rule refl)

context host_laws
begin

lemma good_finalize_marker:
  "quiescent base reg0 \<Longrightarrow> at_rest K clk h t reg0 c \<Longrightarrow> br_accepted (snd c) = acc \<Longrightarrow>
   good (finalize_call K clk i call (OutcomeUnrepresentable a)) c
     (resolves K clk h t reg0 acc (SlotCall i) call_resolved) E"
  by (subst finalize_call_eq) (auto intro!: good_run_unit resolving)

lemma good_finalize_call:
  "quiescent base reg0 \<Longrightarrow> at_rest K clk h t reg0 c \<Longrightarrow> br_accepted (snd c) = acc \<Longrightarrow>
   good (finalize_call K clk i call outcome) c
     (resolves K clk h t reg0 acc (SlotCall i) call_resolved) E"
  by (subst finalize_call_eq, cases "call_fallback outcome")
    (auto intro!: good_run_unit resolving good_finalize_marker)

lemma good_ack_marker:
  "quiescent base reg0 \<Longrightarrow> at_rest K clk h t reg0 c \<Longrightarrow> br_accepted (snd c) = acc \<Longrightarrow>
   good (acknowledge_delivery K clk i d DeliveryUnrepresentable) c
     (resolves K clk h t reg0 acc (SlotDelivery i) delivery_resolved) E"
  by (subst acknowledge_delivery_eq) (auto intro!: good_run_unit resolving)

lemma good_acknowledge_delivery:
  "quiescent base reg0 \<Longrightarrow> at_rest K clk h t reg0 c \<Longrightarrow> br_accepted (snd c) = acc \<Longrightarrow>
   good (acknowledge_delivery K clk i d outcome) c
     (resolves K clk h t reg0 acc (SlotDelivery i) delivery_resolved) E"
  by (subst acknowledge_delivery_eq, cases "outcome = DeliveryUnrepresentable")
    (auto intro!: good_run_unit resolving good_ack_marker)

lemma good_run_delivery:
  "quiescent base reg0 \<Longrightarrow> at_rest K clk h t reg0 c \<Longrightarrow> br_accepted (snd c) = acc \<Longrightarrow>
   good (run_delivery K clk i d) c
     (resolves K clk h t reg0 acc (SlotDelivery i) delivery_resolved) E"
  unfolding run_delivery_def
  by (auto intro!: good_run_unit good_extend_unit resolving good_acknowledge_delivery)

text \<open>The unit of an accepted op has a root dispatch, so the \<^verbatim>\<open>expect\<close> of \<^verbatim>\<open>run_call\<close> holds.\<close>

lemma op_unit_dispatches:
  assumes "unit_open K clk h t reg0 u c" and "au_steps u = [StepOp origin cause msg]"
  shows "au_dispatches u \<noteq> []"
proof -
  let ?reg = "after_units K clk h t (br_accepted (snd c)) reg0"
  obtain r where r: "steps_out K clk h t [StepOp origin cause msg] ?reg = (r, Inr ())"
    "au_dispatches u = run_dispatches r"
    using assms by (auto simp: unit_open_def live_inv_def units_ok_append unit_ok_def)
  have "run_state (run_steps K clk h t [StepOp origin cause msg] (run_fresh ?reg)) recorder =
      ((r, Inr ()), advance (steps_trace K clk h t [StepOp origin cause msg] ?reg) recorder)"
    using steps_ready [of K clk h t "[StepOp origin cause msg]" ?reg recorder] r(1) by simp
  from run_op_dispatches [OF this] r(2) show ?thesis by simp
qed

lemma good_run_call:
  assumes "quiescent base reg0" and "at_rest K clk h t reg0 c" and "br_accepted (snd c) = acc"
  shows "good (run_call K clk i call verdict) c
     (resolves K clk h t reg0 acc (SlotCall i) call_resolved) E"
proof (cases verdict)
  case (Some v)
  show ?thesis
  proof (cases v)
    case Admitted
    have "good (\<lambda>c. case au_dispatches u of
          [] \<Rightarrow> (c, Inl (SubmitPanicked ''an accepted op unit ran its root dispatch''))
        | root # _ \<Rightarrow>
            st_then (extend_unit K clk u [complete_call_step K call
              (OutcomeApplied (case dr_output root of None \<Rightarrow> [] | Some bs \<Rightarrow> bs) (dr_assigned root))] c)
              (\<lambda>c2 ext. (case ext of
                 Inr u' \<Rightarrow> (accept_as (SlotCall i) (ResolvedCall CallApplied) u' c2, Inr None)
               | Inl _ \<Rightarrow> finalize_call K clk i call (OutcomeUnrepresentable AttemptApplied) c2))) c1
          (resolves K clk h t reg0 acc (SlotCall i) call_resolved) E"
      if "unit_open K clk h t reg0 u c1" "au_dispatches u \<noteq> []" "br_accepted (snd c1) = acc" for u c1
      using that assms(1)
      by (cases "au_dispatches u")
        (auto intro!: good_extend_unit resolving good_finalize_call)
    with assms show ?thesis
      unfolding run_call_def Some Admitted option.case verdict.case
      by (intro good_run_unit)
        (auto intro!: resolving good_finalize_call dest: op_unit_dispatches
          simp del: split_paired_All split_paired_all)
  qed (use assms in \<open>auto simp: run_call_def [abs_def] Some intro!: good_finalize_call\<close>)
qed (use assms in \<open>auto simp: run_call_def [abs_def] intro!: resolving\<close>)

end

end
