(* ===== verification/Host_Live.thy ===== *)
theory Host_Live
  imports Host_Replay
begin

text \<open>
  Live blocks as a whole. A live block runs its members, calls and deliveries without a fault of
  the host; its accepted units fill the slots that no record fills, so that no slot is read empty;
  what it commits is the run of the accepted units, in order, followed by the injection; and the
  replay of its own witness makes the same block of it.
\<close>

section \<open>An entry of the witness\<close>

text \<open>The observer after a unit of the witness that holds the trace of \<open>m\<close> alone.\<close>

definition after_entry :: "'a obs \<Rightarrow> observing \<Rightarrow> observing" where
  "after_entry m ob = advance (obs_trace m) (snd (run_state begin_unit ob))"

lemma begin_live: "live_ob ob \<Longrightarrow> live_ob (snd (run_state begin_unit ob))"
  by (auto simp: live_begin live_ob_def ob_ok_def)

lemma after_entry_live: "live_ob ob \<Longrightarrow> live_ob (after_entry m ob)"
  by (simp add: after_entry_def live_advance begin_live)

lemma after_entry_units:
  "live_ob ob \<Longrightarrow> ob_units (after_entry m ob) = ob_units ob @ [obs_trace m]"
  by (simp add: after_entry_def live_begin advance_def live_ob_def)

lemma entry_run:
  assumes "live_ob ob" and "transparent m"
  shows "run_state (State_Monad.bind begin_unit (\<lambda>_. m)) ob = (obs_result m, after_entry m ob)"
  using transparent_run [OF assms(2) live_ready [OF begin_live [OF assms(1)]]]
  by (cases "run_state begin_unit ob") (simp add: after_entry_def)

lemma entry_fits: "live_ob ob \<Longrightarrow> fits (after_entry m ob) W \<Longrightarrow> fits ob W"
  unfolding after_entry_def by (rule fits_begin) (auto intro: fits_advance begin_live)

lemma entry_replay:
  assumes "live_ob ob" and "transparent m" and "serves W ob o2" and "fits (after_entry m ob) W"
  shows "\<exists>o1. run_state (State_Monad.bind begin_unit (\<lambda>_. m)) o2 = (obs_result m, o1) \<and>
              serves W (after_entry m ob) o1"
proof -
  note live = begin_live [OF assms(1)]
  have fit: "fits (snd (run_state begin_unit ob)) W"
    by (rule fits_advance [OF live]) (use assms(4) in \<open>simp add: after_entry_def\<close>)
  from replay_begin [OF assms(1,3) this] obtain o3 where
    o3: "run_state begin_unit o2 = (length (ob_units ob), o3)"
      "serves W (snd (run_state begin_unit ob)) o3"
    by blast
  have "ob_open (snd (run_state begin_unit ob)) = Unit (length (ob_units ob)) 0"
    using assms(1) by (simp add: live_begin)
  from replay_advance [OF live o3(2) this, of "obs_trace m"] assms(4) o3(1)
    transparent_run [OF assms(2)]
  show ?thesis by (auto simp: after_entry_def)
qed

text \<open>The witness of a live block is its recording, and a replay that consumed it ends well.\<close>

lemma finish_live: "live_ob ob \<Longrightarrow> observer_finish ob = Inr (ob_units ob)"
  by (auto simp: observer_finish_def live_ob_def close_open_def Let_def split: open_unit.split)

lemma finish_serves:
  assumes "live_ob ob" and "serves (ob_units ob) ob o2"
  shows "observer_finish o2 = Inr (ob_units ob)" and "ob_divergence o2 = None"
proof -
  have "close_open o2 = o2"
    using assms
    by (auto simp: serves_def close_open_def live_ob_def ob_ok_def split: open_unit.splits)
  with assms show "observer_finish o2 = Inr (ob_units ob)"
    by (auto simp: observer_finish_def serves_def Let_def live_ob_def ob_ok_def)
  show "ob_divergence o2 = None" using assms by (simp add: serves_def)
qed

lemma fits_self: "fits ob (ob_units ob)"
  by (simp add: fits_def)

section \<open>Slots\<close>

fun slot_fits :: "nat \<Rightarrow> nat \<Rightarrow> nat \<Rightarrow> accepted_unit \<Rightarrow> bool" where
  "slot_fits nm nc nd u =
     (case (au_slot u, au_resolved u) of
        (SlotMember i, ResolvedMember) \<Rightarrow> i < nm
      | (SlotCall i, ResolvedCall _) \<Rightarrow> i < nc
      | (SlotDelivery i, ResolvedDelivery _) \<Rightarrow> i < nd
      | _ \<Rightarrow> False)"

declare slot_fits.simps [simp del]

lemma slot_fits_accept [simp]:
  "slot_fits nm nc nd (u\<lparr>au_slot := SlotMember i, au_resolved := ResolvedMember\<rparr>) = (i < nm)"
  by (simp add: slot_fits.simps)

lemma slot_fits_call: "au_slot u = SlotCall i \<Longrightarrow> call_resolved (au_resolved u) \<Longrightarrow> slot_fits nm nc nd u = (i < nc)"
  by (auto simp: slot_fits.simps call_resolved_def)

lemma slot_fits_delivery:
  "au_slot u = SlotDelivery i \<Longrightarrow> delivery_resolved (au_resolved u) \<Longrightarrow> slot_fits nm nc nd u = (i < nd)"
  by (auto simp: slot_fits.simps delivery_resolved_def)

lemma accept_as_accepted [simp]:
  "br_accepted (snd (accept_as s r u c)) = br_accepted (snd c) @ [u\<lparr>au_slot := s, au_resolved := r\<rparr>]"
  by (simp add: accept_as_def)

lemma accept_member:
  "au_resolved u = ResolvedMember \<Longrightarrow>
   set_accepted (br_accepted (snd c) @ [u\<lparr>au_slot := s\<rparr>]) c = accept_as s ResolvedMember u c"
  by (cases u) (simp add: accept_as_def)

lemma good_accept_then:
  assumes "good f (accept_as s r u c) P E"
  shows "good (\<lambda>c. f (accept_as s r u c)) c P E"
proof -
  have "runs (\<lambda>c. f (accept_as s r u c)) c c' v" if "runs f (accept_as s r u c) c' v" for c' v
    by (rule runs_step [OF that])
      (auto simp: accept_as_with_ob, auto simp: accept_as_def)
  with assms show ?thesis unfolding good_def by blast
qed

text \<open>The first \<open>n\<close> slots have a record or a unit.\<close>

definition covers :: "(nat \<Rightarrow> slot) \<Rightarrow> 'r option list \<Rightarrow> accepted_unit list \<Rightarrow> nat \<Rightarrow> bool" where
  "covers S xs acc n \<longleftrightarrow> (\<forall>i<n. xs ! i \<noteq> None \<or> (\<exists>u\<in>set acc. au_slot u = S i))"

lemma covers_0 [simp]: "covers S xs acc 0"
  by (simp add: covers_def)

lemma covers_more: "covers S xs acc n \<Longrightarrow> covers S xs (acc @ us) n"
  by (auto simp: covers_def)

lemma covers_record:
  "covers S xs acc i \<Longrightarrow> i < length xs \<Longrightarrow> covers S (xs[i := Some r]) acc (Suc i)"
  by (auto simp: covers_def less_Suc_eq nth_list_update)

lemma covers_unit:
  "covers S xs acc i \<Longrightarrow> au_slot u = S i \<Longrightarrow> covers S xs (acc @ [u]) (Suc i)"
  by (auto simp: covers_def less_Suc_eq)

text \<open>Settling fills the slots that have a unit, and empties none.\<close>

definition refills :: "(nat \<Rightarrow> slot) \<Rightarrow> accepted_unit list \<Rightarrow> 'r option list \<Rightarrow> 'r option list \<Rightarrow> bool" where
  "refills S us xs ys \<longleftrightarrow>
     length ys = length xs \<and>
     (\<forall>i < length xs. xs ! i \<noteq> None \<or> (\<exists>u\<in>set us. au_slot u = S i) \<longrightarrow> ys ! i \<noteq> None)"

lemma refills_Nil [simp]: "refills S [] xs xs"
  by (simp add: refills_def)

lemma refills_Cons: "refills S [u] xs ys \<Longrightarrow> refills S us ys zs \<Longrightarrow> refills S (u # us) xs zs"
  by (auto simp: refills_def)

lemma refills_update:
  assumes "inj S" and "au_slot u = S i"
  shows "refills S [u] xs (xs[i := Some r])"
proof -
  have "xs[i := Some r] ! j \<noteq> None" if "j < length xs" "xs ! j \<noteq> None \<or> S i = S j" for j
    using that assms(1) by (cases "i = j") (auto dest: injD)
  with assms(2) show ?thesis by (auto simp: refills_def)
qed

lemma refills_other: "(\<And>i. au_slot u \<noteq> S i) \<Longrightarrow> refills S [u] xs xs"
  by (simp add: refills_def)

lemma settle_unit_fills:
  assumes "slot_fits (length ms) (length cs) (length ds) u"
    and "length cs \<le> length (pw_calls prepared)" and "length ds \<le> length (pw_deliveries prepared)"
  shows "\<exists>ms' cs' ds'. settle_unit prepared u (ms, cs, ds) = Inr (ms', cs', ds') \<and>
     refills SlotMember [u] ms ms' \<and> refills SlotCall [u] cs cs' \<and> refills SlotDelivery [u] ds ds'"
  using assms
  by (cases "au_slot u"; cases "au_resolved u")
    (auto simp: slot_fits.simps settle_unit_def intro!: refills_update refills_other injI)

lemma settle_fills:
  assumes "\<forall>u\<in>set us. slot_fits (length ms) (length cs) (length ds) u"
    and "length cs \<le> length (pw_calls prepared)" and "length ds \<le> length (pw_deliveries prepared)"
  shows "\<exists>ms' cs' ds'. settle prepared us (ms, cs, ds) = Inr (ms', cs', ds') \<and>
     refills SlotMember us ms ms' \<and> refills SlotCall us cs cs' \<and> refills SlotDelivery us ds ds'"
  using assms
proof (induction us arbitrary: ms cs ds)
  case (Cons u us)
  from settle_unit_fills [of ms cs ds u prepared] Cons.prems obtain ms1 cs1 ds1 where
    s: "settle_unit prepared u (ms, cs, ds) = Inr (ms1, cs1, ds1)"
      "refills SlotMember [u] ms ms1" "refills SlotCall [u] cs cs1" "refills SlotDelivery [u] ds ds1"
    by auto
  then have "length ms1 = length ms" "length cs1 = length cs" "length ds1 = length ds"
    by (simp_all add: refills_def)
  with Cons.IH [of ms1 cs1 ds1] Cons.prems obtain ms' cs' ds' where
    "settle prepared us (ms1, cs1, ds1) = Inr (ms', cs', ds')"
    "refills SlotMember us ms1 ms'" "refills SlotCall us cs1 cs'" "refills SlotDelivery us ds1 ds'"
    by auto
  with s show ?case
    by (intro exI [of _ ms'] exI [of _ cs'] exI [of _ ds']) (auto intro: refills_Cons)
qed simp

lemma refills_covers:
  "refills S us xs ys \<Longrightarrow> covers S xs us (length xs) \<Longrightarrow> unwrap_all ys = Inr (map the ys)"
  by (fastforce simp: unwrap_all_def in_set_conv_nth refills_def covers_def)

section \<open>The loops\<close>

lemma transparent_call_authority [intro]: "transparent (call_authority K clk registry call)"
  unfolding call_authority_def by (intro transparent_bind) auto

context host_laws
begin

text \<open>
  Between two units: \<open>at_rest\<close>, the units fit the slots, and the slots of one kind are covered up to
  \<open>i\<close>.
\<close>

lemma good_run_members:
  assumes q: "quiescent base reg0" and "at_rest K clk h t reg0 c"
    and "\<forall>u\<in>set (br_accepted (snd c)). slot_fits (length mems) nc nd u"
    and "covers SlotMember mems (br_accepted (snd c)) i" and "i + length ops = length mems"
    and "\<And>e. adm = Sole \<Longrightarrow> E (Rejected e)"
  shows "good (run_members K clk adm i ops mems) c (\<lambda>c' mems'.
      at_rest K clk h t reg0 c' \<and> length mems' = length mems \<and>
      (\<forall>u\<in>set (br_accepted (snd c')). slot_fits (length mems') nc nd u) \<and>
      covers SlotMember mems' (br_accepted (snd c')) (length mems')) E"
  using assms(2-5)
proof (induction ops arbitrary: i mems c)
  case Nil
  then show ?case by (auto intro!: good_return)
next
  case (Cons op ops)
  have i: "i < length mems" using Cons.prems(4) by simp
  show ?case
  proof (unfold run_members.simps, rule good_run_unit [OF q Cons.prems(1)], goal_cases)
    case (1 c1 u)
    show ?case
      unfolding unit_verdict.case accept_member [OF 1(3)]
      by (rule good_accept_then, rule Cons.IH)
        (use 1 i Cons.prems in \<open>auto intro!: covers_unit at_rest_accept\<close>)
  next
    case (2 c1 e)
    show ?case
    proof (cases "adm = Sole")
      case True
      have "blk_frame base reg0 c1" using 2(1) live_inv_frame unfolding at_rest_def by blast
      with assms(6) [OF True] show ?thesis
        by (simp add: True good_def abort_stage_restores [OF q])
    next
      case False
      have "good (run_members K clk adm (i + 1) ops
          (mems[i := Some (MemberRejected (error_to_string e))])) c1 (\<lambda>c' mems'.
          at_rest K clk h t reg0 c' \<and>
          length mems' = length (mems[i := Some (MemberRejected (error_to_string e))]) \<and>
          (\<forall>u\<in>set (br_accepted (snd c')). slot_fits (length mems') nc nd u) \<and>
          covers SlotMember mems' (br_accepted (snd c')) (length mems')) E"
        by (rule Cons.IH) (use 2 i Cons.prems in \<open>auto intro!: covers_record\<close>)
      with False show ?thesis by simp
    qed
  next
    case (3 c1)
    show ?case
      unfolding unit_verdict.case
      by (rule good_weaken, rule Cons.IH)
        (use 3 i Cons.prems in \<open>auto intro!: covers_record\<close>)
  qed
qed

lemma good_decide_call:
  assumes "quiescent base reg0" and rest: "at_rest K clk h t reg0 c"
    and "\<And>e. E (authority_fault e)"
  shows "good (decide_call K clk call) c (\<lambda>c' _. at_rest K clk h t reg0 c' \<and>
     br_accepted (snd c') = br_accepted (snd c)) E"
proof (cases "budget_exhausted (snd c)")
  case True
  have "good (\<lambda>c. (c, Inr None)) c (\<lambda>c' _. at_rest K clk h t reg0 c' \<and>
     br_accepted (snd c') = br_accepted (snd c)) E"
    by (rule good_return) (use rest in simp)
  then show ?thesis by (rule good_cong) (simp_all add: decide_call_def True)
next
  case False
  let ?m = "call_authority K clk (fst c) call"
  let ?c1 = "with_ob (after_entry ?m (blk_ob c)) c"
  have live: "live_ob (blk_ob c)" using rest by (simp add: at_rest_def live_inv_def)
  note run = entry_run [OF live transparent_call_authority]
  have c1: "(fst c, (snd c)\<lparr>br_observer := after_entry ?m (blk_ob c)\<rparr>) = ?c1"
    by (simp add: with_ob_def)
  have rest1: "at_rest K clk h t reg0 ?c1"
    using rest after_entry_live [OF live]
    by (simp add: at_rest_def live_inv_def after_entry_units [OF live] units_ok_snoc)
  have live1: "check_witness (k_ops K) ?c1 = (?c1, Inr ())"
    by (rule check_witness_live) (simp add: after_entry_live live)
  show ?thesis
  proof (cases "obs_result ?m")
    case (Inl e)
    have "blk_frame base reg0 ?c1" using rest1 live_inv_frame unfolding at_rest_def by blast
    with assms(1) have "decide_call K clk call c =
        ((reg0, (snd ?c1)\<lparr>br_touched := {||}\<rparr>), Inl (authority_fault e))"
      unfolding decide_call_def
      by (simp only: False if_False run prod.case c1 live1 st_then_simps Inl sum.case
          abort_stage_restores)
    with assms(3) show ?thesis unfolding good_def by blast
  next
    case (Inr v)
    have "runs (decide_call K clk call) c ?c1 (Some v)"
    proof (rule runs_step [OF runs_id])
      show "decide_call K clk call c = (?c1, Inr (Some v))"
        unfolding decide_call_def
        by (simp only: False if_False run prod.case c1 live1 st_then_simps Inr sum.case)
      show "fits (blk_ob c) W" if "fits (blk_ob ?c1) W" for W
        using entry_fits [OF live] that by simp
      show "\<exists>o1. decide_call K clk call (with_ob o2 c) = (with_ob o1 ?c1, Inr (Some v)) \<and>
          serves W (blk_ob ?c1) o1"
        if "serves W (blk_ob c) o2" "fits (blk_ob ?c1) W" for W o2
      proof -
        from entry_replay [OF live transparent_call_authority [of K clk "fst c" call] that(1)] that(2) obtain o1 where
          o1: "run_state (State_Monad.bind begin_unit (\<lambda>_. ?m)) o2 = (obs_result ?m, o1)"
            "serves W (blk_ob ?c1) o1"
          by auto
        have "(fst (with_ob o2 c), (snd (with_ob o2 c))\<lparr>br_observer := o1\<rparr>) = with_ob o1 ?c1"
          by (simp add: with_ob_def)
        with o1 check_witness_serves [OF o1(2), of ?c1] show ?thesis
          by (intro exI [of _ o1]) (simp add: decide_call_def False Inr)
      qed
    qed
    then show ?thesis by (rule good_runs) (use rest1 in simp)
  qed
qed

text \<open>One slot after the other, for calls and for deliveries.\<close>

lemma resolves_covers:
  assumes "resolves K clk h t reg0 acc (S i) R c rec" and "covers S xs acc i" and "i < length xs"
  shows "covers S (case rec of Some r \<Rightarrow> xs[i := Some r] | None \<Rightarrow> xs) (br_accepted (snd c)) (Suc i)"
  using assms by (auto simp: resolves_def covers_record covers_unit split: option.splits)

lemma resolves_others:
  assumes "resolves K clk h t reg0 acc s R c rec" and "covers S xs acc n"
  shows "covers S xs (br_accepted (snd c)) n"
  using assms by (auto simp: resolves_def covers_more split: option.splits)

lemma good_run_calls:
  assumes q: "quiescent base reg0" and "at_rest K clk h t reg0 c"
    and "\<forall>u\<in>set (br_accepted (snd c)). slot_fits nm (length recs) nd u"
    and "covers SlotCall recs (br_accepted (snd c)) i" and "i + length calls = length recs"
    and "covers SlotMember mems (br_accepted (snd c)) nm"
    and E: "\<And>e. E (authority_fault e)"
  shows "good (run_calls K clk i calls recs) c (\<lambda>c' recs'.
      at_rest K clk h t reg0 c' \<and> length recs' = length recs \<and>
      (\<forall>u\<in>set (br_accepted (snd c')). slot_fits nm (length recs') nd u) \<and>
      covers SlotCall recs' (br_accepted (snd c')) (length recs') \<and>
      covers SlotMember mems (br_accepted (snd c')) nm) E"
  using assms(2-6)
proof (induction calls arbitrary: i recs c)
  case Nil
  then show ?case by (auto intro!: good_return)
next
  case (Cons call calls)
  have i: "i < length recs" using Cons.prems(4) by simp
  show ?case
  proof (unfold run_calls.simps, rule good_then [OF good_decide_call [where E = E, OF q Cons.prems(1) E]],
      goal_cases)
    case (1 c1 v)
    then have c1: "at_rest K clk h t reg0 c1" "br_accepted (snd c1) = br_accepted (snd c)" by simp_all
    show ?case
    proof (rule good_then [OF good_run_call [OF q c1]], goal_cases)
      case (1 c2 rec)
      let ?recs = "case rec of Some r \<Rightarrow> recs[i := Some r] | None \<Rightarrow> recs"
      have len: "length ?recs = length recs" by (simp split: option.split)
      have "good (run_calls K clk (i + 1) calls ?recs) c2 (\<lambda>c' recs'.
        at_rest K clk h t reg0 c' \<and> length recs' = length ?recs \<and>
        (\<forall>u\<in>set (br_accepted (snd c')). slot_fits nm (length recs') nd u) \<and>
        covers SlotCall recs' (br_accepted (snd c')) (length recs') \<and>
        covers SlotMember mems (br_accepted (snd c')) nm) E"
      proof (rule Cons.IH)
        show "at_rest K clk h t reg0 c2" using 1 by (simp add: resolves_def)
        show "\<forall>u\<in>set (br_accepted (snd c2)). slot_fits nm (length ?recs) nd u"
          using 1 i Cons.prems(2)
          by (auto simp: len resolves_def slot_fits_call split: option.splits)
        show "covers SlotCall ?recs (br_accepted (snd c2)) (i + 1)"
          using resolves_covers [where S = SlotCall and i = i, OF 1, of recs] Cons.prems(3) i by simp
        show "i + 1 + length calls = length ?recs" using Cons.prems(4) by (simp add: len)
        show "covers SlotMember mems (br_accepted (snd c2)) nm"
          by (rule resolves_others [OF 1 Cons.prems(5)])
      qed
      then show ?case by (simp add: len)
    qed
  qed
qed

lemma good_run_deliveries:
  assumes q: "quiescent base reg0" and "at_rest K clk h t reg0 c"
    and "\<forall>u\<in>set (br_accepted (snd c)). slot_fits nm nc (length recs) u"
    and "covers SlotDelivery recs (br_accepted (snd c)) i" and "i + length ds = length recs"
    and "covers SlotMember mems (br_accepted (snd c)) nm" and "covers SlotCall calls (br_accepted (snd c)) nc"
  shows "good (run_deliveries K clk i ds recs) c (\<lambda>c' recs'.
      at_rest K clk h t reg0 c' \<and> length recs' = length recs \<and>
      (\<forall>u\<in>set (br_accepted (snd c')). slot_fits nm nc (length recs') u) \<and>
      covers SlotDelivery recs' (br_accepted (snd c')) (length recs') \<and>
      covers SlotMember mems (br_accepted (snd c')) nm \<and>
      covers SlotCall calls (br_accepted (snd c')) nc) E"
  using assms(2-7)
proof (induction ds arbitrary: i recs c)
  case Nil
  then show ?case by (auto intro!: good_return)
next
  case (Cons d ds)
  have i: "i < length recs" using Cons.prems(4) by simp
  show ?case
  proof (unfold run_deliveries.simps, rule good_then [OF good_run_delivery [OF q Cons.prems(1) refl]],
      goal_cases)
    case (1 c2 rec)
    let ?recs = "case rec of Some r \<Rightarrow> recs[i := Some r] | None \<Rightarrow> recs"
    have len: "length ?recs = length recs" by (simp split: option.split)
    have "good (run_deliveries K clk (i + 1) ds ?recs) c2 (\<lambda>c' recs'.
      at_rest K clk h t reg0 c' \<and> length recs' = length ?recs \<and>
      (\<forall>u\<in>set (br_accepted (snd c')). slot_fits nm nc (length recs') u) \<and>
      covers SlotDelivery recs' (br_accepted (snd c')) (length recs') \<and>
      covers SlotMember mems (br_accepted (snd c')) nm \<and>
      covers SlotCall calls (br_accepted (snd c')) nc) E"
    proof (rule Cons.IH)
      show "at_rest K clk h t reg0 c2" using 1 by (simp add: resolves_def)
      show "\<forall>u\<in>set (br_accepted (snd c2)). slot_fits nm nc (length ?recs) u"
        using 1 i Cons.prems(2)
        by (auto simp: len resolves_def slot_fits_delivery split: option.splits)
      show "covers SlotDelivery ?recs (br_accepted (snd c2)) (i + 1)"
        using resolves_covers [where S = SlotDelivery and i = i, OF 1, of recs] Cons.prems(3) i by simp
      show "i + 1 + length ds = length ?recs" using Cons.prems(4) by (simp add: len)
      show "covers SlotMember mems (br_accepted (snd c2)) nm"
        by (rule resolves_others [OF 1 Cons.prems(5)])
      show "covers SlotCall calls (br_accepted (snd c2)) nc"
        by (rule resolves_others [OF 1 Cons.prems(6)])
    qed
    then show ?case by (simp add: len)
  qed
qed

end

section \<open>Whole blocks\<close>

text \<open>Faults a live block can have before its injection.\<close>

definition unit_fault :: "admission \<Rightarrow> submit_error \<Rightarrow> bool" where
  "unit_fault adm e \<longleftrightarrow> (\<exists>r. adm = Sole \<and> e = Rejected r) \<or> (\<exists>r. e = authority_fault r)"

lemma unit_fault_clean: "unit_fault adm e \<Longrightarrow> clean_fault e"
  by (auto simp: unit_fault_def authority_fault_def)

text \<open>The injection's drain, on top of the accepted units.\<close>

definition injected :: "'m kernel \<Rightarrow> clock \<Rightarrow> prepared_work \<Rightarrow> 'm blk \<Rightarrow> ('m run \<times> (error + unit)) obs" where
  "injected K clk prepared c =
     drain_queue K clk (br_height (snd c)) (br_consensus_time (snd c)) 0 (injections prepared)
       \<lparr>run_registry = fst c, run_touched = br_touched (snd c), run_events = [], run_dispatches = []\<rparr>"

text \<open>
  The end of a block whose units have run, under any observer that lets the injection through: the
  injection's refusal and the journal hook's refusal leave the host as it was; otherwise the touched
  modules commit.
\<close>

definition block_end ::
  "'m kernel \<Rightarrow> (u64 \<Rightarrow> witness \<Rightarrow> string + unit) \<Rightarrow> module_id fset option \<Rightarrow> block_context \<Rightarrow>
   prepared_work \<Rightarrow> slots \<Rightarrow> accepted_unit list \<Rightarrow> 'm run \<times> (error + unit) \<Rightarrow> witness \<Rightarrow> 'm host \<Rightarrow>
   'm host \<times> (submit_error + batch_outcome)" where
  "block_end K hook only ctx prepared filled us injection W h =
     (case injection of
        (r, Inl reason) \<Rightarrow> (h, Inl (Rejected reason))
      | (r, Inr _) \<Rightarrow>
          (case hook (bc_height ctx) W of
             Inl reason \<Rightarrow>
               (h, Inl (Fatal \<lparr>fe_module = DISPATCH_MODULE_ID, fe_phase = PhaseWitness,
                               fe_source = ModuleError reason\<rparr>))
           | Inr _ \<Rightarrow>
               (case commit_boundary (k_ops K) (run_registry r) (run_touched r) only of
                  (registry, Inl f) \<Rightarrow> (h\<lparr>h_registry := registry\<rparr>, Inl f)
                | (registry, Inr _) \<Rightarrow>
                    (let h' = h\<lparr>h_registry := registry,
                               h_committed := (bc_height ctx, bc_consensus_time ctx)\<rparr>
                     in case filled of (ms, cs, ds) \<Rightarrow>
                       (h', Inr \<lparr>bo_root_hash = root_hash K h', bo_members = map the ms,
                              bo_calls = map the cs, bo_deliveries = map the ds,
                              bo_events = concat (map au_events us) @ run_events r,
                              bo_system_dispatches = run_dispatches r, bo_prepared = prepared,
                              bo_witness = W\<rparr>)))))"

lemma transparent_injected [intro]: "transparent (injected K clk prepared c)"
  unfolding injected_def by (rule transparent_drain)

lemma injected_with_ob [simp]: "injected K clk prepared (with_ob ob c) = injected K clk prepared c"
  by (simp add: injected_def)

lemma drain_injections_eq:
  "drain_injections K clk prepared c =
   run_state (State_Monad.bind begin_unit (\<lambda>_. injected K clk prepared c)) (blk_ob c)"
  by (simp add: drain_injections_def injected_def Let_def)

definition full :: "slots \<Rightarrow> bool" where
  "full s \<longleftrightarrow> (case s of (ms, cs, ds) \<Rightarrow>
     unwrap_all ms = Inr (map the ms) \<and> unwrap_all cs = Inr (map the cs) \<and>
     unwrap_all ds = Inr (map the ds))"

context host_laws
begin

lemma start_at_rest: "at_rest K clk (bc_height ctx) (bc_consensus_time ctx) reg0 (block_start ctx ObserveLive reg0)"
  by (simp add: at_rest_def live_inv_def block_start_def observer_new_def live_ob_def ob_ok_def)

lemma good_run_units:
  assumes q: "quiescent base reg0"
  shows "good (run_units K clk adm ops prepared) (block_start ctx ObserveLive reg0)
    (\<lambda>c s. at_rest K clk (bc_height ctx) (bc_consensus_time ctx) reg0 c \<and>
       (\<exists>filled. settle prepared (br_accepted (snd c)) s = Inr filled \<and> full filled))
    (unit_fault adm)"
  unfolding run_units_def
proof (rule good_then [OF good_run_members [where E = "unit_fault adm" and nc = "length (pw_calls prepared)"
      and nd = "length (pw_deliveries prepared)", OF q start_at_rest]], goal_cases)
  case (5 c1 ms)
  then have c1: "at_rest K clk (bc_height ctx) (bc_consensus_time ctx) reg0 c1"
    "\<forall>u\<in>set (br_accepted (snd c1)). slot_fits (length ms) (length (pw_calls prepared))
       (length (pw_deliveries prepared)) u"
    "covers SlotMember ms (br_accepted (snd c1)) (length ms)" by blast+
  show ?case
  proof (rule good_then [OF good_run_calls [where E = "unit_fault adm" and nm = "length ms" and mems = ms
          and nd = "length (pw_deliveries prepared)", OF q c1(1)]], goal_cases)
    case (6 c2 cs)
    then have c2: "at_rest K clk (bc_height ctx) (bc_consensus_time ctx) reg0 c2"
      "\<forall>u\<in>set (br_accepted (snd c2)). slot_fits (length ms) (length cs) (length (pw_deliveries prepared)) u"
      "covers SlotCall cs (br_accepted (snd c2)) (length cs)"
      "covers SlotMember ms (br_accepted (snd c2)) (length ms)" "length cs = length (pw_calls prepared)"
      by auto
    show ?case
    proof (rule good_then [OF good_run_deliveries [where E = "unit_fault adm" and nm = "length ms"
            and mems = ms and nc = "length cs" and calls = cs, OF q c2(1)]], goal_cases)
      case (6 c3 ds)
      with c2(5) obtain ms' cs' ds' where s: "settle prepared (br_accepted (snd c3)) (ms, cs, ds) = Inr (ms', cs', ds')"
        "refills SlotMember (br_accepted (snd c3)) ms ms'" "refills SlotCall (br_accepted (snd c3)) cs cs'"
        "refills SlotDelivery (br_accepted (snd c3)) ds ds'"
        using settle_fills [of "br_accepted (snd c3)" ms cs ds prepared] by auto
      with 6 have "full (ms', cs', ds')"
        by (auto simp: full_def dest: refills_covers)
      with 6 s(1) show ?case by (intro good_return) auto
    qed (use c2 in auto)
  qed (use c1 in \<open>auto simp: unit_fault_def\<close>)
qed (auto simp: unit_fault_def block_start_def)

lemma seal_block_end:
  assumes "quiescent base (h_registry h)"
    and "reg_frame base (run_touched r) (h_registry h) (run_registry r)"
    and "observer_finish ob = Inr W" and "full filled"
  shows "seal_block K hook only ctx prepared filled (concat (map au_events us)) r ob h =
         block_end K hook only ctx prepared filled us (r, Inr ()) W h"
proof -
  obtain ms cs ds where f: "filled = (ms, cs, ds)" by (cases filled)
  show ?thesis
    using assms(3,4)
    by (auto simp: f seal_block_def block_end_def full_def host_abort_restores [OF assms(1,2)]
        Let_def split: sum.split prod.split)
qed

text \<open>
  A live block and the replay of its witness, in one: both are \<open>block_end\<close> of the same units.
\<close>

lemma apply_live:
  assumes q: "quiescent base (h_registry h)"
  shows "(\<exists>e. unit_fault adm e \<and>
            (\<forall>hook only. apply_block K hook only adm ObserveLive ctx ops prepared h = (h, Inl e))) \<or>
         (\<exists>c filled W. at_rest K (h_committed h) (bc_height ctx) (bc_consensus_time ctx) (h_registry h) c \<and>
            W = ob_units (blk_ob c) @ [obs_trace (injected K (h_committed h) prepared c)] \<and>
            (\<forall>hook only observation. observation \<in> {ObserveLive, Journaled W {||}} \<longrightarrow>
               apply_block K hook only adm observation ctx ops prepared h =
               block_end K hook only ctx prepared filled (br_accepted (snd c))
                 (obs_result (injected K (h_committed h) prepared c)) W h))"
proof -
  let ?reg = "h_registry h" and ?clk = "h_committed h"
  let ?start = "\<lambda>observation. block_start ctx observation ?reg"
  let ?run = "run_units K ?clk adm ops prepared"
  from good_run_units [OF q, of ?clk adm ops prepared ctx] show ?thesis
    unfolding good_def
  proof (elim disjE exE conjE)
    fix c e assume u: "?run (?start ObserveLive) = (c, Inl e)" and e: "unit_fault adm e"
    have "fst (apply_block K hook only adm ObserveLive ctx ops prepared h) = h" for hook only
      using apply_block_clean [OF q, of hook only adm ObserveLive ctx ops prepared _ e]
        unit_fault_clean [OF e] by (simp add: apply_block_def u)
    with u e show ?thesis by (auto simp: apply_block_def)
  next
    fix c s filled
    assume runs: "runs ?run (?start ObserveLive) c s"
      and rest: "at_rest K ?clk (bc_height ctx) (bc_consensus_time ctx) ?reg c"
      and s: "settle prepared (br_accepted (snd c)) s = Inr filled" "full filled"
    let ?m = "injected K ?clk prepared c"
    let ?ob = "after_entry ?m (blk_ob c)" and ?W = "ob_units (blk_ob c) @ [obs_trace ?m]"
    have live: "live_ob (blk_ob c)" using rest by (simp add: at_rest_def live_inv_def)
    note live1 = after_entry_live [OF live, of ?m] and W = after_entry_units [OF live, of ?m]
    have frame: "blk_frame base ?reg c" using rest live_inv_frame unfolding at_rest_def by blast
    obtain r drained where out: "obs_result ?m = (r, drained)" by fastforce
    have fin: "apply_block K hook only adm observation ctx ops prepared h =
        block_end K hook only ctx prepared filled (br_accepted (snd c)) (obs_result ?m) ?W h"
      if u: "?run (?start observation) = (with_ob o1 c, Inr s)"
        and o1: "run_state (State_Monad.bind begin_unit (\<lambda>_. ?m)) o1 = (obs_result ?m, o3)"
        and o3: "ob_divergence o3 = None" "observer_finish o3 = Inr ?W" for observation o1 o3 hook only
    proof -
      have d: "drain_injections K ?clk prepared (with_ob o1 c) = ((r, drained), o3)"
        using o1 out by (simp add: drain_injections_eq)
      have f: "reg_frame base (run_touched r) ?reg (run_registry r)"
        by (rule drain_injections_frame [OF _ d]) (use frame in \<open>simp add: blk_frame_def\<close>)
      show ?thesis
        by (cases drained)
          (simp_all add: apply_block_def u s(1) d o3(1) host_abort_restores [OF q f]
            seal_block_end [OF q f o3(2) s(2)] out, simp add: block_end_def)
    qed
    have "apply_block K hook only adm ObserveLive ctx ops prepared h =
        block_end K hook only ctx prepared filled (br_accepted (snd c)) (obs_result ?m) ?W h" for hook only
    proof (rule fin)
      show "?run (?start ObserveLive) = (with_ob (blk_ob c) c, Inr s)"
        using runs by (simp add: runs_def with_ob_def)
      show "run_state (State_Monad.bind begin_unit (\<lambda>_. ?m)) (blk_ob c) = (obs_result ?m, ?ob)"
        by (rule entry_run [OF live]) auto
    qed (use live1 finish_live [OF live1] W in \<open>simp_all add: live_ob_def\<close>)
    moreover have "apply_block K hook only adm (Journaled ?W {||}) ctx ops prepared h =
        block_end K hook only ctx prepared filled (br_accepted (snd c)) (obs_result ?m) ?W h" for hook only
    proof -
      have fit: "fits ?ob ?W" using fits_self [of ?ob] by (simp add: W)
      let ?o = "observer_new (Journaled ?W {||})"
      have "serves ?W (blk_ob (?start ObserveLive)) ?o"
        by (simp add: serves_def block_start_def observer_new_def)
      then obtain o2 where o2: "?run (with_ob ?o (?start ObserveLive)) = (with_ob o2 c, Inr s)"
        "serves ?W (blk_ob c) o2"
        using runs entry_fits [OF live fit] unfolding runs_def by blast
      from entry_replay [OF live transparent_injected this(2) fit] obtain o3 where
        o3: "run_state (State_Monad.bind begin_unit (\<lambda>_. ?m)) o2 = (obs_result ?m, o3)" "serves ?W ?ob o3"
        by blast
      show ?thesis
        by (rule fin [OF _ o3(1)])
          (use o2(1) finish_serves [OF live1] o3(2) in
            \<open>simp_all add: W with_ob_def block_start_def\<close>)
    qed
    ultimately show ?thesis using rest by blast
  qed
qed

end

end
