(* ===== verification/Native.thy ===== *)
theory Native
  imports Host_Live Kv
begin

text \<open>
  A host's registry holds \<^verbatim>\<open>Box<dyn Module>\<close> values. Here the modules of this development stand
  behind one type, each operation dispatched to the module's own, as the vtable does. The staging
  contracts of the three modules make one contract for the sum, which discharges the laws the host's
  theorems rest on.
\<close>

section \<open>The sum of the modules\<close>

datatype 's native = NativeKv "'s kv" | NativeAcl "'s acl" | NativeValset "'s valset"

text \<open>The formats of the three modules, and the store they run on.\<close>

record 's native_env =
  ne_lib :: "'s store_lib"
  ne_kv :: kv_wires
  ne_acl :: acl_wires
  ne_valset :: valset_wires

fun native_root :: "'s native_env \<Rightarrow> 's native \<Rightarrow> state_root" where
  "native_root E (NativeKv m) = mod_root (kv_ops (ne_lib E) (ne_kv E)) m"
| "native_root E (NativeAcl m) = mod_root (acl_ops (ne_lib E) (ne_acl E)) m"
| "native_root E (NativeValset m) = mod_root (valset_ops (ne_lib E) (ne_valset E)) m"

fun native_execute :: "'s native_env \<Rightarrow> 's native \<Rightarrow> env \<Rightarrow> msg \<Rightarrow> 's native dispatch_out ctx_m" where
  "native_execute E (NativeKv m) env msg =
     map_ctx_m (map_out NativeKv) (mod_execute (kv_ops (ne_lib E) (ne_kv E)) m env msg)"
| "native_execute E (NativeAcl m) env msg =
     map_ctx_m (map_out NativeAcl) (mod_execute (acl_ops (ne_lib E) (ne_acl E)) m env msg)"
| "native_execute E (NativeValset m) env msg =
     map_ctx_m (map_out NativeValset) (mod_execute (valset_ops (ne_lib E) (ne_valset E)) m env msg)"

fun native_query :: "'s native_env \<Rightarrow> 's native \<Rightarrow> env \<Rightarrow> bytes \<Rightarrow> (error + bytes) ctx_m" where
  "native_query E (NativeKv m) env req = mod_query (kv_ops (ne_lib E) (ne_kv E)) m env req"
| "native_query E (NativeAcl m) env req = mod_query (acl_ops (ne_lib E) (ne_acl E)) m env req"
| "native_query E (NativeValset m) env req = mod_query (valset_ops (ne_lib E) (ne_valset E)) m env req"

fun native_commit :: "'s native_env \<Rightarrow> 's native \<Rightarrow> 's native \<times> (error + unit)" where
  "native_commit E (NativeKv m) = map_step NativeKv (mod_commit_block (kv_ops (ne_lib E) (ne_kv E)) m)"
| "native_commit E (NativeAcl m) = map_step NativeAcl (mod_commit_block (acl_ops (ne_lib E) (ne_acl E)) m)"
| "native_commit E (NativeValset m) =
     map_step NativeValset (mod_commit_block (valset_ops (ne_lib E) (ne_valset E)) m)"

fun native_abort :: "'s native_env \<Rightarrow> 's native \<Rightarrow> 's native \<times> (error + unit)" where
  "native_abort E (NativeKv m) = map_step NativeKv (mod_abort_block (kv_ops (ne_lib E) (ne_kv E)) m)"
| "native_abort E (NativeAcl m) = map_step NativeAcl (mod_abort_block (acl_ops (ne_lib E) (ne_acl E)) m)"
| "native_abort E (NativeValset m) =
     map_step NativeValset (mod_abort_block (valset_ops (ne_lib E) (ne_valset E)) m)"

fun native_id :: "'s native \<Rightarrow> module_id" where
  "native_id (NativeKv m) = kv_id m"
| "native_id (NativeAcl m) = acl_id m"
| "native_id (NativeValset m) = vs_id m"

definition native_ops :: "'s native_env \<Rightarrow> 's native module_ops" where
  "native_ops E =
     \<lparr>mod_id = native_id, mod_root = native_root E, mod_execute = native_execute E,
      mod_acknowledge = default_acknowledge, mod_query = native_query E,
      mod_pending_items = default_pending_items, mod_commit_block = native_commit E,
      mod_abort_block = native_abort E, mod_code_hash = (\<lambda>_. None),
      mod_prepare_swap = default_prepare_swap\<rparr>"

fun native_base :: "'s native \<Rightarrow> 's native" where
  "native_base (NativeKv m) = NativeKv (kv_base m)"
| "native_base (NativeAcl m) = NativeAcl (acl_base m)"
| "native_base (NativeValset m) = NativeValset (vs_abort m)"

section \<open>The host's laws\<close>

definition native_kernel :: "'s native_env \<Rightarrow> 's native kernel \<Rightarrow> 's native kernel" where
  "native_kernel E K = K\<lparr>k_ops := native_ops E\<rparr>"

interpretation native: host_laws "native_kernel E K" native_base for E K
proof
  fix m :: "'a native" and env msg ack
  let ?ops = "k_ops (native_kernel E K)"
  show "ctx_all (\<lambda>out. native_base (out_module out) = native_base m) (mod_execute ?ops m env msg)"
    using kv_laws.execute_base acl_laws.execute_base valset_laws.execute_base
    by (cases m) (simp_all add: native_kernel_def native_ops_def ctx_all_map map_out_def)
  show "ctx_all (\<lambda>out. native_base (out_module out) = native_base m) (mod_acknowledge ?ops m env ack)"
    by (simp add: native_kernel_def native_ops_def default_acknowledge_def)
  show "mod_abort_block ?ops m = (native_base m, Inr ())"
    by (cases m) (simp_all add: native_kernel_def native_ops_def map_step_def kv_laws.abort_base
        acl_laws.abort_base valset_laws.abort_base)
  show "native_base (native_base m) = native_base m"
    by (cases m) (simp_all add: kv_laws.base_base acl_laws.base_base valset_laws.base_base)
  show "mod_root ?ops (native_base m) = mod_root ?ops m"
    by (cases m) (simp_all add: native_kernel_def native_ops_def kv_laws.root_base acl_laws.root_base
        valset_laws.root_base)
qed

end
