(* ===== verification/Host_Transactions.thy ===== *)
theory Host_Transactions
  imports Host_Live
begin

text \<open>
  The reference semantics of a block's members: each op is a transaction on the registry the
  transactions before it left. An op that fails leaves no trace but its reason and, when it had
  touched a module, one unit of the replay budget. The block engine has no such transactions (a
  module can only drop everything it staged); it rolls the whole stage back and re-runs the
  accepted units. The lemmas show that the outcome is the same.
\<close>

section \<open>Transactions\<close>

type_synonym 'm tx_state = "'m registry \<times> module_id fset \<times> nat"

definition tx_member ::
  "'m kernel \<Rightarrow> clock \<Rightarrow> u64 \<Rightarrow> u64 \<Rightarrow> block_op \<Rightarrow> 'm tx_state \<Rightarrow> 'm tx_state \<times> member_outcome \<times> event list" where
  "tx_member K clk h t op s =
     (case s of (reg, touched, spent) \<Rightarrow>
        if spent > MAX_BLOCK_REPLAYS then (s, MemberRejected budget_reason, [])
        else
          (case steps_out K clk h t [StepOp (op_origin op) Direct (op_msg op)] reg of
             (r, Inr _) \<Rightarrow>
               ((run_registry r, touched |\<union>| run_touched r, spent),
                MemberApplied (run_dispatches r), run_events r)
           | (r, Inl e) \<Rightarrow>
               ((reg, touched, spent + (if run_touched r = {||} then 0 else 1)),
                MemberRejected (error_to_string e), [])))"

fun tx_members ::
  "'m kernel \<Rightarrow> clock \<Rightarrow> u64 \<Rightarrow> u64 \<Rightarrow> block_op list \<Rightarrow> 'm tx_state \<Rightarrow>
   'm tx_state \<times> member_outcome list \<times> event list" where
  "tx_members K clk h t [] s = (s, [], [])"
| "tx_members K clk h t (op # ops) s =
     (case tx_member K clk h t op s of (s1, out, evs) \<Rightarrow>
        (case tx_members K clk h t ops s1 of (s2, outs, evs') \<Rightarrow> (s2, out # outs, evs @ evs')))"

text \<open>A block without prepared work.\<close>

definition no_work :: prepared_work where
  "no_work = \<lparr>pw_advance = None, pw_calls = [], pw_deliveries = []\<rparr>"

text \<open>
  The end of a transactional block: the journal hook decides over the witness \<open>W\<close>, then the touched
  modules commit.
\<close>

definition tx_commit ::
  "'m kernel \<Rightarrow> (u64 \<Rightarrow> witness \<Rightarrow> string + unit) \<Rightarrow> module_id fset option \<Rightarrow> block_context \<Rightarrow>
   'm tx_state \<times> member_outcome list \<times> event list \<Rightarrow> witness \<Rightarrow> 'm host \<Rightarrow>
   'm host \<times> (submit_error + batch_outcome)" where
  "tx_commit K hook only ctx result W h =
     (case result of ((reg, touched, _), outs, evs) \<Rightarrow>
        (case hook (bc_height ctx) W of
           Inl reason \<Rightarrow>
             (h, Inl (Fatal \<lparr>fe_module = DISPATCH_MODULE_ID, fe_phase = PhaseWitness,
                             fe_source = ModuleError reason\<rparr>))
         | Inr _ \<Rightarrow>
             (case commit_boundary (k_ops K) reg touched only of
                (registry, Inl f) \<Rightarrow> (h\<lparr>h_registry := registry\<rparr>, Inl f)
              | (registry, Inr _) \<Rightarrow>
                  (let h' = h\<lparr>h_registry := registry,
                             h_committed := (bc_height ctx, bc_consensus_time ctx)\<rparr>
                   in (h', Inr \<lparr>bo_root_hash = root_hash K h', bo_members = outs, bo_calls = [],
                              bo_deliveries = [], bo_events = evs, bo_system_dispatches = [],
                              bo_prepared = no_work, bo_witness = W\<rparr>)))))"

section \<open>The slots of the members\<close>

fun fill_member :: "accepted_unit \<Rightarrow> member_outcome option list \<Rightarrow> member_outcome option list" where
  "fill_member u ms =
     (case au_slot u of
        SlotMember i \<Rightarrow> ms[i := Some (MemberApplied (au_dispatches u))]
      | _ \<Rightarrow> ms)"

definition filled_members ::
  "accepted_unit list \<Rightarrow> member_outcome option list \<Rightarrow> member_outcome option list" where
  "filled_members us ms = fold fill_member us ms"

definition member_units :: "nat \<Rightarrow> accepted_unit list \<Rightarrow> bool" where
  "member_units n us \<longleftrightarrow>
     (\<forall>u\<in>set us. au_resolved u = ResolvedMember \<and> (\<exists>i<n. au_slot u = SlotMember i))"

lemma length_filled [simp]: "length (filled_members us ms) = length ms"
  unfolding filled_members_def
  by (induction us arbitrary: ms) (auto split: slot.split)

lemma filled_snoc:
  "filled_members (us @ [u\<lparr>au_slot := SlotMember i, au_resolved := r\<rparr>]) ms =
   (filled_members us ms)[i := Some (MemberApplied (au_dispatches u))]"
  by (simp add: filled_members_def)

lemma filled_update:
  "member_units i us \<Longrightarrow> filled_members us (ms[i := x]) = (filled_members us ms)[i := x]"
  unfolding filled_members_def
proof (induction us arbitrary: ms)
  case (Cons u us)
  then obtain j where j: "j < i" "au_slot u = SlotMember j" by (auto simp: member_units_def)
  then have "ms[i := x, j := y] = ms[j := y, i := x]" for y by (intro list_update_swap) simp
  with Cons j show ?case by (simp add: member_units_def)
qed simp

lemma member_units_mono: "member_units i us \<Longrightarrow> i \<le> n \<Longrightarrow> member_units n us"
  by (fastforce simp: member_units_def)

lemma member_units_snoc:
  "member_units i us \<Longrightarrow>
   member_units (Suc i) (us @ [u\<lparr>au_slot := SlotMember i, au_resolved := ResolvedMember\<rparr>])"
  by (fastforce simp: member_units_def)

lemma settle_members:
  "member_units (length ms) us \<Longrightarrow>
   settle prepared us (ms, cs, ds) = Inr (filled_members us ms, cs, ds)"
proof (induction us arbitrary: ms)
  case (Cons u us)
  then obtain i where "i < length ms" "au_slot u = SlotMember i" "au_resolved u = ResolvedMember"
    by (auto simp: member_units_def)
  with Cons show ?case
    by (simp add: settle_unit_def filled_members_def member_units_def)
qed (simp add: filled_members_def)

lemma take_Suc_update: "i < length xs \<Longrightarrow> take (Suc i) (xs[i := x]) = take i xs @ [x]"
  by (simp add: take_Suc_conv_app_nth)

context host_laws
begin

text \<open>One unit of the engine is one transaction.\<close>

lemma run_unit_tx:
  assumes "quiescent base reg0" and rest: "at_rest K clk h t reg0 c"
  shows "\<exists>c' v. run_unit K clk [StepOp (op_origin op) Direct (op_msg op)] c = (c', Inr v) \<and>
     br_accepted (snd c') = br_accepted (snd c) \<and>
     (\<exists>out evs. tx_member K clk h t op (fst c, br_touched (snd c), br_replays (snd c)) =
        ((fst c', br_touched (snd c'), br_replays (snd c')), out, evs) \<and>
      (case v of
         Accepted u \<Rightarrow>
           unit_open K clk h t reg0 u c' \<and> au_resolved u = ResolvedMember \<and>
           out = MemberApplied (au_dispatches u) \<and> evs = au_events u
       | UnitRejected e \<Rightarrow>
           at_rest K clk h t reg0 c' \<and> out = MemberRejected (error_to_string e) \<and> evs = []
       | Unattempted \<Rightarrow>
           at_rest K clk h t reg0 c' \<and> out = MemberRejected budget_reason \<and> evs = []))"
proof -
  let ?ss = "[StepOp (op_origin op) Direct (op_msg op)]"
  obtain r res where out: "steps_out K clk h t ?ss (fst c) = (r, res)" by fastforce
  obtain c' v where v: "runs (run_unit K clk ?ss) c c' v" "unit_result K clk h t ?ss c c' v"
    "case v of Accepted u \<Rightarrow> unit_open K clk h t reg0 u c' | _ \<Rightarrow> at_rest K clk h t reg0 c'"
    using run_unit_good [OF assms, of ?ss] by blast
  have eq: "run_unit K clk ?ss c = (c', Inr v)" using v(1) by (simp add: runs_def)
  have acc: "br_accepted (snd c') = br_accepted (snd c)" using v(2) by (simp add: unit_result_def)
  have same: "fst c' = fst c \<and> br_touched (snd c') = br_touched (snd c)"
    if "at_rest K clk h t reg0 c'"
    using that rest acc by (simp add: at_rest_def live_inv_def)
  show ?thesis
  proof (cases v)
    case (Accepted u)
    then have u: "unit_open K clk h t reg0 u c'" "au_steps u = ?ss" "res = Inr ()"
      "au_resolved u = ResolvedMember" "br_replays (snd c') = br_replays (snd c)"
      "\<not> budget_exhausted (snd c)"
      using v out by (auto simp: unit_result_def)
    have "fst c' = run_registry r" "br_touched (snd c') = br_touched (snd c) |\<union>| run_touched r"
      "au_events u = run_events r" "au_dispatches u = run_dispatches r"
      using u(1,2) rest acc out
      by (auto simp: unit_open_def at_rest_def live_inv_def after_units_append units_reach_append
          units_ok_append unit_ok_def unit_reg_def)
    with u eq acc out Accepted show ?thesis
      by (intro exI [of _ c'] exI [of _ v]) (simp add: tx_member_def budget_exhausted_def)
  next
    case (UnitRejected e)
    with v same eq acc out show ?thesis
      by (intro exI [of _ c'] exI [of _ v])
        (auto simp: tx_member_def budget_exhausted_def unit_result_def)
  next
    case Unattempted
    with v same eq acc out show ?thesis
      by (intro exI [of _ c'] exI [of _ v])
        (auto simp: tx_member_def budget_exhausted_def unit_result_def)
  qed
qed

lemma run_members_tx:
  assumes q: "quiescent base reg0" and "at_rest K clk h t reg0 c"
    and "member_units i (br_accepted (snd c))" and "i + length ops = length mems"
  shows "\<exists>c' mems' outs evs. run_members K clk Batch i ops mems c = (c', Inr mems') \<and>
     tx_members K clk h t ops (fst c, br_touched (snd c), br_replays (snd c)) =
       ((fst c', br_touched (snd c'), br_replays (snd c')), outs, evs) \<and>
     at_rest K clk h t reg0 c' \<and> member_units (length mems) (br_accepted (snd c')) \<and>
     length mems' = length mems \<and>
     filled_members (br_accepted (snd c')) mems' =
       take i (filled_members (br_accepted (snd c)) mems) @ map Some outs \<and>
     concat (map au_events (br_accepted (snd c'))) =
       concat (map au_events (br_accepted (snd c))) @ evs"
  using assms(2-4)
proof (induction ops arbitrary: i mems c)
  case Nil
  then show ?case by simp
next
  case (Cons op ops)
  let ?acc = "br_accepted (snd c)"
  have i: "i < length mems" "Suc i + length ops = length mems" using Cons.prems(3) by simp_all
  obtain c1 v out evs where u: "run_unit K clk [StepOp (op_origin op) Direct (op_msg op)] c = (c1, Inr v)"
    "br_accepted (snd c1) = ?acc"
    "tx_member K clk h t op (fst c, br_touched (snd c), br_replays (snd c)) =
       ((fst c1, br_touched (snd c1), br_replays (snd c1)), out, evs)"
    and v: "case v of
         Accepted u \<Rightarrow>
           unit_open K clk h t reg0 u c1 \<and> au_resolved u = ResolvedMember \<and>
           out = MemberApplied (au_dispatches u) \<and> evs = au_events u
       | UnitRejected e \<Rightarrow>
           at_rest K clk h t reg0 c1 \<and> out = MemberRejected (error_to_string e) \<and> evs = []
       | Unattempted \<Rightarrow>
           at_rest K clk h t reg0 c1 \<and> out = MemberRejected budget_reason \<and> evs = []"
    using run_unit_tx [OF q Cons.prems(1), of op] by blast
  define c2 where "c2 = (case v of Accepted u \<Rightarrow> accept_as (SlotMember i) ResolvedMember u c1 | _ \<Rightarrow> c1)"
  define mems2 where "mems2 = (case v of Accepted u \<Rightarrow> mems | _ \<Rightarrow> mems[i := Some out])"
  have step: "run_members K clk Batch i (op # ops) mems c = run_members K clk Batch (Suc i) ops mems2 c2"
    using u(1) v by (cases v) (simp_all add: accept_member c2_def mems2_def)
  have c2: "fst c2 = fst c1" "br_touched (snd c2) = br_touched (snd c1)"
    "br_replays (snd c2) = br_replays (snd c1)"
    by (simp_all add: c2_def accept_as_def split: unit_verdict.split)
  have len: "length mems2 = length mems" by (simp add: mems2_def split: unit_verdict.split)
  have rest2: "at_rest K clk h t reg0 c2"
    using v by (cases v) (simp_all add: c2_def at_rest_accept)
  have units2: "member_units (Suc i) (br_accepted (snd c2))"
    using Cons.prems(2) u(2)
    by (auto simp: c2_def member_units_snoc intro: member_units_mono split: unit_verdict.split)
  have filled2: "take (Suc i) (filled_members (br_accepted (snd c2)) mems2) =
      take i (filled_members ?acc mems) @ [Some out]"
    using v i(1) filled_update [OF Cons.prems(2)] u(2)
    by (cases v) (simp_all add: c2_def mems2_def filled_snoc take_Suc_update)
  have events2: "concat (map au_events (br_accepted (snd c2))) = concat (map au_events ?acc) @ evs"
    using v u(2) by (cases v) (simp_all add: c2_def)
  from Cons.IH [OF rest2 units2, of mems2] i(2) len obtain c' mems' outs evs' where ih:
    "run_members K clk Batch (Suc i) ops mems2 c2 = (c', Inr mems')"
    "tx_members K clk h t ops (fst c2, br_touched (snd c2), br_replays (snd c2)) =
       ((fst c', br_touched (snd c'), br_replays (snd c')), outs, evs')"
    "at_rest K clk h t reg0 c'" "member_units (length mems) (br_accepted (snd c'))"
    "length mems' = length mems"
    "filled_members (br_accepted (snd c')) mems' =
       take (Suc i) (filled_members (br_accepted (snd c2)) mems2) @ map Some outs"
    "concat (map au_events (br_accepted (snd c'))) = concat (map au_events (br_accepted (snd c2))) @ evs'"
    by auto
  show ?case
    by (intro exI [of _ c'] exI [of _ mems'] exI [of _ "out # outs"] exI [of _ "evs @ evs'"])
      (simp add: step ih u(3) c2 [symmetric] filled2 events2 del: run_members.simps)
qed

lemma apply_batch_tx:
  assumes q: "quiescent base (h_registry h)"
  shows "\<exists>W. \<forall>hook only. apply_block K hook only Batch ObserveLive ctx ops no_work h =
     tx_commit K hook only ctx
       (tx_members K (h_committed h) (bc_height ctx) (bc_consensus_time ctx) ops (h_registry h, {||}, 0)) W h"
proof -
  let ?start = "block_start ctx ObserveLive (h_registry h)"
  let ?h = "bc_height ctx" and ?t = "bc_consensus_time ctx" and ?clk = "h_committed h"
  have start: "br_accepted (snd ?start) = []" "fst ?start = h_registry h"
    "br_touched (snd ?start) = {||}" "br_replays (snd ?start) = 0"
    by (simp_all add: block_start_def)
  have none: "member_units 0 (br_accepted (snd ?start))" by (simp add: start member_units_def)
  have len: "0 + length ops = length (replicate (length ops) None)" by simp
  obtain c mems outs evs where m:
    "run_members K ?clk Batch 0 ops (replicate (length ops) None) ?start = (c, Inr mems)"
    "tx_members K ?clk ?h ?t ops (h_registry h, {||}, 0) =
       ((fst c, br_touched (snd c), br_replays (snd c)), outs, evs)"
    "at_rest K ?clk ?h ?t (h_registry h) c" "member_units (length ops) (br_accepted (snd c))"
    "length mems = length ops" "filled_members (br_accepted (snd c)) mems = map Some outs"
    "concat (map au_events (br_accepted (snd c))) = evs"
    using run_members_tx [OF q start_at_rest [of ?clk ctx] none len]
    unfolding start by auto
  let ?us = "br_accepted (snd c)" and ?r = "\<lparr>run_registry = fst c, run_touched = br_touched (snd c),
      run_events = [], run_dispatches = []\<rparr>"
  have live: "live_ob (blk_ob c)" using m(3) by (simp add: at_rest_def live_inv_def)
  have units: "run_units K ?clk Batch ops no_work ?start = (c, Inr (mems, [], []))"
    by (simp add: run_units_def no_work_def m(1))
  have settled: "settle no_work ?us (mems, [], []) = Inr (map Some outs, [], [])"
    using settle_members [of mems ?us] m(4-6) by simp
  have "full (map Some outs, [], [])"
    by (auto simp: full_def unwrap_all_def o_def)
  moreover have "blk_frame base (h_registry h) c"
    using m(3) live_inv_frame unfolding at_rest_def by blast
  moreover have d: "drain_injections K ?clk no_work c =
      ((?r, Inr ()), snd (run_state begin_unit (blk_ob c)))"
    by (simp add: drain_injections_def injections_def no_work_def Let_def split: prod.split)
  moreover note begin_live [OF live]
  ultimately have "apply_block K hook only Batch ObserveLive ctx ops no_work h =
      block_end K hook only ctx no_work (map Some outs, [], []) ?us (?r, Inr ())
        (ob_units (snd (run_state begin_unit (blk_ob c)))) h" for hook only
    using seal_block_end [OF q, of ?r "snd (run_state begin_unit (blk_ob c))"] finish_live
    by (simp add: apply_block_def units settled blk_frame_def live_ob_def)
  then show ?thesis
    by (intro exI [of _ "ob_units (snd (run_state begin_unit (blk_ob c)))"])
      (simp add: block_end_def tx_commit_def m(2,7) Let_def o_def split: sum.split prod.split)
qed

end

end
