(* ===== verification/Demo_Host.thy ===== *)
theory Demo_Host
  imports Native Valset_Window Host_Transactions
begin

text \<open>
  A host with one kv module over the in-memory store, with which the theorems about hosts are
  applied: an op that writes, an op whose payload does not decode, and what a live run makes of each.
\<close>

definition silent :: "'a serde" where
  "silent = \<lparr>to_vec = (\<lambda>_. []), from_slice = (\<lambda>_. Inl ''malformed'')\<rparr>"

definition demo_env :: "mem_store native_env" where
  "demo_env = \<lparr>ne_lib = mem_lib id, ne_kv = kv_fmts, ne_acl = acl_fmts, ne_valset = valset_fmts\<rparr>"

definition demo_kernel :: "mem_store native kernel" where
  "demo_kernel =
     \<lparr>k_ops = native_ops demo_env, k_sha256 = id, k_acl = acl_fmts, k_valset = valset_fmts,
      k_identity = \<lparr>iw_query = silent, iw_reply = silent, iw_debug_reply = (\<lambda>_. [])\<rparr>,
      k_dispatch = \<lparr>dw_msg = silent, dw_query = silent, dw_reply = silent, dw_debug_reply = (\<lambda>_. [])\<rparr>,
      k_modules = \<lparr>mw_msg = silent, mw_query = silent, mw_reply = silent, mw_debug_reply = (\<lambda>_. [])\<rparr>,
      k_ack = silent\<rparr>"

definition demo_kv :: "mem_store kv" where
  "demo_kv = kv_new ''kv'' mem_new"

definition demo_host :: "mem_store native host" where
  "demo_host =
     \<lparr>h_registry = [(''kv'', NativeKv demo_kv)], h_module_factory = None,
      h_foreign_admissions = {||}, h_status_cache = None, h_committed = (0, 0)\<rparr>"

definition demo_write :: block_op where
  "demo_write = bare_op (External [7])
     \<lparr>msg_target = ''kv'', msg_payload = to_vec (kvw_msg kv_fmts) (KvSet [1] [2])\<rparr>"

definition demo_bad :: block_op where
  "demo_bad = bare_op (External [7]) \<lparr>msg_target = ''kv'', msg_payload = [3]\<rparr>"

abbreviation accept_all :: "u64 \<Rightarrow> witness \<Rightarrow> string + unit" where
  "accept_all \<equiv> (\<lambda>_ _. Inr ())"

lemma demo_laws: "host_laws demo_kernel native_base"
  using native.host_laws_axioms [of demo_env demo_kernel]
  by (simp add: native_kernel_def demo_kernel_def)

lemma demo_quiescent: "quiescent native_base (h_registry demo_host)"
  by (auto simp: quiescent_def demo_host_def demo_kv_def kv_new_def kv_base_def staged_abort_def
      staged_new_def bt_inv_def split: if_splits)

lemmas demo_defs = demo_kernel_def demo_host_def demo_env_def demo_kv_def bare_op_def

lemmas run_defs = steps_out_def obs_result_def run_step_def observed_dispatch_def execute_one_def
  require_submit_standing_def observed_query_def host_query_def query_as_def ACL_MODULE_ID_def
  DEFAULT_ACL_ID_def gate_policy_def with_module_def native_ops_def kv_ops_def kv_execute_def
  wire_decode_def wire_encode_def kv_stage_cases MAX_KEY_LEN_def MAX_VALUE_LEN_def map_out_def
  quiet_out_def op_effects_def run_fresh_def Let_def MAX_DISPATCHES_def plan_def recorder_def
  observed_def record_query_def observe_query_def get_divergence_def record_dispatch_def
  push_trace_def kv_new_def op_record_def push_dispatch_def bt_remove_def

definition written :: "mem_store native registry" where
  "written = [(''kv'', NativeKv (demo_kv\<lparr>kv_staged := stage (kv_staged demo_kv) [1] [2]\<rparr>))]"

lemma demo_write_steps:
  "\<exists>r. steps_out demo_kernel clk h t [StepOp (op_origin demo_write) Direct (op_msg demo_write)]
     (h_registry demo_host) = (r, Inr ()) \<and> run_registry r = written \<and> run_touched r = {|''kv''|} \<and>
     run_events r = []"
  by (simp add: run_defs demo_defs demo_write_def kv_fmts_back written_def)

lemma demo_bad_decode: "from_slice (kvw_msg kv_fmts) [3] = Inl ''malformed''"
  by code_simp

lemma demo_bad_steps:
  assumes "reg = [(''kv'', NativeKv m)]"
  shows "\<exists>r e. steps_out demo_kernel clk h t [StepOp (op_origin demo_bad) Direct (op_msg demo_bad)] reg =
     (r, Inl e) \<and> run_touched r = {|''kv''|}"
  by (simp add: run_defs demo_defs demo_bad_def demo_bad_decode assms)

lemma demo_members:
  "\<exists>d e. tx_members demo_kernel clk h t [demo_write, demo_bad] (h_registry demo_host, {||}, 0) =
     ((written, {|''kv''|}, 1), [MemberApplied d, MemberRejected e], [])"
proof -
  obtain r where r: "steps_out demo_kernel clk h t [StepOp (op_origin demo_write) Direct (op_msg demo_write)]
     (h_registry demo_host) = (r, Inr ())" "run_registry r = written" "run_touched r = {|''kv''|}"
     "run_events r = []"
    using demo_write_steps by blast
  obtain r' e where "steps_out demo_kernel clk h t [StepOp (op_origin demo_bad) Direct (op_msg demo_bad)] written =
     (r', Inl e)" "run_touched r' = {|''kv''|}"
    using demo_bad_steps [of written] unfolding written_def by blast
  with r show ?thesis by (simp add: tx_member_def MAX_BLOCK_REPLAYS_def)
qed

end
