(* ===== verification/Host_Bounds.thy ===== *)
theory Host_Bounds
  imports Host_Block
begin

text \<open>
  Bounds on the work of a block, in every mode: the dispatches of one drain (from \<open>drain_count\<close>), and
  the rollbacks of one block. Every rollback re-runs all accepted units, so the second bound is what
  keeps a block's cost linear in its units. Rollbacks are counted where they arrive, at the modules: a
  meter on a module counts the calls of its \<^verbatim>\<open>abort_block\<close>, beside the engine's own counter.
\<close>

section \<open>Metered modules\<close>

text \<open>A module with a meter on \<^verbatim>\<open>abort_block\<close>; everything else is the module's own.\<close>

definition metered_ops :: "'m module_ops \<Rightarrow> ('m \<times> nat) module_ops" where
  "metered_ops ops =
     \<lparr>mod_id = (\<lambda>(m, n). mod_id ops m), mod_root = (\<lambda>(m, n). mod_root ops m),
      mod_execute = (\<lambda>(m, n) env msg. map_ctx_m (map_out (\<lambda>m'. (m', n))) (mod_execute ops m env msg)),
      mod_acknowledge = (\<lambda>(m, n) env ack. map_ctx_m (map_out (\<lambda>m'. (m', n))) (mod_acknowledge ops m env ack)),
      mod_query = (\<lambda>(m, n). mod_query ops m), mod_pending_items = (\<lambda>(m, n). mod_pending_items ops m),
      mod_commit_block = (\<lambda>(m, n). map_step (\<lambda>m'. (m', n)) (mod_commit_block ops m)),
      mod_abort_block = (\<lambda>(m, n). map_step (\<lambda>m'. (m', Suc n)) (mod_abort_block ops m)),
      mod_code_hash = (\<lambda>(m, n). mod_code_hash ops m),
      mod_prepare_swap = (\<lambda>(m, n) bs. and_then (mod_prepare_swap ops m bs) (\<lambda>m'. Inr (m', n)))\<rparr>"

definition metered_kernel :: "'m kernel \<Rightarrow> ('m \<times> nat) kernel" where
  "metered_kernel K =
     \<lparr>k_ops = metered_ops (k_ops K), k_sha256 = k_sha256 K, k_acl = k_acl K, k_valset = k_valset K,
      k_identity = k_identity K, k_dispatch = k_dispatch K, k_modules = k_modules K, k_ack = k_ack K\<rparr>"

definition metered :: "'m registry \<Rightarrow> ('m \<times> nat) registry" where
  "metered registry = map (\<lambda>(i, m). (i, m, 0)) registry"

text \<open>What a meter promises: only an abort moves it, and by one.\<close>

locale abort_meter =
  fixes K :: "'m kernel" and aborts :: "'m \<Rightarrow> nat"
  assumes execute_aborts: "ctx_all (\<lambda>out. aborts (out_module out) = aborts m) (mod_execute (k_ops K) m env msg)"
    and acknowledge_aborts: "ctx_all (\<lambda>out. aborts (out_module out) = aborts m) (mod_acknowledge (k_ops K) m env ack)"
    and abort_aborts: "aborts (fst (mod_abort_block (k_ops K) m)) = Suc (aborts m)"

interpretation meter: abort_meter "metered_kernel K" snd for K
  by unfold_locales
    (auto simp: metered_kernel_def metered_ops_def ctx_all_leaf ctx_leaf_map map_out_def map_step_def split: prod.split)

section \<open>Rollbacks\<close>

definition aborted_at_most :: "('m \<Rightarrow> nat) \<Rightarrow> nat \<Rightarrow> 'm registry \<Rightarrow> bool" where
  "aborted_at_most aborts n registry \<longleftrightarrow> (\<forall>(i, m)\<in>set registry. aborts m \<le> n)"

lemma aborted_at_mostD: "aborted_at_most aborts n registry \<Longrightarrow> map_of registry i = Some m \<Longrightarrow> aborts m \<le> n"
  by (auto simp: aborted_at_most_def dest: map_of_SomeD)

lemma aborted_at_most_insert:
  "aborted_at_most aborts n registry \<Longrightarrow> aborts m \<le> n \<Longrightarrow> aborted_at_most aborts n (bt_insert i m registry)"
  using set_bt_insert [of i m registry] by (auto simp: aborted_at_most_def)

lemma aborted_at_most_remove: "aborted_at_most aborts n registry \<Longrightarrow> aborted_at_most aborts n (bt_remove i registry)"
  by (auto simp: aborted_at_most_def bt_remove_def)

lemma aborted_at_most_mono: "aborted_at_most aborts n registry \<Longrightarrow> n \<le> k \<Longrightarrow> aborted_at_most aborts k registry"
  by (fastforce simp: aborted_at_most_def)

abbreviation replays :: "'m blk \<Rightarrow> nat" where
  "replays c \<equiv> br_replays (snd c)"

text \<open>
  A block between units: no module has been aborted more often than the counter says. A fault may come
  after one more abort.
\<close>

definition counted :: "('m \<Rightarrow> nat) \<Rightarrow> 'm blk \<Rightarrow> bool" where
  "counted aborts c \<longleftrightarrow> replays c \<le> MAX_BLOCK_REPLAYS + 1 \<and> aborted_at_most aborts (replays c) (fst c)"

definition within :: "('m \<Rightarrow> nat) \<Rightarrow> 'm blk \<times> (submit_error + 'a) \<Rightarrow> bool" where
  "within aborts p \<longleftrightarrow>
     (case snd p of
        Inl _ \<Rightarrow> replays (fst p) \<le> MAX_BLOCK_REPLAYS + 1 \<and> aborted_at_most aborts (MAX_BLOCK_REPLAYS + 2) (fst (fst p))
      | Inr _ \<Rightarrow> counted aborts (fst p))"

lemma within_pair [simp]:
  "within aborts (c, Inr x) = counted aborts c"
  "within aborts (c, Inl e) \<longleftrightarrow> replays c \<le> MAX_BLOCK_REPLAYS + 1 \<and> aborted_at_most aborts (MAX_BLOCK_REPLAYS + 2) (fst c)"
  by (simp_all add: within_def)

lemma counted_loose: "counted aborts (registry, b) \<Longrightarrow> aborted_at_most aborts (Suc (Suc MAX_BLOCK_REPLAYS)) registry"
  by (auto simp: counted_def intro: aborted_at_most_mono)

lemma counted_simps [simp]:
  "counted aborts (set_accepted us c) = counted aborts c" "counted aborts (accept_as s r u c) = counted aborts c"
  "counted aborts (g, b\<lparr>br_observer := ob\<rparr>) = counted aborts (g, b)"
  "replays (set_accepted us c) = replays c" "replays (accept_as s r u c) = replays c"
  "fst (set_accepted us c) = fst c"
  by (simp_all add: counted_def set_accepted_def accept_as_def)

lemma within_then:
  "within aborts p \<Longrightarrow> (\<And>c v. counted aborts c \<Longrightarrow> within aborts (k c v)) \<Longrightarrow> within aborts (st_then p k)"
  by (cases p; cases "snd p") auto

context abort_meter
begin

lemma with_module_aborts:
  assumes "\<And>me. ctx_all (\<lambda>out. aborts (out_module out) = aborts me) (code me)"
    and "aborted_at_most aborts n (run_registry r)"
  shows "pred_state (\<lambda>p. aborted_at_most aborts n (run_registry (fst p))) (with_module K env code r)"
proof (cases "map_of (run_registry r) (env_me env)")
  case (Some me)
  then have "aborts me \<le> n" using aborted_at_mostD [OF assms(2)] by blast
  then show ?thesis
    unfolding with_module_def Some Let_def option.case
    by (intro pred_state_bind [OF host_run_leaf [OF assms(1)]])
      (simp add: aborted_at_most_insert aborted_at_most_remove assms(2))
qed (simp add: with_module_def assms(2))

lemma execute_one_aborts:
  assumes "aborted_at_most aborts n (run_registry r)"
  shows "pred_state (\<lambda>p. aborted_at_most aborts n (run_registry (fst p))) (execute_one K clk h t origin cause msg r)"
  unfolding execute_one_def Let_def
  by (rule pred_state_anyway)
    (auto split: sum.split intro!: pred_state_bind [OF with_module_aborts] execute_aborts simp: assms)

lemma acknowledge_one_aborts:
  assumes "aborted_at_most aborts n (run_registry r)"
  shows "pred_state (\<lambda>p. aborted_at_most aborts n (run_registry (fst p))) (acknowledge_one K h t source cause ack r)"
  unfolding acknowledge_one_def Let_def
  by (rule pred_state_bind [OF with_module_aborts]) (auto intro: acknowledge_aborts simp: assms)

lemma observed_dispatch_aborts:
  assumes "aborted_at_most aborts n (run_registry r)"
    and "pred_state (\<lambda>p. aborted_at_most aborts n (run_registry (fst p))) exec"
  shows "pred_state (\<lambda>p. aborted_at_most aborts n (run_registry (fst p))) (observed_dispatch m origin cause inp exec r)"
  unfolding observed_dispatch_def Let_def
  by (rule pred_state_anyway, rename_tac p, case_tac p)
    (auto intro!: pred_state_anyway pred_state_bind [OF assms(2)] simp: assms(1))

lemma drain_aborts:
  "aborted_at_most aborts k (run_registry r) \<Longrightarrow>
   pred_state (\<lambda>p. aborted_at_most aborts k (run_registry (fst p))) (drain_queue K clk h t n queue r)"
proof (induction n queue r rule: drain_induct)
  case (1 n queue r)
  show ?case
  proof (cases queue)
    case (Cons q rest)
    obtain origin cause msg where q: "q = (origin, cause, msg)" by (cases q)
    show ?thesis
    proof (cases "n < MAX_DISPATCHES")
      case True
      have IH: "pred_state (\<lambda>p. aborted_at_most aborts k (run_registry (fst p)))
          (drain_queue K clk h t (Suc n) q' (push_dispatch d es r'))"
        if "aborted_at_most aborts k (run_registry r')" for q' d es r'
        using 1(1) [OF True, rule_format, of "push_dispatch d es r'" q'] that by (simp add: push_dispatch_def)
      show ?thesis
        using True 1(2)
        by (auto simp: Cons q split: sum.split
            intro!: pred_state_bind [OF observed_dispatch_aborts [OF _ execute_one_aborts]] IH)
    qed (use 1(2) in \<open>simp add: Cons q\<close>)
  qed (use 1(2) in simp)
qed

lemma run_ack_aborts:
  assumes "aborted_at_most aborts n (run_registry r)"
  shows "pred_state (\<lambda>p. aborted_at_most aborts n (run_registry (fst p))) (run_ack K h t source cause ack r)"
  unfolding run_ack_def
  by (rule pred_state_bind [OF observed_dispatch_aborts [OF assms acknowledge_one_aborts [OF assms]]])
    (auto split: sum.split simp: push_dispatch_def)

lemma run_steps_aborts:
  "aborted_at_most aborts n (run_registry r) \<Longrightarrow>
   pred_state (\<lambda>p. aborted_at_most aborts n (run_registry (fst p))) (run_steps K clk h t ss r)"
proof (induction ss arbitrary: r)
  case (Cons s ss)
  have step: "pred_state (\<lambda>p. aborted_at_most aborts n (run_registry (fst p))) (run_step K clk h t s r)"
    using Cons.prems
    by (cases s) (simp_all add: run_step_def drain_aborts run_ack_aborts del: drain_queue.simps)
  show ?case
    by (auto split: sum.split intro!: pred_state_bind [OF step] Cons.IH)
qed simp

lemma stage_steps_aborts:
  assumes "stage_steps K clk ss c = (c1, r, res)"
  shows "replays c1 = replays c" and "aborted_at_most aborts n (fst c) \<Longrightarrow> aborted_at_most aborts n (fst c1)"
proof -
  obtain ob where run: "run_state (run_steps K clk (br_height (snd c)) (br_consensus_time (snd c)) ss
        (run_fresh (fst c))) (br_observer (snd c)) = ((r, res), ob)"
    and c1: "c1 = (run_registry r, (snd c)\<lparr>br_observer := ob, br_touched := br_touched (snd c) |\<union>| run_touched r\<rparr>)"
    using assms by (auto simp: stage_steps_def Let_def split: prod.splits)
  show "replays c1 = replays c" by (simp add: c1)
  show "aborted_at_most aborts n (fst c1)" if "aborted_at_most aborts n (fst c)"
    using pred_stateD [OF run_steps_aborts run] that by (simp add: c1 run_fresh_def)
qed

subsection \<open>One abort of the stage\<close>

lemma abort_loop_aborts:
  assumes "distinct ids" and "\<forall>(i, m)\<in>set registry. aborts m \<le> (if i \<in> set ids then n else Suc n)"
  shows "aborted_at_most aborts (Suc n) (fst (abort_loop (k_ops K) registry f ids))"
  using assms
proof (induction ids arbitrary: registry f)
  case Nil
  then show ?case by (auto simp: aborted_at_most_def)
next
  case (Cons i ids)
  show ?case
  proof (cases "map_of registry i")
    case None
    have "\<forall>(j, m)\<in>set registry. aborts m \<le> (if j \<in> set ids then n else Suc n)"
      using Cons.prems(2) by (auto split: if_splits)
    then show ?thesis using Cons None by simp
  next
    case (Some m)
    obtain m' res where a: "mod_abort_block (k_ops K) m = (m', res)" by fastforce
    have "aborts m \<le> n" using Cons.prems(2) map_of_SomeD [OF Some] by auto
    then have m': "aborts m' \<le> Suc n" using abort_aborts [of m] a by simp
    have "\<forall>(j, x)\<in>set (bt_insert i m' registry). aborts x \<le> (if j \<in> set ids then n else Suc n)"
    proof (clarify)
      fix j x
      assume "(j, x) \<in> set (bt_insert i m' registry)"
      then have "(j, x) = (i, m') \<or> (j, x) \<in> set registry" using set_bt_insert [of i m' registry] by auto
      then show "aborts x \<le> (if j \<in> set ids then n else Suc n)"
        using m' Cons.prems by (auto split: if_splits)
    qed
    then show ?thesis using Cons Some a by (cases res) auto
  qed
qed

lemma abort_stage_aborts:
  assumes "aborted_at_most aborts n (fst c)"
  shows "aborted_at_most aborts (Suc n) (fst (fst (abort_stage (k_ops K) c)))"
    and "replays (fst (abort_stage (k_ops K) c)) = replays c"
proof -
  have "aborted_at_most aborts (Suc n)
      (fst (abort_loop (k_ops K) (fst c) None (sorted_list_of_fset (br_touched (snd c)))))"
    using assms by (intro abort_loop_aborts) (auto simp: aborted_at_most_def sorted_list_of_fset.rep_eq)
  then show "aborted_at_most aborts (Suc n) (fst (fst (abort_stage (k_ops K) c)))"
    "replays (fst (abort_stage (k_ops K) c)) = replays c"
    by (auto simp: abort_stage_def abort_all_def split: prod.split option.split)
qed

lemma abort_within:
  assumes "counted aborts c"
  shows "within aborts (st_then (abort_stage (k_ops K) c) (\<lambda>c' _. (c', Inl e)))"
  using abort_stage_aborts [of "replays c" c] assms
  by (cases "abort_stage (k_ops K) c"; cases "snd (abort_stage (k_ops K) c)")
    (auto simp: counted_def intro: aborted_at_most_mono)

lemma check_then:
  assumes "counted aborts c" and "within aborts (k c ())"
  shows "within aborts (st_then (check_witness (k_ops K) c) k)"
proof (cases "ob_divergence (br_observer (snd c))")
  case (Some d)
  then show ?thesis
    using abort_stage_aborts [of "replays c" c] assms(1)
    by (cases "abort_stage (k_ops K) c"; cases "snd (abort_stage (k_ops K) c)")
      (auto simp: check_witness_def counted_def intro: aborted_at_most_mono)
qed (use assms(2) in \<open>simp add: check_witness_def\<close>)

subsection \<open>Isolation\<close>

lemma replay_loop_aborts:
  assumes "aborted_at_most aborts n (fst c)"
  shows "case replay_loop K clk c replayed us of (c', x) \<Rightarrow> replays c' = replays c \<and>
     aborted_at_most aborts (case x of Inl _ \<Rightarrow> Suc n | Inr _ \<Rightarrow> n) (fst c')"
  using assms
proof (induction us arbitrary: c replayed)
  case Nil
  then show ?case by simp
next
  case (Cons u us)
  let ?c0 = "(fst c, (snd c)\<lparr>br_observer := snd (run_state (resume (au_entry u)) (br_observer (snd c)))\<rparr>)"
  obtain c1 r res where st: "stage_steps K clk (au_steps u) ?c0 = (c1, r, res)"
    by (cases "stage_steps K clk (au_steps u) ?c0")
  have c1: "replays c1 = replays c" "aborted_at_most aborts n (fst c1)"
    using stage_steps_aborts [OF st] Cons.prems by auto
  show ?case
  proof (cases "ob_divergence (br_observer (snd c1))")
    case (Some d)
    let ?c = "set_accepted (replayed @ u # us) c1"
    show ?thesis
      using abort_stage_aborts [of n ?c] Some c1 st
      by (cases "abort_stage (k_ops K) ?c"; cases "snd (abort_stage (k_ops K) ?c)") auto
  next
    case None
    show ?thesis
    proof (cases res)
      case (Inl e)
      then show ?thesis using None c1 st aborted_at_most_mono [OF c1(2), of "Suc n"] by simp
    next
      case (Inr v)
      then show ?thesis using None c1 st Cons.IH [OF c1(2)] by simp
    qed
  qed
qed

lemma isolate_then:
  assumes "counted aborts c" and "replays c \<le> MAX_BLOCK_REPLAYS"
    and "\<And>c'. counted aborts c' \<Longrightarrow> within aborts (k c' ())"
  shows "within aborts (st_then (isolate K clk c) k)"
proof -
  obtain c1 x where a: "abort_stage (k_ops K) c = (c1, x)" by fastforce
  then have c1: "aborted_at_most aborts (Suc (replays c)) (fst c1)" "replays c1 = replays c"
    using abort_stage_aborts [of "replays c" c] assms(1) by (auto simp: counted_def)
  obtain c2 y where b: "replay_loop K clk (set_accepted [] c1) [] (br_accepted (snd c1)) = (c2, y)" by fastforce
  then have c2: "replays c2 = replays c"
    "aborted_at_most aborts (case y of Inl _ \<Rightarrow> Suc (Suc (replays c)) | Inr _ \<Rightarrow> Suc (replays c)) (fst c2)"
    using replay_loop_aborts [of "Suc (replays c)" "set_accepted [] c1" clk "[]" "br_accepted (snd c1)"] c1 by auto
  let ?c3 = "(fst c2, (snd c2)\<lparr>br_replays := br_replays (snd c2) + 1\<rparr>)"
  show ?thesis
  proof (cases x)
    case (Inl e)
    have "within aborts (c1, Inl e)" using c1 assms(2) by (auto intro: aborted_at_most_mono)
    then show ?thesis using Inl a by (simp add: isolate_def)
  next
    case (Inr u)
    show ?thesis
    proof (cases y)
      case (Inl e)
      have "within aborts (c2, Inl e)" using c2 Inl assms(2) by (auto intro: aborted_at_most_mono)
      then show ?thesis using Inl \<open>x = Inr u\<close> a b by (simp add: isolate_def replay_accepted_def)
    next
      case (Inr v)
      have "counted aborts ?c3" using c2 Inr assms(2) by (simp add: counted_def)
      then show ?thesis using assms(3) Inr \<open>x = Inr u\<close> a b by (simp add: isolate_def replay_accepted_def)
    qed
  qed
qed

section \<open>Units\<close>

text \<open>A unit starts within the budget, and only a rejected one spends.\<close>

lemma run_unit_then:
  assumes "counted aborts c"
    and "\<And>c1 u. counted aborts c1 \<Longrightarrow> replays c1 \<le> MAX_BLOCK_REPLAYS \<Longrightarrow> within aborts (k c1 (Accepted u))"
    and "\<And>c1 e. counted aborts c1 \<Longrightarrow> within aborts (k c1 (UnitRejected e))"
    and "\<And>c1. counted aborts c1 \<Longrightarrow> within aborts (k c1 Unattempted)"
  shows "within aborts (st_then (run_unit K clk ss c) k)"
proof (cases "budget_exhausted (snd c)")
  case True
  then show ?thesis using assms(1,4) by (simp add: run_unit_def)
next
  case False
  obtain entry ob where o: "run_state begin_unit (br_observer (snd c)) = (entry, ob)" by fastforce
  let ?c0 = "(fst c, (snd c)\<lparr>br_observer := ob\<rparr>)"
  obtain c1 r res where st: "stage_steps K clk ss ?c0 = (c1, r, res)"
    by (cases "stage_steps K clk ss ?c0")
  have c1: "replays c1 \<le> MAX_BLOCK_REPLAYS" "counted aborts c1"
    using stage_steps_aborts(1) [OF st] stage_steps_aborts(2) [OF st, of "replays c"] False assms(1) by (auto simp: budget_exhausted_def counted_def)
  have assoc: "st_then (st_then p f) k = st_then p (\<lambda>c v. st_then (f c v) k)" for p and f :: "'m blk \<Rightarrow> unit \<Rightarrow> _"
    by (cases p; cases "snd p") auto
  have "within aborts (st_then (case res of
      Inr _ \<Rightarrow> (c1, Inr (Accepted \<lparr>au_slot = SlotMember 0, au_resolved = ResolvedMember, au_steps = ss,
         au_events = run_events r, au_dispatches = run_dispatches r, au_entry = entry\<rparr>))
    | Inl reason \<Rightarrow>
        if run_touched r \<noteq> {||} then st_then (isolate K clk c1) (\<lambda>c3 _. (c3, Inr (UnitRejected reason)))
        else (c1, Inr (UnitRejected reason))) k)"
    using c1 assms(2,3) by (cases res) (auto simp: assoc intro!: isolate_then)
  then show ?thesis
    using False c1(2) by (simp add: run_unit_def o st assoc check_then)
qed

lemma extend_unit_within:
  assumes "counted aborts c" and "replays c \<le> MAX_BLOCK_REPLAYS"
  shows "within aborts (extend_unit K clk u ss c)"
proof -
  obtain c1 r res where st: "stage_steps K clk ss c = (c1, r, res)"
    by (cases "stage_steps K clk ss c")
  have "counted aborts c1" "replays c1 \<le> MAX_BLOCK_REPLAYS"
    using stage_steps_aborts(1) [OF st] stage_steps_aborts(2) [OF st, of "replays c"] assms by (auto simp: counted_def)
  then show ?thesis
    unfolding extend_unit_def
    by (simp add: st, intro check_then) (auto split: sum.split intro!: isolate_then)
qed

section \<open>Blocks\<close>

lemma finalize_marker_within:
  "counted aborts c \<Longrightarrow> within aborts (finalize_call K clk i call (OutcomeUnrepresentable a) c)"
  by (subst finalize_call.simps) (auto intro!: run_unit_then)

lemma finalize_call_within: "counted aborts c \<Longrightarrow> within aborts (finalize_call K clk i call outcome c)"
  by (subst finalize_call.simps)
    (auto intro!: run_unit_then finalize_marker_within split: option.split)

lemma run_call_within: "counted aborts c \<Longrightarrow> within aborts (run_call K clk i call verdict c)"
  unfolding run_call_def
  by (auto intro!: run_unit_then within_then [OF extend_unit_within] finalize_call_within
      split: option.split verdict.split list.split sum.split dest: counted_loose)

lemma ack_marker_within:
  "counted aborts c \<Longrightarrow> within aborts (acknowledge_delivery K clk i d DeliveryUnrepresentable c)"
  by (subst acknowledge_delivery.simps) (auto intro!: run_unit_then)

lemma acknowledge_delivery_within: "counted aborts c \<Longrightarrow> within aborts (acknowledge_delivery K clk i d outcome c)"
  by (subst acknowledge_delivery.simps) (auto intro!: run_unit_then ack_marker_within)

lemma run_delivery_within: "counted aborts c \<Longrightarrow> within aborts (run_delivery K clk i d c)"
  unfolding run_delivery_def
  by (auto intro!: run_unit_then within_then [OF extend_unit_within] acknowledge_delivery_within
      split: sum.split)

lemma run_members_within: "counted aborts c \<Longrightarrow> within aborts (run_members K clk adm i ops mems c)"
proof (induction ops arbitrary: i mems c)
  case (Cons op ops)
  then show ?case by (auto intro!: run_unit_then abort_within Cons.IH simp del: split_paired_All)
qed simp

lemma decide_call_within:
  assumes "counted aborts c"
  shows "within aborts (decide_call K clk call c)"
proof -
  obtain a ob where o: "run_state (State_Monad.bind begin_unit (\<lambda>_. call_authority K clk (fst c) call))
      (br_observer (snd c)) = (a, ob)"
    by fastforce
  show ?thesis
    unfolding decide_call_def o prod.case
    using assms by (auto intro!: check_then abort_within split: sum.split)
qed

lemma run_calls_within: "counted aborts c \<Longrightarrow> within aborts (run_calls K clk i calls recs c)"
  by (induction calls arbitrary: i recs c)
    (auto intro!: within_then [OF decide_call_within] within_then [OF run_call_within])

lemma run_deliveries_within: "counted aborts c \<Longrightarrow> within aborts (run_deliveries K clk i ds recs c)"
  by (induction ds arbitrary: i recs c) (auto intro!: within_then [OF run_delivery_within])

lemma run_units_within:
  assumes "aborted_at_most aborts 0 registry"
  shows "within aborts (run_units K clk adm ops prepared (block_start ctx observation registry))"
  unfolding run_units_def
  by (intro within_then run_members_within run_calls_within run_deliveries_within)
    (simp_all add: block_start_def counted_def assms)

end

end
