(* ===== verification/Host_Theorems.thy ===== *)
theory Host_Theorems
  imports Demo_Host Host_Bounds
begin

text \<open>
  The properties of the block engine. They hold for every kernel whose modules keep the staging
  contract (\<open>host_laws\<close>, which the modules of this development satisfy together) and a host between
  blocks, whose modules have nothing staged (\<open>quiescent\<close>).
\<close>

section \<open>The demonstration block\<close>

lemma sorted_fset_singleton [simp]: "sorted_list_of_fset {|x|} = [x]"
  by (simp add: sorted_list_of_fset.rep_eq)

lemma demo_commit:
  "\<exists>reg. commit_boundary (k_ops demo_kernel) written {|''kv''|} None = (reg, Inr ())"
  by (simp add: commit_boundary_def written_def demo_defs native_ops_def kv_ops_def map_step_def
      kv_new_def kv_commit_block_def staged_commit_def mem_lib_def mem_commit_batch_def Let_def
      split: prod.split)

lemma demo_live:
  "\<exists>h' out. apply_block demo_kernel accept_all None Batch ObserveLive default_context
     [demo_write, demo_bad] no_work demo_host = (h', Inr out)"
proof -
  obtain d e where m: "tx_members demo_kernel (0, 0) 0 0 [demo_write, demo_bad] (h_registry demo_host, {||}, 0) =
     ((written, {|''kv''|}, 1), [MemberApplied d, MemberRejected e], [])"
    using demo_members by blast
  obtain reg where "commit_boundary (k_ops demo_kernel) written {|''kv''|} None = (reg, Inr ())"
    using demo_commit by blast
  moreover obtain W where "\<forall>hook only. apply_block demo_kernel hook only Batch ObserveLive default_context
     [demo_write, demo_bad] no_work demo_host = tx_commit demo_kernel hook only default_context
       (tx_members demo_kernel (h_committed demo_host) (bc_height default_context)
         (bc_consensus_time default_context) [demo_write, demo_bad] (h_registry demo_host, {||}, 0)) W demo_host"
    using host_laws.apply_batch_tx [OF demo_laws demo_quiescent] by blast
  ultimately show ?thesis
    using m by (simp add: tx_commit_def default_context_def demo_host_def [symmetric] Let_def)
      (simp add: demo_host_def tx_commit_def)
qed

lemma demo_rejected:
  "\<exists>h' e. apply_block demo_kernel accept_all None Sole ObserveLive default_context
     [demo_bad] no_work demo_host = (h', Inl (Rejected e))"
proof -
  let ?start = "block_start default_context ObserveLive (h_registry demo_host)"
  have "h_registry demo_host = [(''kv'', NativeKv demo_kv)]" by (simp add: demo_host_def)
  from demo_bad_steps [OF this] obtain r e where
    out: "steps_out demo_kernel (0, 0) 0 0 [StepOp (op_origin demo_bad) Direct (op_msg demo_bad)]
      (h_registry demo_host) = (r, Inl e)"
    by blast
  have "at_rest demo_kernel (0, 0) 0 0 (h_registry demo_host) ?start"
    using host_laws.start_at_rest [OF demo_laws, of "(0, 0)" default_context]
    by (simp add: default_context_def)
  then obtain c v where u: "run_unit demo_kernel (0, 0) [StepOp (op_origin demo_bad) Direct (op_msg demo_bad)] ?start = (c, Inr v)"
    "unit_result demo_kernel (0, 0) 0 0 [StepOp (op_origin demo_bad) Direct (op_msg demo_bad)] ?start c v"
    "case v of Accepted u \<Rightarrow> unit_open demo_kernel (0, 0) 0 0 (h_registry demo_host) u c
      | _ \<Rightarrow> at_rest demo_kernel (0, 0) 0 0 (h_registry demo_host) c"
    using host_laws.run_unit_good [OF demo_laws demo_quiescent] unfolding runs_def by blast
  then have v: "v = UnitRejected e"
    using out
    by (cases v) (auto simp: unit_result_def block_start_def budget_exhausted_def)
  with u(3) have "blk_frame native_base (h_registry demo_host) c"
    using host_laws.live_inv_frame [OF demo_laws] by (auto simp: at_rest_def)
  from host_laws.abort_stage_restores [OF demo_laws demo_quiescent this] u(1) v show ?thesis
    by (simp add: apply_block_def run_units_def demo_host_def)
qed

section \<open>Rollback, faults and replay\<close>

text \<open>
  C2: a block that does not commit leaves no trace. On a host between blocks, in every mode (live,
  replay of a witness, replay with substituted modules) and for every members, calls, deliveries and
  injection: when the block is rejected, or faults while it is prepared or checked against its
  witness, the host is exactly the host before the block. Not covered are the fault of the abort phase
  that a re-run raises when an accepted unit fails the second time, a fault of the commit, and a panic.
\<close>

theorem block_rollback_exact:
  assumes "host_laws K base" and "quiescent base (h_registry h)"
    and "apply_block K hook only adm observation ctx ops prepared h = (h', Inl e)"
    and "clean_fault e"
  shows "h' = h"
  using host_laws.apply_block_clean [OF assms] .

theorem block_rollback_exact_witness:
  "\<exists>e. apply_block demo_kernel accept_all None Sole ObserveLive default_context
     [demo_bad] no_work demo_host = (demo_host, Inl (Rejected e))"
proof -
  obtain h' e where r: "apply_block demo_kernel accept_all None Sole ObserveLive default_context
     [demo_bad] no_work demo_host = (h', Inl (Rejected e))"
    using demo_rejected by blast
  from block_rollback_exact [OF demo_laws demo_quiescent this] r show ?thesis by auto
qed

text \<open>
  C5: a live block has no other faults than these. It never panics: every slot of the outcome is
  filled, by a unit of its own kind, and an accepted call has its root dispatch. It is rejected as a
  whole only for its sole member or its injection, it faults before the commit only on the authority
  read and the journal hook, with the host unchanged, and otherwise in the commit of a module, with
  the clock unchanged.
\<close>

theorem live_block_faults:
  assumes "host_laws K base" and "quiescent base (h_registry h)"
    and "apply_block K hook only adm ObserveLive ctx ops prepared h = (h', Inl e)"
  shows "(\<exists>r. e = Rejected r \<and> h' = h \<and> (adm = Sole \<or> pw_advance prepared \<noteq> None)) \<or>
         (\<exists>r. e = authority_fault r \<and> h' = h) \<or>
         (\<exists>W r. hook (bc_height ctx) W = Inl r \<and> h' = h \<and>
            e = Fatal \<lparr>fe_module = DISPATCH_MODULE_ID, fe_phase = PhaseWitness, fe_source = ModuleError r\<rparr>) \<or>
         (\<exists>f. e = Fatal f \<and> fe_phase f = PhaseCommit \<and> h_committed h' = h_committed h)"
  using host_laws.apply_live [OF assms(1,2), of adm ctx ops prepared]
proof (elim disjE exE conjE)
  fix e' assume "unit_fault adm e'"
    "\<forall>hook only. apply_block K hook only adm ObserveLive ctx ops prepared h = (h, Inl e')"
  with assms(3) show ?thesis by (auto simp: unit_fault_def)
next
  fix c filled W
  assume "\<forall>hook only observation. observation \<in> {ObserveLive, Journaled W {||}} \<longrightarrow>
       apply_block K hook only adm observation ctx ops prepared h =
       block_end K hook only ctx prepared filled (br_accepted (snd c))
         (obs_result (injected K (h_committed h) prepared c)) W h"
  with assms(3) have fin: "block_end K hook only ctx prepared filled (br_accepted (snd c))
      (obs_result (injected K (h_committed h) prepared c)) W h = (h', Inl e)"
    by simp
  obtain r drained where out: "obs_result (injected K (h_committed h) prepared c) = (r, drained)"
    by fastforce
  have adv: "pw_advance prepared \<noteq> None" if "drained = Inl x" for x
    using that out by (auto simp: injected_def injections_def obs_result_def split: option.splits)
  show ?thesis
  proof (cases drained)
    case (Inl x)
    with fin adv out show ?thesis by (auto simp: block_end_def)
  next
    case (Inr x)
    obtain reg cres where cb: "commit_boundary (k_ops K) (run_registry r) (run_touched r) only = (reg, cres)"
      by fastforce
    show ?thesis
    proof (cases "hook (bc_height ctx) W")
      case hook: (Inl reason)
      with fin out Inr show ?thesis by (auto simp: block_end_def)
    next
      case hook: (Inr y)
      obtain f where "cres = Inl f" "e = f" "h_committed h' = h_committed h"
        using fin out Inr hook cb
        by (cases cres) (auto simp: block_end_def Let_def split: prod.splits)
      with host_laws.commit_fault_phase [OF assms(1)] cb show ?thesis
        unfolding commit_boundary_def by blast
    qed
  qed
qed

theorem live_block_faults_witness:
  "\<exists>r. apply_block demo_kernel accept_all None Sole ObserveLive default_context
     [demo_bad] no_work demo_host = (demo_host, Inl (Rejected r))"
proof -
  obtain h' e where r: "apply_block demo_kernel accept_all None Sole ObserveLive default_context
     [demo_bad] no_work demo_host = (h', Inl (Rejected e))"
    using demo_rejected by blast
  from live_block_faults [OF demo_laws demo_quiescent this] r show ?thesis
    by (auto simp: authority_fault_def)
qed

text \<open>
  C3: the witness of a block replays it. When a live block commits, the same block run against the
  witness it recorded, with every module executed, commits the same host and has the same outcome,
  roots, events and witness included; only the journal hook of the replaying node has to accept.
\<close>

theorem replay_reproduces_block:
  assumes "host_laws K base" and "quiescent base (h_registry h)"
    and "apply_block K hook only adm ObserveLive ctx ops prepared h = (h', Inr out)"
    and "hook' (bc_height ctx) (bo_witness out) = Inr ()"
  shows "apply_block K hook' only adm (Journaled (bo_witness out) {||}) ctx ops prepared h = (h', Inr out)"
  using host_laws.apply_live [OF assms(1,2), of adm ctx ops prepared]
proof (elim disjE exE conjE)
  fix e' assume "\<forall>hook only. apply_block K hook only adm ObserveLive ctx ops prepared h = (h, Inl e')"
  with assms(3) show ?thesis by simp
next
  fix c filled W
  assume ends: "\<forall>hook only observation. observation \<in> {ObserveLive, Journaled W {||}} \<longrightarrow>
       apply_block K hook only adm observation ctx ops prepared h =
       block_end K hook only ctx prepared filled (br_accepted (snd c))
         (obs_result (injected K (h_committed h) prepared c)) W h"
  with assms(3) have fin: "block_end K hook only ctx prepared filled (br_accepted (snd c))
      (obs_result (injected K (h_committed h) prepared c)) W h = (h', Inr out)"
    by simp
  then have W: "bo_witness out = W"
    by (auto simp: block_end_def Let_def split: prod.splits sum.splits)
  from fin have "block_end K hook' only ctx prepared filled (br_accepted (snd c))
      (obs_result (injected K (h_committed h) prepared c)) W h = (h', Inr out)"
    using assms(4) by (auto simp: block_end_def W split: prod.splits sum.splits)
  with ends W show ?thesis by simp
qed

theorem replay_reproduces_block_witness:
  "\<exists>h' out. apply_block demo_kernel accept_all None Batch ObserveLive default_context
       [demo_write, demo_bad] no_work demo_host = (h', Inr out) \<and>
     apply_block demo_kernel accept_all None Batch (Journaled (bo_witness out) {||}) default_context
       [demo_write, demo_bad] no_work demo_host = (h', Inr out)"
proof -
  obtain h' out where live: "apply_block demo_kernel accept_all None Batch ObserveLive default_context
     [demo_write, demo_bad] no_work demo_host = (h', Inr out)"
    using demo_live by blast
  from replay_reproduces_block [OF demo_laws demo_quiescent this, of accept_all] live
  show ?thesis by auto
qed

text \<open>
  C1: a batch is a sequence of transactions. The engine cannot undo one op: it aborts every touched
  module and re-runs the ops it had accepted. A live batch without prepared work is nevertheless, on
  every branch, the reference semantics in which each op runs on the registry the ops before it left
  and a failing op leaves nothing but its reason and one unit of the replay budget: the same modules
  commit from the same states, with the same outcomes, events and root-hash.
\<close>

theorem batch_is_transactional:
  assumes "host_laws K base" and "quiescent base (h_registry h)"
  shows "\<exists>W. \<forall>hook only. apply_block K hook only Batch ObserveLive ctx ops no_work h =
     tx_commit K hook only ctx
       (tx_members K (h_committed h) (bc_height ctx) (bc_consensus_time ctx) ops (h_registry h, {||}, 0)) W h"
  using host_laws.apply_batch_tx [OF assms] .

theorem batch_is_transactional_witness:
  "\<exists>out d e. snd (apply_block demo_kernel accept_all None Batch ObserveLive default_context
     [demo_write, demo_bad] no_work demo_host) = Inr out \<and> bo_members out = [MemberApplied d, MemberRejected e]"
proof -
  obtain d e where m: "tx_members demo_kernel (0, 0) 0 0 [demo_write, demo_bad] (h_registry demo_host, {||}, 0) =
     ((written, {|''kv''|}, 1), [MemberApplied d, MemberRejected e], [])"
    using demo_members by blast
  obtain reg where c: "commit_boundary (k_ops demo_kernel) written {|''kv''|} None = (reg, Inr ())"
    using demo_commit by blast
  obtain W where "\<forall>hook only. apply_block demo_kernel hook only Batch ObserveLive default_context
     [demo_write, demo_bad] no_work demo_host = tx_commit demo_kernel hook only default_context
       (tx_members demo_kernel (h_committed demo_host) (bc_height default_context)
         (bc_consensus_time default_context) [demo_write, demo_bad] (h_registry demo_host, {||}, 0)) W demo_host"
    using batch_is_transactional [OF demo_laws demo_quiescent] by blast
  moreover have "h_committed demo_host = (0, 0)" by (simp add: demo_host_def)
  ultimately show ?thesis
    using m c by (simp add: tx_commit_def default_context_def Let_def)
qed

text \<open>
  C4: what a live block commits. When a live block commits, with whatever calls, deliveries and
  injection, there is a list of accepted units whose steps, run one unit after the other from the
  registry before the block, all succeed, with exactly the events and dispatches the units carry and
  the traces the witness holds for them; the injection runs on top; and the commit boundary starts
  from that registry and the modules reached. No rejected unit has any part in it.
\<close>

theorem live_block_commits_units:
  assumes "host_laws K base" and "quiescent base (h_registry h)"
    and "apply_block K hook only adm ObserveLive ctx ops prepared h = (h', Inr out)"
  shows "\<exists>us r. units_ok K (h_committed h) (bc_height ctx) (bc_consensus_time ctx) (bo_witness out) us
            (h_registry h) \<and>
          obs_result (drain_queue K (h_committed h) (bc_height ctx) (bc_consensus_time ctx) 0 (injections prepared)
            \<lparr>run_registry = after_units K (h_committed h) (bc_height ctx) (bc_consensus_time ctx) us (h_registry h),
             run_touched = units_reach K (h_committed h) (bc_height ctx) (bc_consensus_time ctx) us (h_registry h),
             run_events = [], run_dispatches = []\<rparr>) = (r, Inr ()) \<and>
          commit_boundary (k_ops K) (run_registry r) (run_touched r) only = (h_registry h', Inr ()) \<and>
          h_committed h' = (bc_height ctx, bc_consensus_time ctx) \<and>
          bo_root_hash out = root_hash K h' \<and>
          bo_events out = concat (map au_events us) @ run_events r \<and>
          bo_system_dispatches out = run_dispatches r"
  using host_laws.apply_live [OF assms(1,2), of adm ctx ops prepared]
proof (elim disjE exE conjE)
  fix e' assume "\<forall>hook only. apply_block K hook only adm ObserveLive ctx ops prepared h = (h, Inl e')"
  with assms(3) show ?thesis by simp
next
  fix c filled W
  assume ends: "\<forall>hook only observation. observation \<in> {ObserveLive, Journaled W {||}} \<longrightarrow>
       apply_block K hook only adm observation ctx ops prepared h =
       block_end K hook only ctx prepared filled (br_accepted (snd c))
         (obs_result (injected K (h_committed h) prepared c)) W h"
    and rest: "at_rest K (h_committed h) (bc_height ctx) (bc_consensus_time ctx) (h_registry h) c"
    and W: "W = ob_units (blk_ob c) @ [obs_trace (injected K (h_committed h) prepared c)]"
  let ?us = "br_accepted (snd c)"
  obtain r drained where out: "obs_result (injected K (h_committed h) prepared c) = (r, drained)"
    by fastforce
  from ends assms(3) have fin: "block_end K hook only ctx prepared filled ?us (r, drained) W h = (h', Inr out)"
    by (simp add: out)
  then have d: "drained = Inr ()"
    by (cases drained) (auto simp: block_end_def)
  obtain ms cs ds where filled: "filled = (ms, cs, ds)" by (cases filled)
  obtain reg cres where cb: "commit_boundary (k_ops K) (run_registry r) (run_touched r) only = (reg, cres)"
    by fastforce
  from fin have "hook (bc_height ctx) W = Inr ()" "cres = Inr ()"
    by (cases "hook (bc_height ctx) W"; cases cres; simp add: block_end_def d cb)+
  with fin have h': "h_registry h' = reg" "h_committed h' = (bc_height ctx, bc_consensus_time ctx)"
    "bo_root_hash out = root_hash K h'" "bo_events out = concat (map au_events ?us) @ run_events r"
    "bo_system_dispatches out = run_dispatches r" "bo_witness out = W"
    by (auto simp: block_end_def d cb filled Let_def)
  have "units_ok K (h_committed h) (bc_height ctx) (bc_consensus_time ctx) W ?us (h_registry h)"
    unfolding W
    by (rule host_laws.units_ok_snoc [OF assms(1)]) (use rest in \<open>simp add: at_rest_def live_inv_def\<close>)
  with rest out d h' cb \<open>cres = Inr ()\<close> show ?thesis
    by (intro exI [of _ ?us] exI [of _ r]) (simp add: injected_def at_rest_def live_inv_def)
qed

theorem live_block_commits_units_witness:
  "\<exists>h' us (r :: mem_store native run) out. apply_block demo_kernel accept_all None Batch ObserveLive default_context
     [demo_write, demo_bad] no_work demo_host = (h', Inr out) \<and>
   units_ok demo_kernel (0, 0) 0 0 (bo_witness out) us (h_registry demo_host) \<and>
   commit_boundary (k_ops demo_kernel) (run_registry r) (run_touched r) None = (h_registry h', Inr ()) \<and>
   bo_root_hash out = root_hash demo_kernel h'"
proof -
  obtain h' out where live: "apply_block demo_kernel accept_all None Batch ObserveLive default_context
     [demo_write, demo_bad] no_work demo_host = (h', Inr out)"
    using demo_live by blast
  have "h_committed demo_host = (0, 0)" "bc_height default_context = 0" "bc_consensus_time default_context = 0"
    by (simp_all add: demo_host_def default_context_def)
  with live_block_commits_units [OF demo_laws demo_quiescent live] live show ?thesis by auto
qed

text \<open>
  C11: the commit boundary decides module by module. When it succeeds, a module the block did not
  reach is as it was, a reached one is what its own commit made of it, and with a commit set
  (recovery) a reached module outside the set is exactly its committed state again; every commit that
  was asked for succeeded, and no module appears or disappears.
\<close>

theorem commit_boundary_exact:
  assumes "host_laws K base"
    and "commit_boundary (k_ops K) registry touched only = (registry', Inr ())"
  shows "(bt_inv registry \<longrightarrow> bt_inv registry') \<and>
    (\<forall>i. map_of registry' i =
         map_option (boundary_entry (k_ops K) base only (fset touched) i) (map_of registry i)) \<and>
    (\<forall>i m. i |\<in>| touched \<longrightarrow> commits only i \<longrightarrow> map_of registry i = Some m \<longrightarrow>
       snd (mod_commit_block (k_ops K) m) = Inr ())"
  using host_laws.commit_boundary_entries [OF assms] .

theorem commit_boundary_exact_witness:
  "\<exists>reg. commit_boundary (k_ops demo_kernel) written {|''kv''|} (Some {||}) = (reg, Inr ()) \<and>
     map_of reg ''kv'' = Some (NativeKv demo_kv)"
proof -
  obtain reg where c: "commit_boundary (k_ops demo_kernel) written {|''kv''|} (Some {||}) = (reg, Inr ())"
    by (simp add: commit_boundary_def written_def demo_defs native_ops_def kv_ops_def map_step_def
        kv_abort_block_def)
  have kv: "native_base (NativeKv (demo_kv\<lparr>kv_staged := stage (kv_staged demo_kv) [1] [2]\<rparr>)) = NativeKv demo_kv"
    by (simp add: kv_base_def demo_kv_def kv_new_def staged_abort_def stage_def staged_new_def)
  from commit_boundary_exact [OF demo_laws c]
  have "map_of reg ''kv'' = map_option (boundary_entry (k_ops demo_kernel) native_base (Some {||})
      {''kv''} ''kv'') (map_of written ''kv'')"
    by simp
  with c kv show ?thesis by (simp add: written_def boundary_entry_def commits_def)
qed

section \<open>Bounds\<close>

text \<open>
  C13: a block rolls back a bounded number of times. Put a meter on the \<^verbatim>\<open>abort_block\<close> of every module.
  However the members, calls and deliveries of a block fail, in every mode, the engine's counter ends
  at 9 or below, that is at \<^verbatim>\<open>MAX_BLOCK_REPLAYS\<close> + 1; a block that gets through its units has aborted no
  module more often than the counter says, and one that faults has aborted none more than ten times.
\<close>

theorem block_replays_bounded:
  "case run_units (metered_kernel K) clk adm ops prepared (block_start ctx observation (metered registry)) of
     (c, r) \<Rightarrow>
       br_replays (snd c) \<le> 9 \<and>
       list_all (\<lambda>(i, m, aborts). aborts \<le> (case r of Inl _ \<Rightarrow> 10 | Inr _ \<Rightarrow> br_replays (snd c))) (fst c)"
proof -
  have "aborted_at_most snd 0 (metered registry)" by (auto simp: aborted_at_most_def metered_def)
  from meter.run_units_within [OF this, of K clk adm ops prepared ctx observation] show ?thesis
    by (simp add: within_def counted_def aborted_at_most_def list_all_iff split_def MAX_BLOCK_REPLAYS_def split: sum.splits)
qed

text \<open>
  C14: a drain is bounded. Whatever the modules emit, under every observer, one drain makes at most
  1024 dispatches; and one that succeeds has run every op it was given.
\<close>

theorem drain_bounded:
  assumes "run_state (drain_queue K clk h t 0 queue (run_fresh registry)) ob = ((r, res), ob')"
  shows "length (run_dispatches r) \<le> 1024 \<and>
         (res = Inr () \<longrightarrow> length queue \<le> length (run_dispatches r))"
  using pred_stateD [OF drain_count assms] by (auto simp: run_fresh_def MAX_DISPATCHES_def)

theorem drain_bounded_witness:
  "\<exists>r ob. run_state (drain_queue demo_kernel (0, 0) 0 0 0
       [(op_origin demo_write, Direct, op_msg demo_write)] (run_fresh (h_registry demo_host))) recorder =
       ((r, Inr ()), ob) \<and>
     1 \<le> length (run_dispatches r) \<and> length (run_dispatches r) \<le> 1024"
proof -
  let ?m = "drain_queue demo_kernel (0, 0) 0 0 0
       [(op_origin demo_write, Direct, op_msg demo_write)] (run_fresh (h_registry demo_host))"
  obtain p ob where p: "run_state ?m recorder = (p, ob)" by fastforce
  have "snd (fst (run_state ?m recorder)) = Inr ()"
    by (simp add: run_defs demo_defs demo_write_def kv_fmts_back)
  with p obtain r where "run_state ?m recorder = ((r, Inr ()), ob)" by (cases p) auto
  with drain_bounded [OF this] show ?thesis by auto
qed

end
