(* ===== verification/Host_Gate.thy ===== *)
theory Host_Gate
  imports Demo_Host
begin

text \<open>
  The acl gate of the host over the modules it asks: what \<^verbatim>\<open>require_submit_standing\<close> decides when the
  acl and the valset modules of this development answer it; and the authority under which a queued
  program call runs.
\<close>

section \<open>Results of observed code\<close>

lemma obs_result_bind:
  assumes "transparent m" and "\<And>x. transparent (f x)"
  shows "obs_result (State_Monad.bind m f) = obs_result (f (obs_result m))"
  using emits_result(1) [OF emits_bind [OF transparent_emits [OF assms(1)] transparent_emits [OF assms(2)]]] .

lemmas transparent_parts = transparent_return transparent_observed_query transparent_standing
  transparent_with_module transparent_gate

declare transparent_parts [simp]

lemma obs_result_return [simp]: "obs_result (State_Monad.return x) = x"
  using emits_result(1) [OF emits_return] .

lemma obs_result_query [simp]:
  "obs_result (observed_query ops clk registry m req) = host_query ops clk registry m req"
  unfolding observed_query_def using emits_result(1) [OF emits_observed] .

lemma obs_result_tier:
  "obs_result (valset_tier_holds K clk registry submitter with_residents) =
     (submitter \<in> set (tier_keys (k_valset K) (host_query (k_ops K) clk registry VALSET_MODULE_ID
        (wire_encode (vw_query (k_valset K)) QValidators))) \<or>
      with_residents \<and>
      submitter \<in> set (tier_keys (k_valset K) (host_query (k_ops K) clk registry VALSET_MODULE_ID
        (wire_encode (vw_query (k_valset K)) QResidents))))"
  unfolding valset_tier_holds_def
  by (subst obs_result_bind) (auto simp: obs_result_bind)

section \<open>The answers of the native modules\<close>

text \<open>The host speaks the formats of the modules, and the formats of queries and replies round-trip.\<close>

definition speaks :: "'s native kernel \<Rightarrow> 's native_env \<Rightarrow> bool" where
  "speaks K E \<longleftrightarrow>
     k_ops K = native_ops E \<and> k_acl K = ne_acl E \<and> k_valset K = ne_valset E \<and>
     round_trips_on UNIV (aw_query (ne_acl E)) \<and> round_trips_on UNIV (aw_reply (ne_acl E)) \<and>
     round_trips_on UNIV (vw_query (ne_valset E)) \<and> round_trips_on UNIV (vw_reply (ne_valset E))"

lemma query_acl:
  assumes "speaks K E" and "map_of registry ACL_MODULE_ID = Some (NativeAcl a)"
    and "policy_for (ne_lib E) (ne_acl E) a target = Inr policy"
  shows "gate_policy (k_acl K) (host_query (k_ops K) clk registry ACL_MODULE_ID
           (wire_encode (aw_query (k_acl K)) (AclPolicyFor target))) = policy"
  using assms
  by (simp add: speaks_def host_query_def query_as_def native_ops_def acl_ops_def acl_query_def
      wire_decode_def wire_encode_def round_trips_on_def gate_policy_def Let_def)

lemma query_tiers:
  assumes "speaks K E" and "map_of registry VALSET_MODULE_ID = Some (NativeValset v)"
  shows "vs_validators (ne_lib E) (ne_valset E) v = Inr vs \<Longrightarrow>
           tier_keys (k_valset K) (host_query (k_ops K) clk registry VALSET_MODULE_ID
             (wire_encode (vw_query (k_valset K)) QValidators)) = vs"
    and "vs_residents (ne_lib E) (ne_valset E) v = Inr rs \<Longrightarrow>
           tier_keys (k_valset K) (host_query (k_ops K) clk registry VALSET_MODULE_ID
             (wire_encode (vw_query (k_valset K)) QResidents)) = rs"
  using assms
  by (simp_all add: speaks_def host_query_def query_as_def native_ops_def valset_ops_def valset_query_def
      wire_decode_def wire_encode_def round_trips_on_def tier_keys_def Let_def)

section \<open>Properties\<close>

text \<open>Who holds a standing, given the validators and the residents.\<close>

fun tier_standing :: "bytes list \<Rightarrow> bytes list \<Rightarrow> standing \<Rightarrow> origin \<Rightarrow> bool" where
  "tier_standing vs rs Validator (External s) = (s \<in> set vs)"
| "tier_standing vs rs Node (External s) = (s \<in> set vs \<union> set rs)"
| "tier_standing vs rs Validator (Program a) = False"
| "tier_standing vs rs Node (Program a) = False"
| "tier_standing vs rs required origin = True"

lemma standing_holds_tiers:
  assumes "speaks K E" and "map_of registry VALSET_MODULE_ID = Some (NativeValset v)"
    and "vs_validators (ne_lib E) (ne_valset E) v = Inr vs"
    and "vs_residents (ne_lib E) (ne_valset E) v = Inr rs" and "required \<noteq> User"
  shows "obs_result (standing_holds K clk registry required origin) = tier_standing vs rs required origin"
  using query_tiers(1) [OF assms(1-3)] query_tiers(2) [OF assms(1,2,4)] assms(5)
  by (cases required; cases origin) (auto simp: standing_holds_def obs_result_tier)

text \<open>
  C6: the gate enforces the policy the acl module holds with the tiers the valset module holds. For a
  target whose policy asks for a tier, a submitted op runs only if its submitter is in that tier (the
  validators, or the validators and residents); a program never is. A refused op leaves the registry,
  the touched set and the outputs as they were, with the refusal as its result. Policies asking for a
  user account are outside: the identity module answers them.
\<close>

theorem gate_enforces_tiers:
  assumes "speaks K E"
    and "map_of (run_registry r) ACL_MODULE_ID = Some (NativeAcl a)"
    and "map_of (run_registry r) VALSET_MODULE_ID = Some (NativeValset v)"
    and "policy_for (ne_lib E) (ne_acl E) a (msg_target msg) = Inr (Some required)" and "required \<noteq> User"
    and "vs_validators (ne_lib E) (ne_valset E) v = Inr vs"
    and "vs_residents (ne_lib E) (ne_valset E) v = Inr rs"
    and "origin \<in> range External \<union> range Program"
  shows "if tier_standing vs rs required origin
         then obs_result (execute_one K clk h t origin cause msg r) =
              (let env = \<lparr>env_height = h, env_consensus_time = t, env_origin = origin,
                          env_me = msg_target msg, env_cause = cause\<rparr>;
                   res = obs_result (with_module K env (\<lambda>me. mod_execute (k_ops K) me env msg) r)
               in (fst res, and_then (snd res) op_effects))
         else obs_result (execute_one K clk h t origin cause msg r) =
              (r, Inl (standing_refusal (msg_target msg) required))"
proof -
  have gate: "obs_result (require_submit_standing K clk (run_registry r) origin (msg_target msg)) =
      (if tier_standing vs rs required origin then Inr ()
       else Inl (standing_refusal (msg_target msg) required))"
    unfolding require_submit_standing_def
    using query_acl [OF assms(1,2,4), of clk] standing_holds_tiers [OF assms(1,3,6,7,5), of clk origin]
    by (subst obs_result_bind) (auto simp: obs_result_bind transparent_standing)
  have "execute_one K clk h t origin cause msg r = State_Monad.bind
      (require_submit_standing K clk (run_registry r) origin (msg_target msg))
      (\<lambda>gate. case gate of Inl e \<Rightarrow> State_Monad.return (r, Inl e)
        | Inr _ \<Rightarrow> (let env = \<lparr>env_height = h, env_consensus_time = t, env_origin = origin,
                          env_me = msg_target msg, env_cause = cause\<rparr>
                    in State_Monad.bind (with_module K env (\<lambda>me. mod_execute (k_ops K) me env msg) r)
                         (\<lambda>res. State_Monad.return (fst res, and_then (snd res) op_effects))))"
    using assms(8) by (auto simp: execute_one_def)
  then have "obs_result (execute_one K clk h t origin cause msg r) = obs_result
      (case obs_result (require_submit_standing K clk (run_registry r) origin (msg_target msg)) of
         Inl e \<Rightarrow> State_Monad.return (r, Inl e)
       | Inr _ \<Rightarrow> (let env = \<lparr>env_height = h, env_consensus_time = t, env_origin = origin,
                         env_me = msg_target msg, env_cause = cause\<rparr>
                   in State_Monad.bind (with_module K env (\<lambda>me. mod_execute (k_ops K) me env msg) r)
                        (\<lambda>res. State_Monad.return (fst res, and_then (snd res) op_effects))))"
    by (simp only:) (rule obs_result_bind, auto simp: Let_def split: sum.split)
  then show ?thesis
    by (simp add: gate obs_result_bind Let_def)
qed

definition demo_acl :: "mem_store acl" where
  "demo_acl = fst (handle_set_policy (mem_lib id) acl_fmts (acl_new ''acl'' mem_new ''governance'')
     ''kv'' (Some Validator))"

definition demo_gated :: "mem_store native run" where
  "demo_gated = run_fresh
     [(''acl'', NativeAcl demo_acl), (''kv'', NativeKv demo_kv), (''valset'', NativeValset demo_valset)]"

lemma demo_policy: "policy_for (mem_lib id) acl_fmts demo_acl ''kv'' = Inr (Some Validator)"
  by code_simp

lemma demo_speaks: "speaks demo_kernel demo_env"
proof -
  have "fmt_ok fmt_acl_query"
    unfolding fmt_acl_query_def by (intro fmt_oks) (simp split: acl_query_msg.split)
  moreover have "fmt_ok fmt_acl_reply"
    unfolding fmt_acl_reply_def
    by (intro fmt_oks fmt_table_ok)
      (simp_all add: standing_code_def standing_of_code_def split: standing.split acl_reply.split)
  ultimately show ?thesis
    by (simp add: speaks_def demo_kernel_def demo_env_def acl_fmts_def valset_fmts_def
        serde_of_round_trips fmt_valset_oks)
qed

theorem gate_enforces_tiers_witness:
  "obs_result (execute_one demo_kernel (0, 0) 0 0 (External [7]) Direct (op_msg demo_write) demo_gated) =
     (demo_gated, Inl (standing_refusal ''kv'' Validator))"
proof -
  have target: "msg_target (op_msg demo_write) = ''kv''" by (simp add: demo_write_def bare_op_def)
  have "length demo_key \<noteq> length [7 :: byte]" by (simp add: demo_key_def)
  then have key: "[7] \<noteq> demo_key" by metis
  have "vs_ok mem_ok demo_valset"
    "tiers_at valset_fmts (vs_visible mem_view (mem_lib id) demo_valset) [demo_key] []"
    using demo_life by (auto simp: vs_life_def)
  note tiers = merkle_laws.vs_tiers_eq [OF mem.merkle_laws_axioms [of id] this(1) valset_fmts_borsh this(2)]
  have "map_of (run_registry demo_gated) ACL_MODULE_ID = Some (NativeAcl demo_acl)"
    "map_of (run_registry demo_gated) VALSET_MODULE_ID = Some (NativeValset demo_valset)"
    by (simp_all add: demo_gated_def run_fresh_def ACL_MODULE_ID_def DEFAULT_ACL_ID_def VALSET_MODULE_ID_def)
  from gate_enforces_tiers [OF demo_speaks this, where msg = "op_msg demo_write" and required = Validator
      and origin = "External [7]" and clk = "(0, 0)" and h = 0 and t = 0 and cause = Direct
      and vs = "[demo_key]" and rs = "[]"] tiers
  show ?thesis
    by (simp add: demo_env_def target demo_policy key)
qed

text \<open>
  C12: the authority of a queued call. A call is admitted exactly when the identity module answers its
  account read with an active program whose executor is the module that requested the call and whose
  generation is the one the call was queued under; every other answer, account, executor or
  generation refuses it or stops the block.
\<close>

theorem call_admitted_iff:
  "obs_result (call_authority K clk registry call) = Inr Admitted \<longleftrightarrow>
   (\<exists>b v controller.
      host_query (k_ops K) clk registry IDENTITY_MODULE_ID
        (wire_encode (iw_query (k_identity K)) (IdGet (pp_account call))) = Inr b \<and>
      wire_decode (iw_reply (k_identity K)) b = Inr (IdAccount (Some v)) \<and>
      av_control v = ProgramControl controller (ci_requester (pp_id call)) (pp_generation call) Active)"
proof -
  have "obs_result (call_authority K clk registry call) =
      authority_of_answer (k_identity K) call (host_query (k_ops K) clk registry IDENTITY_MODULE_ID
        (wire_encode (iw_query (k_identity K)) (IdGet (pp_account call))))"
    unfolding call_authority_def by (subst obs_result_bind) simp_all
  then show ?thesis
    by (auto simp: authority_of_answer_def account_verdict_def
        split: sum.splits error.splits identity_reply.splits option.splits control.splits
          program_standing.splits if_splits)
qed

end
