(* ===== verification/Host_Boundary.thy ===== *)
theory Host_Boundary
  imports Host_Block
begin

text \<open>
  The host between blocks (\<^verbatim>\<open>crates/kernel/host/src/lib.rs\<close>, \<^verbatim>\<open>impl Host\<close> outside the block
  engine): construction, the read of the modules registry with its memo, the preparation of a
  block's internal work, the realization of code swaps and admissions, and the accessors of roots and
  code hashes.

  The code source and the module factory are arguments; a source is its \<^verbatim>\<open>fetch\<close>. Logging is left
  out.
\<close>

section \<open>Construction\<close>

definition host_new :: "'m host" where
  "host_new =
     \<lparr>h_registry = [], h_module_factory = None, h_foreign_admissions = {||}, h_status_cache = None,
      h_committed = (0, 0)\<rparr>"

definition set_module_factory ::
  "'m host \<Rightarrow> (module_id \<Rightarrow> bytes \<Rightarrow> error + 'm admitted) \<Rightarrow> 'm host" where
  "set_module_factory h factory = h\<lparr>h_module_factory := Some factory\<rparr>"

definition restore_committed :: "'m host \<Rightarrow> u64 \<Rightarrow> u64 \<Rightarrow> 'm host" where
  "restore_committed h height consensus_time = h\<lparr>h_committed := (height, consensus_time)\<rparr>"

definition register :: "'m module_ops \<Rightarrow> 'm host \<Rightarrow> 'm \<Rightarrow> 'm host" where
  "register ops h m = h\<lparr>h_registry := bt_insert (mod_id ops m) m (h_registry h)\<rparr>"

fun genesis_loop :: "'m module_ops \<Rightarrow> 'm host \<Rightarrow> 'm list \<Rightarrow> error + 'm host" where
  "genesis_loop ops host [] = Inr host"
| "genesis_loop ops host (m # ms) =
     (if map_of (h_registry host) (mod_id ops m) \<noteq> None
      then Inl (ModuleError (''duplicate module id: '' @ mod_id ops m))
      else genesis_loop ops
             (host\<lparr>h_registry := bt_insert (mod_id ops m) m (h_registry host)\<rparr>) ms)"

definition host_genesis :: "'m module_ops \<Rightarrow> 'm list \<Rightarrow> error + 'm host" where
  "host_genesis ops modules = genesis_loop ops host_new modules"

section \<open>The modules registry\<close>

definition cached_status :: "'m host \<Rightarrow> state_root \<times> bytes option \<Rightarrow> module_code list option" where
  "cached_status h identity =
     (case h_status_cache h of
        None \<Rightarrow> None
      | Some (cached_at, modules) \<Rightarrow> if cached_at = identity then Some modules else None)"

text \<open>The read behind the memo: the query and its reply.\<close>

definition status_read :: "'m kernel \<Rightarrow> 'm host \<Rightarrow> error + module_code list option" where
  "status_read K h =
     (case host_query (k_ops K) (h_committed h) (h_registry h) MODULES_ID
             (wire_encode (mw_query (k_modules K)) MqModuleStatus) of
        Inl (UnknownModule _) \<Rightarrow> Inr None
      | Inl e \<Rightarrow> Inl e
      | Inr bs \<Rightarrow>
          (case wire_decode (mw_reply (k_modules K)) bs of
             Inl e \<Rightarrow> Inl (ModuleError (''modules registry reply is unreadable: '' @ e))
           | Inr (MrModuleStatus modules) \<Rightarrow> Inr (Some modules)
           | Inr other \<Rightarrow>
               Inl (ModuleError (''modules registry answered ModuleStatus with '' @
                      mw_debug_reply (k_modules K) other))))"

definition module_status :: "'m kernel \<Rightarrow> 'm host \<Rightarrow> 'm host \<times> (error + module_code list option)" where
  "module_status K h =
     (case map_of (h_registry h) MODULES_ID of
        None \<Rightarrow> (h, Inr None)
      | Some m \<Rightarrow>
          (let identity = (mod_root (k_ops K) m, mod_code_hash (k_ops K) m)
           in case cached_status h identity of
                Some hit \<Rightarrow> (h, Inr (Some hit))
              | None \<Rightarrow>
                  (case status_read K h of
                     Inr (Some modules) \<Rightarrow>
                       (h\<lparr>h_status_cache := Some (identity, modules)\<rparr>, Inr (Some modules))
                   | other \<Rightarrow> (h, other))))"

definition pending_modules_advance ::
  "'m kernel \<Rightarrow> u64 \<Rightarrow> 'm host \<Rightarrow> 'm host \<times> (error + msg option)" where
  "pending_modules_advance K height h =
     st_then (module_status K h) (\<lambda>h' status.
       (h', Inr
         (case status of
            None \<Rightarrow> None
          | Some modules \<Rightarrow>
              if list_ex (\<lambda>m. case mc_pending m of None \<Rightarrow> False | Some p \<Rightarrow> armed_at p height) modules
              then Some \<lparr>msg_target = MODULES_ID,
                         msg_payload = wire_encode (mw_msg (k_modules K)) Advance\<rparr>
              else None)))"

section \<open>Prepared work\<close>

definition pending_calls :: "'m kernel \<Rightarrow> 'm host \<Rightarrow> error + pending_call list" where
  "pending_calls K h =
     (case host_query (k_ops K) (h_committed h) (h_registry h) DISPATCH_MODULE_ID
             (wire_encode (dw_query (k_dispatch K)) DqPendingCalls) of
        Inl (UnknownModule _) \<Rightarrow> Inr []
      | Inl e \<Rightarrow> Inl (ModuleError (''dispatch: pending calls: '' @ error_to_string e))
      | Inr bs \<Rightarrow>
          (case wire_decode (dw_reply (k_dispatch K)) bs of
             Inr (DrPendingCalls calls) \<Rightarrow> Inr calls
           | Inr other \<Rightarrow>
               Inl (ModuleError (''dispatch: pending calls answered '' @
                      dw_debug_reply (k_dispatch K) other))
           | Inl e \<Rightarrow> Inl (ModuleError (''dispatch: pending calls: '' @ e))))"

definition prepared_call_of :: "pending_call \<Rightarrow> prepared_call" where
  "prepared_call_of call =
     \<lparr>pp_enqueued = pc_enqueued call, pp_id = pc_id call, pp_account = pc_account call,
      pp_generation = pc_gen call, pp_target = pc_target call, pp_payload = pc_payload call,
      pp_cause = pc_cause call\<rparr>"

definition prepared_delivery_of :: "module_id \<Rightarrow> pending_item \<Rightarrow> prepared_delivery" where
  "prepared_delivery_of source item =
     \<lparr>pd_item = \<lparr>ir_source = source, ir_item = pi_item item\<rparr>, pd_target = pi_target item,
      pd_payload = pi_payload item, pd_cause = pi_cause item\<rparr>"

definition source_items :: "'m module_ops \<Rightarrow> module_id \<Rightarrow> 'm \<Rightarrow> error + pending_item list" where
  "source_items ops source m =
     map_err (\<lambda>e. ModuleError (source @ '': pending items: '' @ error_to_string e))
       (mod_pending_items ops m)"

fun collect_deliveries ::
  "'m module_ops \<Rightarrow> 'm registry \<Rightarrow> prepared_delivery list \<Rightarrow> error + prepared_delivery list" where
  "collect_deliveries ops [] deliveries = Inr deliveries"
| "collect_deliveries ops ((source, m) # rest) deliveries =
     and_then (source_items ops source m) (\<lambda>items.
       collect_deliveries ops rest
         (deliveries @ map (prepared_delivery_of source) (take MAX_DELIVERIES_PER_BLOCK items)))"

definition prepare_work :: "'m kernel \<Rightarrow> u64 \<Rightarrow> 'm host \<Rightarrow> 'm host \<times> (error + prepared_work)" where
  "prepare_work K height h =
     st_then (h, pending_calls K h) (\<lambda>h calls.
     st_then (h, collect_deliveries (k_ops K) (h_registry h) []) (\<lambda>h deliveries.
     st_then (pending_modules_advance K height h) (\<lambda>h advance.
       (h, Inr \<lparr>pw_advance = advance, pw_calls = map prepared_call_of calls,
               pw_deliveries = deliveries\<rparr>))))"

fun any_pending :: "'m module_ops \<Rightarrow> 'm registry \<Rightarrow> error + bool" where
  "any_pending ops [] = Inr False"
| "any_pending ops ((source, m) # rest) =
     and_then (source_items ops source m) (\<lambda>items.
       if items \<noteq> [] then Inr True else any_pending ops rest)"

definition has_pending_work :: "'m kernel \<Rightarrow> 'm host \<Rightarrow> error + bool" where
  "has_pending_work K h =
     and_then (pending_calls K h) (\<lambda>calls.
       if calls \<noteq> [] then Inr True else any_pending (k_ops K) (h_registry h))"

section \<open>Code swaps and admissions\<close>

definition check_module_replacement ::
  "'m module_ops \<Rightarrow> 'm host \<Rightarrow> module_id \<Rightarrow> bytes \<Rightarrow> error + unit" where
  "check_module_replacement ops h mid bs =
     (case map_of (h_registry h) mid of
        None \<Rightarrow> Inr ()
      | Some m \<Rightarrow> and_then (mod_prepare_swap ops m bs) (\<lambda>_. Inr ()))"

datatype 'm realization =
    RealizeSwap module_id bytes
  | RealizeSeat 'm
  | RealizeForeign module_id bytes

definition hex32 :: "bytes \<Rightarrow> string" where
  "hex32 bs = hex_lower bs"

text \<open>The bytes of a committed hash, fetched and verified.\<close>

definition fetch_code ::
  "(bytes \<Rightarrow> bytes) \<Rightarrow> (bytes \<Rightarrow> bytes option) \<Rightarrow> module_id \<Rightarrow> bytes \<Rightarrow> error + bytes" where
  "fetch_code sha fetch mid target =
     (case fetch target of
        None \<Rightarrow> Inl (ModuleError (''code bytes absent for module '' @ mid @ '' (hash '' @
                 hex32 target @ '') '' @ em_dash @ '' fail-closed''))
      | Some bs \<Rightarrow>
          if sha bs \<noteq> target
          then Inl (ModuleError (''code bytes for module '' @ mid @ '' do not match committed hash '' @
                 hex32 target @ '' '' @ em_dash @ '' fail-closed''))
          else Inr bs)"

text \<open>An admission: the factory makes a module, or another plane's component, of the bytes.\<close>

definition admit_module ::
  "'m module_ops \<Rightarrow> 'm host \<Rightarrow> module_id \<Rightarrow> bytes \<Rightarrow> bytes \<Rightarrow> error + 'm realization" where
  "admit_module ops h mid target bs =
     (case h_module_factory h of
        None \<Rightarrow> Inl (ModuleError (''module '' @ mid @
                 '' admitted but no module factory is wired '' @ em_dash @ '' fail-closed''))
      | Some factory \<Rightarrow>
          and_then (factory mid bs) (\<lambda>adm.
            (case adm of
               ForeignAbi \<Rightarrow> Inr (RealizeForeign mid target)
             | AdmittedModule m \<Rightarrow>
                 if mod_id ops m \<noteq> mid
                 then Inl (ModuleError (''module factory instantiated `'' @ mod_id ops m @
                        ''` for admission `'' @ mid @ ''` '' @ em_dash @ '' fail-closed''))
                 else Inr (RealizeSeat m))))"

definition resolve_entry ::
  "'m kernel \<Rightarrow> u64 \<Rightarrow> (bytes \<Rightarrow> bytes option) \<Rightarrow> 'm host \<Rightarrow> module_code \<Rightarrow>
   error + 'm realization option" where
  "resolve_entry K height fetch h entry =
     (case (mc_kind entry, code_at entry height) of
        (KindView, _) \<Rightarrow> Inr None
      | (KindModule, None) \<Rightarrow> Inr None
      | (KindModule, Some target) \<Rightarrow>
          (let mid = mc_module_id entry;
               resolve = (\<lambda>current.
                 if current = Some target \<or> (mid, target) |\<in>| h_foreign_admissions h then Inr None
                 else
                   and_then (fetch_code (k_sha256 K) fetch mid target) (\<lambda>bs.
                     (case current of
                        Some _ \<Rightarrow> Inr (Some (RealizeSwap mid bs))
                      | None \<Rightarrow> and_then (admit_module (k_ops K) h mid target bs) (\<lambda>r. Inr (Some r)))))
           in case map_of (h_registry h) mid of
                Some m \<Rightarrow>
                  (case mod_code_hash (k_ops K) m of
                     None \<Rightarrow> Inr None
                   | Some current \<Rightarrow> resolve (Some current))
              | None \<Rightarrow> resolve None))"

fun resolve_roster ::
  "'m kernel \<Rightarrow> u64 \<Rightarrow> (bytes \<Rightarrow> bytes option) \<Rightarrow> 'm host \<Rightarrow> module_code list \<Rightarrow>
   'm realization list \<Rightarrow> error + 'm realization list" where
  "resolve_roster K height fetch h [] rs = Inr rs"
| "resolve_roster K height fetch h (entry # entries) rs =
     and_then (resolve_entry K height fetch h entry) (\<lambda>r.
       resolve_roster K height fetch h entries (case r of None \<Rightarrow> rs | Some x \<Rightarrow> rs @ [x]))"

text \<open>The swaps by id, the last one of an id winning; the others in order.\<close>

fun swaps_of :: "'m realization list \<Rightarrow> (module_id \<times> bytes) list \<Rightarrow> (module_id \<times> bytes) list" where
  "swaps_of [] swaps = swaps"
| "swaps_of (RealizeSwap mid bs # rs) swaps = swaps_of rs (bt_insert mid bs swaps)"
| "swaps_of (r # rs) swaps = swaps_of rs swaps"

definition seats_of :: "'m realization list \<Rightarrow> 'm realization list" where
  "seats_of rs = filter (\<lambda>r. case r of RealizeSwap _ _ \<Rightarrow> False | _ \<Rightarrow> True) rs"

text \<open>
  Every replacement is prepared while the running roster is untouched; the result is the registry
  with the prepared ones installed.
\<close>

fun prepare_swaps ::
  "'m module_ops \<Rightarrow> (module_id \<times> bytes) list \<Rightarrow> 'm registry \<Rightarrow> error + 'm registry" where
  "prepare_swaps ops swaps [] = Inr []"
| "prepare_swaps ops swaps ((i, m) # rest) =
     and_then (case map_of swaps i of None \<Rightarrow> Inr m | Some bs \<Rightarrow> mod_prepare_swap ops m bs) (\<lambda>m'.
     and_then (prepare_swaps ops swaps rest) (\<lambda>rest'. Inr ((i, m') # rest')))"

definition skip_foreign_admission :: "'m host \<Rightarrow> module_id \<Rightarrow> bytes \<Rightarrow> 'm host" where
  "skip_foreign_admission h mid code_hash =
     h\<lparr>h_foreign_admissions := finsert (mid, code_hash) (h_foreign_admissions h)\<rparr>"

fun seat_one :: "'m module_ops \<Rightarrow> 'm realization \<Rightarrow> 'm host \<Rightarrow> 'm host" where
  "seat_one ops (RealizeSeat m) h = h\<lparr>h_registry := bt_insert (mod_id ops m) m (h_registry h)\<rparr>"
| "seat_one ops (RealizeForeign mid code_hash) h = skip_foreign_admission h mid code_hash"
| "seat_one ops (RealizeSwap mid bs) h = h"

definition realize_module_swaps ::
  "'m kernel \<Rightarrow> u64 \<Rightarrow> (bytes \<Rightarrow> bytes option) \<Rightarrow> 'm host \<Rightarrow> 'm host \<times> (error + unit)" where
  "realize_module_swaps K height fetch h =
     st_then (module_status K h) (\<lambda>h status.
       (case status of
          None \<Rightarrow> (h, Inr ())
        | Some modules \<Rightarrow>
            st_then (h, resolve_roster K height fetch h modules []) (\<lambda>h rs.
            st_then (h, prepare_swaps (k_ops K) (swaps_of rs []) (h_registry h)) (\<lambda>h registry.
              (fold (seat_one (k_ops K)) (seats_of rs) (h\<lparr>h_registry := registry\<rparr>), Inr ())))))"

section \<open>Accessors\<close>

definition module_root :: "'m module_ops \<Rightarrow> 'm host \<Rightarrow> module_id \<Rightarrow> state_root option" where
  "module_root ops h mid = map_option (mod_root ops) (map_of (h_registry h) mid)"

definition module_code_hash :: "'m module_ops \<Rightarrow> 'm host \<Rightarrow> module_id \<Rightarrow> bytes option" where
  "module_code_hash ops h mid = Option.bind (map_of (h_registry h) mid) (mod_code_hash ops)"

definition module_roots :: "'m module_ops \<Rightarrow> 'm host \<Rightarrow> (module_id \<times> state_root) list" where
  "module_roots ops h = map (\<lambda>(i, m). (i, mod_root ops m)) (h_registry h)"

end
