(* ===== verification/Host_Swaps.thy ===== *)
theory Host_Swaps
  imports Host_Boundary
begin

text \<open>
  The realization of code swaps and admissions (\<^verbatim>\<open>Host::realize_module_swaps\<close>) against what the
  modules registry designates for a block. The two contracts below are what the realization relies on:
  a prepared replacement keeps the module's id and state root and runs the bytes it was given, and the
  factory makes a module that runs the bytes it was given.
\<close>

section \<open>The contracts of the deployment plane\<close>

definition swap_contract :: "'m module_ops \<Rightarrow> (bytes \<Rightarrow> bytes) \<Rightarrow> bool" where
  "swap_contract ops sha \<longleftrightarrow>
     (\<forall>m bs m'. mod_prepare_swap ops m bs = Inr m' \<longrightarrow>
        mod_id ops m' = mod_id ops m \<and> mod_root ops m' = mod_root ops m \<and>
        mod_code_hash ops m' = Some (sha bs))"

definition factory_contract :: "'m module_ops \<Rightarrow> (bytes \<Rightarrow> bytes) \<Rightarrow> 'm host \<Rightarrow> bool" where
  "factory_contract ops sha h \<longleftrightarrow>
     (\<forall>factory mid bs m. h_module_factory h = Some factory \<longrightarrow> factory mid bs = Inr (AdmittedModule m) \<longrightarrow>
        mod_code_hash ops m = Some (sha bs))"

text \<open>
  What a host must run for an entry at a height: a hot-swappable module is on the designated code, or
  the entry is another plane's record.
\<close>

definition runs_designated :: "'m module_ops \<Rightarrow> 'm host \<Rightarrow> u64 \<Rightarrow> module_code \<Rightarrow> bool" where
  "runs_designated ops h height entry \<longleftrightarrow>
     (mc_kind entry = KindModule \<longrightarrow>
      (\<forall>target. code_at entry height = Some target \<longrightarrow>
         (mc_module_id entry, target) |\<in>| h_foreign_admissions h \<or>
         (\<exists>m. map_of (h_registry h) (mc_module_id entry) = Some m \<and>
            (mod_code_hash ops m = None \<or> mod_code_hash ops m = Some target))))"

section \<open>Resolution\<close>

text \<open>The realizations of a roster, entry by entry.\<close>

definition realized_of ::
  "'m kernel \<Rightarrow> u64 \<Rightarrow> (bytes \<Rightarrow> bytes option) \<Rightarrow> 'm host \<Rightarrow> module_code \<Rightarrow> 'm realization option" where
  "realized_of K height fetch h entry =
     (case resolve_entry K height fetch h entry of Inl _ \<Rightarrow> None | Inr r \<Rightarrow> r)"

lemma resolve_roster_set:
  assumes "resolve_roster K height fetch h entries rs = Inr out"
  shows "set out = set rs \<union> {x. \<exists>e\<in>set entries. realized_of K height fetch h e = Some x}"
    and "\<forall>e\<in>set entries. \<exists>r. resolve_entry K height fetch h e = Inr r"
  using assms
  by (induction entries arbitrary: rs)
    (auto simp: and_then_eq_Inr realized_of_def split: option.splits)

lemma resolve_roster_none:
  assumes "\<forall>e\<in>set entries. resolve_entry K height fetch h e = Inr None"
  shows "resolve_roster K height fetch h entries rs = Inr rs"
  using assms by (induction entries arbitrary: rs) auto

fun realization_id :: "'m module_ops \<Rightarrow> 'm realization \<Rightarrow> module_id" where
  "realization_id ops (RealizeSwap mid bs) = mid"
| "realization_id ops (RealizeSeat m) = mod_id ops m"
| "realization_id ops (RealizeForeign mid c) = mid"

text \<open>What each realization says of its entry.\<close>

lemma admit_module_cases:
  assumes "admit_module ops h mid target bs = Inr r"
  obtains factory where "h_module_factory h = Some factory"
    "r = RealizeForeign mid target \<or>
     (\<exists>m. r = RealizeSeat m \<and> mod_id ops m = mid \<and> factory mid bs = Inr (AdmittedModule m))"
proof -
  obtain factory adm where f: "h_module_factory h = Some factory" "factory mid bs = Inr adm"
    using assms by (cases "h_module_factory h") (auto simp: admit_module_def and_then_eq_Inr)
  with assms that show thesis
    by (cases adm) (auto simp: admit_module_def split: if_splits)
qed

lemma realized_cases:
  assumes "realized_of K height fetch h entry = Some r"
  obtains target bs where "mc_kind entry = KindModule" "code_at entry height = Some target"
    "k_sha256 K bs = target" "realization_id (k_ops K) r = mc_module_id entry"
    "r = RealizeSwap (mc_module_id entry) bs \<and> map_of (h_registry h) (mc_module_id entry) \<noteq> None \<or>
     map_of (h_registry h) (mc_module_id entry) = None \<and>
     (r = RealizeForeign (mc_module_id entry) target \<or>
      (\<exists>m factory. r = RealizeSeat m \<and> h_module_factory h = Some factory \<and>
         factory (mc_module_id entry) bs = Inr (AdmittedModule m)))"
proof -
  have "resolve_entry K height fetch h entry = Inr (Some r)"
    using assms by (auto simp: realized_of_def split: sum.splits)
  then obtain target bs where e: "mc_kind entry = KindModule" "code_at entry height = Some target"
    "fetch_code (k_sha256 K) fetch (mc_module_id entry) target = Inr bs"
    "r = RealizeSwap (mc_module_id entry) bs \<and> map_of (h_registry h) (mc_module_id entry) \<noteq> None \<or>
     map_of (h_registry h) (mc_module_id entry) = None \<and>
     admit_module (k_ops K) h (mc_module_id entry) target bs = Inr r"
    by (auto simp: resolve_entry_def Let_def and_then_eq_Inr
        split: kind.splits option.splits if_splits)
  have "k_sha256 K bs = target"
    using e(3) by (auto simp: fetch_code_def split: option.splits if_splits)
  with that e show thesis by (auto elim!: admit_module_cases)
qed

lemma resolved_entry_runs:
  assumes "resolve_entry K height fetch h entry = Inr None"
  shows "runs_designated (k_ops K) h height entry"
  using assms
  by (auto simp: runs_designated_def resolve_entry_def Let_def and_then_eq_Inr
      split: kind.splits option.splits if_splits)

lemma runs_resolved_entry:
  assumes "runs_designated (k_ops K) h height entry"
  shows "resolve_entry K height fetch h entry = Inr None"
  using assms
  by (auto simp: runs_designated_def resolve_entry_def Let_def split: kind.splits option.splits)

section \<open>Installation\<close>

lemma swaps_of_inv: "bt_inv acc \<Longrightarrow> bt_inv (swaps_of rs acc)"
  by (induction rs acc rule: swaps_of.induct) auto

lemma swaps_of_sound:
  "bt_inv acc \<Longrightarrow> map_of (swaps_of rs acc) i = Some bs \<Longrightarrow>
   RealizeSwap i bs \<in> set rs \<or> map_of acc i = Some bs"
  by (induction rs acc rule: swaps_of.induct) (auto split: if_splits)

lemma swaps_of_complete:
  "bt_inv acc \<Longrightarrow> RealizeSwap i bs \<in> set rs \<or> map_of acc i \<noteq> None \<Longrightarrow> map_of (swaps_of rs acc) i \<noteq> None"
  by (induction rs acc rule: swaps_of.induct) (auto split: if_splits)

definition swapped :: "'m module_ops \<Rightarrow> (module_id \<times> bytes) list \<Rightarrow> module_id \<Rightarrow> 'm \<Rightarrow> 'm \<Rightarrow> bool" where
  "swapped ops swaps i m m' \<longleftrightarrow>
     (case map_of swaps i of None \<Rightarrow> m' = m | Some bs \<Rightarrow> mod_prepare_swap ops m bs = Inr m')"

lemma prepare_swaps_at:
  assumes "prepare_swaps ops swaps reg = Inr reg'"
  shows "rel_option (swapped ops swaps i) (map_of reg i) (map_of reg' i) \<and> map fst reg' = map fst reg"
  using assms
proof (induction reg arbitrary: reg')
  case (Cons x reg)
  obtain j m where x: "x = (j, m)" by (cases x)
  from Cons.prems x obtain m' rest where "swapped ops swaps j m m'" "prepare_swaps ops swaps reg = Inr rest"
    "reg' = (j, m') # rest"
    by (auto simp: and_then_eq_Inr swapped_def split: option.splits)
  with Cons.IH x show ?case by simp
qed simp

lemma bt_inv_keys: "map fst m' = map fst m \<Longrightarrow> bt_inv m \<Longrightarrow> bt_inv m'"
  by (simp add: bt_inv_def)

lemma seat_one_fields [simp]:
  "h_module_factory (seat_one ops r h) = h_module_factory h"
  "h_status_cache (seat_one ops r h) = h_status_cache h"
  "h_committed (seat_one ops r h) = h_committed h"
  "h_foreign_admissions (seat_one ops r h) =
     (case r of RealizeForeign i c \<Rightarrow> finsert (i, c) (h_foreign_admissions h) | _ \<Rightarrow> h_foreign_admissions h)"
  "h_registry (seat_one ops r h) =
     (case r of RealizeSeat m \<Rightarrow> bt_insert (mod_id ops m) m (h_registry h) | _ \<Rightarrow> h_registry h)"
  by (cases r; simp add: skip_foreign_admission_def)+

lemma seats_fields:
  "h_module_factory (fold (seat_one ops) rs h) = h_module_factory h"
  "h_status_cache (fold (seat_one ops) rs h) = h_status_cache h"
  "h_committed (fold (seat_one ops) rs h) = h_committed h"
  by (induction rs arbitrary: h) simp_all

lemma seats_inv: "bt_inv (h_registry h) \<Longrightarrow> bt_inv (h_registry (fold (seat_one ops) rs h))"
  by (induction rs arbitrary: h) (simp_all split: realization.split)

lemma seats_sound:
  assumes "bt_inv (h_registry h)" and "map_of (h_registry (fold (seat_one ops) rs h)) i = Some m"
  shows "(RealizeSeat m \<in> set rs \<and> mod_id ops m = i) \<or> map_of (h_registry h) i = Some m"
  using assms
proof (induction rs arbitrary: h)
  case (Cons r rs)
  have "bt_inv (h_registry (seat_one ops r h))" using Cons.prems(1) by (simp split: realization.split)
  with Cons.prems have "(RealizeSeat m \<in> set rs \<and> mod_id ops m = i) \<or>
      map_of (h_registry (seat_one ops r h)) i = Some m"
    by (intro Cons.IH) simp_all
  then show ?case using Cons.prems(1) by (auto split: realization.splits if_splits)
qed simp

lemma seats_keep:
  assumes "bt_inv (h_registry h)" and "map_of (h_registry h) i \<noteq> None"
  shows "map_of (h_registry (fold (seat_one ops) rs h)) i \<noteq> None"
  using assms
proof (induction rs arbitrary: h)
  case (Cons r rs)
  have "bt_inv (h_registry (seat_one ops r h))" "map_of (h_registry (seat_one ops r h)) i \<noteq> None"
    using Cons.prems by (auto split: realization.split)
  from Cons.IH [OF this] show ?case by simp
qed simp

lemma seats_complete:
  assumes "bt_inv (h_registry h)" and "RealizeSeat m \<in> set rs"
  shows "map_of (h_registry (fold (seat_one ops) rs h)) (mod_id ops m) \<noteq> None"
  using assms
proof (induction rs arbitrary: h)
  case (Cons r rs)
  have inv: "bt_inv (h_registry (seat_one ops r h))" using Cons.prems(1) by (simp split: realization.split)
  show ?case
  proof (cases "r = RealizeSeat m")
    case True
    then have "map_of (h_registry (seat_one ops r h)) (mod_id ops m) \<noteq> None" using Cons.prems(1) by simp
    from seats_keep [OF inv this] show ?thesis by simp
  next
    case False
    with Cons.IH [OF inv] Cons.prems(2) show ?thesis by simp
  qed
qed simp

lemma seats_foreign:
  "x |\<in>| h_foreign_admissions (fold (seat_one ops) rs h) \<longleftrightarrow>
   x |\<in>| h_foreign_admissions h \<or> RealizeForeign (fst x) (snd x) \<in> set rs"
proof (induction rs arbitrary: h)
  case (Cons r rs)
  have "x |\<in>| h_foreign_admissions (seat_one ops r h) \<longleftrightarrow>
      x |\<in>| h_foreign_admissions h \<or> RealizeForeign (fst x) (snd x) = r"
    by (cases r; cases x) (auto simp: skip_foreign_admission_def)
  then show ?case using Cons.IH [of "seat_one ops r h"] by auto
qed simp

section \<open>Resolution and installation together\<close>

lemma realized_id:
  "realized_of K height fetch h e = Some r \<Longrightarrow> realization_id (k_ops K) r = mc_module_id e"
  by (erule realized_cases)

lemma realized_in:
  assumes "resolve_roster K height fetch h modules [] = Inr rs"
  shows "r \<in> set rs \<longleftrightarrow> (\<exists>e\<in>set modules. realized_of K height fetch h e = Some r)"
  using resolve_roster_set(1) [OF assms] by auto

text \<open>With each id once in the roster there is one realization per id.\<close>

lemma realized_at:
  assumes "resolve_roster K height fetch h modules [] = Inr rs" and "distinct (map mc_module_id modules)"
    and "r \<in> set rs" and "e \<in> set modules" and "realization_id (k_ops K) r = mc_module_id e"
  shows "realized_of K height fetch h e = Some r"
proof -
  obtain e' where e': "e' \<in> set modules" "realized_of K height fetch h e' = Some r"
    using assms(3) realized_in [OF assms(1)] by blast
  then have "e' = e" using assms(2,4,5) realized_id by (metis distinct_map inj_onD)
  with e' show ?thesis by simp
qed

lemma realized_swap_at:
  assumes "resolve_roster K height fetch h modules [] = Inr rs" and "map_of (swaps_of rs []) i = Some bs"
  shows "RealizeSwap i bs \<in> set rs \<and> i \<in> mc_module_id ` set modules"
proof -
  have "RealizeSwap i bs \<in> set rs" using swaps_of_sound [OF bt_inv_Nil assms(2)] by simp
  with realized_in [OF assms(1)] realized_id show ?thesis by fastforce
qed

lemma realized_seat_new:
  assumes "resolve_roster K height fetch h modules [] = Inr rs" and "RealizeSeat m \<in> set (seats_of rs)"
  shows "map_of (h_registry h) (mod_id (k_ops K) m) = None \<and> mod_id (k_ops K) m \<in> mc_module_id ` set modules"
proof -
  obtain e where e: "e \<in> set modules" "realized_of K height fetch h e = Some (RealizeSeat m)"
    using assms realized_in [OF assms(1)] by (auto simp: seats_of_def)
  from e(2) show ?thesis by (rule realized_cases) (use e(1) in auto)
qed

text \<open>The host with everything installed.\<close>

definition installed :: "'m module_ops \<Rightarrow> 'm realization list \<Rightarrow> 'm registry \<Rightarrow> 'm host \<Rightarrow> 'm host" where
  "installed ops rs registry h = fold (seat_one ops) (seats_of rs) (h\<lparr>h_registry := registry\<rparr>)"

lemma installed_fields:
  "h_module_factory (installed ops rs registry h) = h_module_factory h"
  "h_status_cache (installed ops rs registry h) = h_status_cache h"
  "h_committed (installed ops rs registry h) = h_committed h"
  "x |\<in>| h_foreign_admissions (installed ops rs registry h) \<longleftrightarrow>
     x |\<in>| h_foreign_admissions h \<or> RealizeForeign (fst x) (snd x) \<in> set rs"
  by (simp_all add: installed_def seats_fields seats_foreign seats_of_def)

lemma installed_sound:
  assumes "bt_inv (h_registry h)" and "prepare_swaps ops (swaps_of rs []) (h_registry h) = Inr registry"
    and "map_of (h_registry (installed ops rs registry h)) i = Some m"
  shows "(RealizeSeat m \<in> set (seats_of rs) \<and> mod_id ops m = i) \<or>
     (\<exists>m0. map_of (h_registry h) i = Some m0 \<and> swapped ops (swaps_of rs []) i m0 m)"
proof -
  have p: "rel_option (swapped ops (swaps_of rs []) i) (map_of (h_registry h) i) (map_of registry i)"
    "bt_inv registry"
    using prepare_swaps_at [OF assms(2)] bt_inv_keys [OF _ assms(1), of registry] by blast+
  from seats_sound [of "h\<lparr>h_registry := registry\<rparr>" ops "seats_of rs" i m] assms(3) p show ?thesis
    by (cases "map_of (h_registry h) i") (auto simp: installed_def)
qed

lemma installed_complete:
  assumes "bt_inv (h_registry h)" and "prepare_swaps ops (swaps_of rs []) (h_registry h) = Inr registry"
    and "map_of (h_registry h) i \<noteq> None \<or> (\<exists>m. RealizeSeat m \<in> set rs \<and> mod_id ops m = i)"
  shows "map_of (h_registry (installed ops rs registry h)) i \<noteq> None"
proof -
  have p: "rel_option (swapped ops (swaps_of rs []) i) (map_of (h_registry h) i) (map_of registry i)"
    and inv: "bt_inv (h_registry (h\<lparr>h_registry := registry\<rparr>))"
    using prepare_swaps_at [OF assms(2)] bt_inv_keys [OF _ assms(1), of registry] by auto
  from assms(3) show ?thesis
  proof
    assume "map_of (h_registry h) i \<noteq> None"
    then have "map_of registry i \<noteq> None" using p by (cases "map_of registry i") auto
    with seats_keep [OF inv] show ?thesis by (simp add: installed_def)
  next
    assume "\<exists>m. RealizeSeat m \<in> set rs \<and> mod_id ops m = i"
    with seats_complete [OF inv, of _ "seats_of rs" ops] show ?thesis by (auto simp: installed_def seats_of_def)
  qed
qed

text \<open>A module that was registered keeps its state root, and itself when the roster does not name it.\<close>

lemma realize_keeps:
  assumes "swap_contract (k_ops K) (k_sha256 K)" and "bt_inv (h_registry h)"
    and "resolve_roster K height fetch h modules [] = Inr rs"
    and "prepare_swaps (k_ops K) (swaps_of rs []) (h_registry h) = Inr registry"
    and "map_of (h_registry h) i = Some m"
  shows "\<exists>m'. map_of (h_registry (installed (k_ops K) rs registry h)) i = Some m' \<and>
     mod_root (k_ops K) m' = mod_root (k_ops K) m \<and> (i \<notin> mc_module_id ` set modules \<longrightarrow> m' = m)"
proof -
  obtain m' where m': "map_of (h_registry (installed (k_ops K) rs registry h)) i = Some m'"
    using installed_complete [OF assms(2,4), of i] assms(5) by auto
  have "\<not> (RealizeSeat m' \<in> set (seats_of rs) \<and> mod_id (k_ops K) m' = i)"
    using realized_seat_new [OF assms(3), of m'] assms(5) by auto
  then have s: "swapped (k_ops K) (swaps_of rs []) i m m'"
    using installed_sound [OF assms(2,4) m'] assms(5) by auto
  have "mod_root (k_ops K) m' = mod_root (k_ops K) m \<and> (i \<notin> mc_module_id ` set modules \<longrightarrow> m' = m)"
  proof (cases "map_of (swaps_of rs []) i")
    case None
    then show ?thesis using s by (simp add: swapped_def)
  next
    case (Some bs)
    then show ?thesis
      using s assms(1) realized_swap_at [OF assms(3) Some] by (simp add: swapped_def swap_contract_def)
  qed
  with m' show ?thesis by blast
qed

lemma realize_absent:
  assumes "bt_inv (h_registry h)" and "resolve_roster K height fetch h modules [] = Inr rs"
    and "prepare_swaps (k_ops K) (swaps_of rs []) (h_registry h) = Inr registry"
    and "map_of (h_registry h) i = None" and "i \<notin> mc_module_id ` set modules"
  shows "map_of (h_registry (installed (k_ops K) rs registry h)) i = None"
proof (rule ccontr)
  assume "map_of (h_registry (installed (k_ops K) rs registry h)) i \<noteq> None"
  then obtain m where m: "map_of (h_registry (installed (k_ops K) rs registry h)) i = Some m" by blast
  from installed_sound [OF assms(1,3) m] realized_seat_new [OF assms(2), of m] assms(4,5)
  show False by auto
qed

text \<open>An entry that needed nothing stays served, and every realization serves its entry.\<close>

lemma realize_served:
  assumes "bt_inv (h_registry h)" and "resolve_roster K height fetch h modules [] = Inr rs"
    and "prepare_swaps (k_ops K) (swaps_of rs []) (h_registry h) = Inr registry"
    and "distinct (map mc_module_id modules)" and "e \<in> set modules" and "realized_of K height fetch h e = None"
  shows "runs_designated (k_ops K) (installed (k_ops K) rs registry h) height e"
proof -
  let ?i = "mc_module_id e"
  obtain r where "resolve_entry K height fetch h e = Inr r"
    using resolve_roster_set(2) [OF assms(2)] assms(5) by blast
  then have "resolve_entry K height fetch h e = Inr None" using assms(6) by (simp add: realized_of_def)
  from resolved_entry_runs [OF this] have here: "runs_designated (k_ops K) h height e" .
  have none: "r \<notin> set rs" if "realization_id (k_ops K) r = ?i" for r
    using realized_at [OF assms(2,4) _ assms(5) that] assms(6) by auto
  have "map_of (h_registry (installed (k_ops K) rs registry h)) ?i = Some m"
    if m: "map_of (h_registry h) ?i = Some m" for m
  proof -
    obtain m' where m': "map_of (h_registry (installed (k_ops K) rs registry h)) ?i = Some m'"
      using installed_complete [OF assms(1,3), of ?i] m by auto
    have "map_of (swaps_of rs []) ?i = None"
      using realized_swap_at [OF assms(2), of ?i] none by (cases "map_of (swaps_of rs []) ?i") force+
    moreover have "RealizeSeat m' \<notin> set (seats_of rs)" if "mod_id (k_ops K) m' = ?i"
      using none [of "RealizeSeat m'"] that by (simp add: seats_of_def)
    ultimately show ?thesis using installed_sound [OF assms(1,3) m'] m' m by (auto simp: swapped_def)
  qed
  with here show ?thesis by (fastforce simp: runs_designated_def installed_fields(4))
qed

lemma realize_serves:
  assumes "swap_contract (k_ops K) (k_sha256 K)" and "factory_contract (k_ops K) (k_sha256 K) h"
    and "bt_inv (h_registry h)" and "resolve_roster K height fetch h modules [] = Inr rs"
    and "prepare_swaps (k_ops K) (swaps_of rs []) (h_registry h) = Inr registry"
    and "distinct (map mc_module_id modules)" and "e \<in> set modules" and "realized_of K height fetch h e = Some r"
  shows "runs_designated (k_ops K) (installed (k_ops K) rs registry h) height e"
proof -
  let ?i = "mc_module_id e" and ?ops = "k_ops K" and ?h = "installed (k_ops K) rs registry h"
  have r: "r \<in> set rs" "realization_id ?ops r = ?i"
    using realized_in [OF assms(4)] realized_id [OF assms(8)] assms(7,8) by auto
  have only: "r' = r" if "r' \<in> set rs" "realization_id ?ops r' = ?i" for r'
    using realized_at [OF assms(4,6) that(1) assms(7) that(2)] assms(8) by simp
  from assms(8) show ?thesis
  proof (rule realized_cases)
    fix target bs
    assume t: "code_at e height = Some target" "k_sha256 K bs = target"
      and kinds: "r = RealizeSwap ?i bs \<and> map_of (h_registry h) ?i \<noteq> None \<or>
       map_of (h_registry h) ?i = None \<and>
       (r = RealizeForeign ?i target \<or>
        (\<exists>m factory. r = RealizeSeat m \<and> h_module_factory h = Some factory \<and>
           factory ?i bs = Inr (AdmittedModule m)))"
    have "(?i, target) |\<in>| h_foreign_admissions ?h \<or>
        (\<exists>m. map_of (h_registry ?h) ?i = Some m \<and> mod_code_hash ?ops m = Some target)"
    proof (cases "r = RealizeForeign ?i target")
      case True
      then show ?thesis using r(1) by (simp add: installed_fields(4))
    next
      case False
      then have "map_of (h_registry h) ?i \<noteq> None \<or> (\<exists>m. RealizeSeat m \<in> set rs \<and> mod_id ?ops m = ?i)"
        using kinds r by auto
      then obtain m where m: "map_of (h_registry ?h) ?i = Some m"
        using installed_complete [OF assms(3,5), of ?i] by auto
      from installed_sound [OF assms(3,5) m] show ?thesis
      proof
        assume seat: "RealizeSeat m \<in> set (seats_of rs) \<and> mod_id ?ops m = ?i"
        then have "r = RealizeSeat m" using only [of "RealizeSeat m"] by (simp add: seats_of_def)
        with kinds t assms(2) m show ?thesis by (auto simp: factory_contract_def)
      next
        assume "\<exists>m0. map_of (h_registry h) ?i = Some m0 \<and> swapped ?ops (swaps_of rs []) ?i m0 m"
        then obtain m0 where m0: "map_of (h_registry h) ?i = Some m0" "swapped ?ops (swaps_of rs []) ?i m0 m"
          by blast
        with kinds have swap: "r = RealizeSwap ?i bs" by simp
        then obtain bs' where bs': "map_of (swaps_of rs []) ?i = Some bs'"
          using swaps_of_complete [OF bt_inv_Nil, of ?i bs rs] r(1) by auto
        then have "bs' = bs" using only [of "RealizeSwap ?i bs'"] realized_swap_at [OF assms(4) bs'] swap by simp
        with m0(2) bs' assms(1) t(2) m show ?thesis by (auto simp: swapped_def swap_contract_def)
      qed
    qed
    with t(1) show ?thesis by (auto simp: runs_designated_def)
  qed
qed

end
