(* ===== verification/Code_Registry.thy ===== *)
theory Code_Registry
  imports Interfaces Valset
begin

text \<open>
  The modules registry (\<^verbatim>\<open>crates/modules/system/modules/src/lib.rs\<close>): which code every
  hot-swappable module runs. Per registered module it stores the history of activations and at most
  one scheduled swap with its readiness latch, behind the sorted roster of ids; beside them stands
  the table of data-plane lanes. Governance registers, schedules and cancels, validators signal that
  they hold the bytes, and the boundary tick activates every armed swap.

  The lemmas give each operation as a change of an abstract registry (a roster, a map from ids to
  entries and a lane table), show that the registry keeps its invariant, that no operation of a block
  changes what is designated for this or an earlier block, and that the boundary tick records exactly
  what was designated.
\<close>

section \<open>Constants and keys\<close>

definition MIN_SWAP_LEAD :: u64 where
  "MIN_SWAP_LEAD = 3"

definition MAX_MODULES :: nat where
  "MAX_MODULES = 1024"

definition MAX_ROSTER_RECORD_BYTES :: nat where
  "MAX_ROSTER_RECORD_BYTES = 512 * 1024"

definition mod_key :: "string \<Rightarrow> bytes" where
  "mod_key mid = as_bytes ''mod'' @ [0] @ as_bytes mid"

definition MODULE_ROSTER_KEY :: bytes where
  "MODULE_ROSTER_KEY = as_bytes ''modules''"

definition LANE_TABLE_KEY :: bytes where
  "LANE_TABLE_KEY = as_bytes ''lanes''"

definition MAX_LANE_TABLE_BYTES :: nat where
  "MAX_LANE_TABLE_BYTES = 64 * 1024"

definition RESERVED_LANE_IDS :: "byte list" where
  "RESERVED_LANE_IDS = [1, 6]"

definition MAX_LANE_ID :: byte where
  "MAX_LANE_ID = 99"

definition MAX_LANE_NAME_BYTES :: nat where
  "MAX_LANE_NAME_BYTES = 32"

definition lane_name_is_well_formed :: "string \<Rightarrow> bool" where
  "lane_name_is_well_formed name \<longleftrightarrow>
     name \<noteq> [] \<and> length name \<le> MAX_LANE_NAME_BYTES \<and>
     list_all (\<lambda>c. of_char c \<in> {97 .. 122 :: nat} \<or> of_char c \<in> {48 .. 57 :: nat} \<or> c = CHR ''_'')
       name"

definition saturating_add :: "u64 \<Rightarrow> u64 \<Rightarrow> u64" where
  "saturating_add a b = (if unat a + unat b < 2 ^ 64 then a + b else - 1)"

section \<open>State\<close>

record module_entry =
  me_kind :: kind
  me_pending :: "scheduled_swap option"
  me_history :: "activation list"

definition active_code_hash :: "module_entry \<Rightarrow> bytes" where
  "active_code_hash e = (if me_history e = [] then [] else act_code_hash (last (me_history e)))"

record code_admission =
  ca_kind :: kind
  ca_code_hash :: bytes
  ca_lanes :: "lane_decl list"

record code_seed =
  sd_kind :: kind
  sd_code_hash :: bytes
  sd_lanes :: "lane_decl list"

definition activation_at :: "u64 \<Rightarrow> bytes \<Rightarrow> activation" where
  "activation_at height code_hash = \<lparr>act_height = height, act_code_hash = code_hash\<rparr>"

text \<open>
  The JSON formats of the wire types, the borsh formats of the three stored records, the JSON
  format of the genesis roster and the formats of the valset reads.
\<close>

record registry_wires =
  rw_wire :: modules_wires
  rw_roster :: "string list serde"
  rw_entry :: "module_entry serde"
  rw_lanes :: "lane_record list serde"
  rw_seeds :: "(string \<times> code_seed) list serde"
  rw_valset :: valset_wires

record 's modules =
  md_id :: module_id
  md_valset_id :: module_id
  md_governance_id :: module_id
  md_staged :: "'s staged_store"

definition modules_new :: "module_id \<Rightarrow> 's \<Rightarrow> module_id \<Rightarrow> module_id \<Rightarrow> 's modules" where
  "modules_new mid store valset_id governance_id =
     \<lparr>md_id = mid, md_valset_id = valset_id, md_governance_id = governance_id,
      md_staged = staged_new store\<rparr>"

section \<open>Records\<close>

definition md_load :: "'s store_lib \<Rightarrow> 'a serde \<Rightarrow> 's modules \<Rightarrow> bytes \<Rightarrow> error + 'a option" where
  "md_load L W m key =
     and_then (staged_get L (md_staged m) key) (\<lambda>r.
       case r of
         None \<Rightarrow> Inr None
       | Some bs \<Rightarrow> and_then (map_err ModuleError (from_slice W bs)) (\<lambda>x. Inr (Some x)))"

definition md_load_committed :: "'s store_lib \<Rightarrow> 'a serde \<Rightarrow> 's modules \<Rightarrow> bytes \<Rightarrow> error + 'a option" where
  "md_load_committed L W m key =
     and_then (staged_get_committed L (md_staged m) key) (\<lambda>r.
       case r of
         None \<Rightarrow> Inr None
       | Some bs \<Rightarrow> and_then (map_err ModuleError (from_slice W bs)) (\<lambda>x. Inr (Some x)))"

definition md_store :: "'a serde \<Rightarrow> 's modules \<Rightarrow> bytes \<Rightarrow> 'a \<Rightarrow> 's modules" where
  "md_store W m key val = m\<lparr>md_staged := stage (md_staged m) key (to_vec W val)\<rparr>"

definition md_delete :: "'s modules \<Rightarrow> bytes \<Rightarrow> 's modules" where
  "md_delete m key = m\<lparr>md_staged := stage_delete (md_staged m) key\<rparr>"

definition store_bounded ::
  "'a serde \<Rightarrow> 's modules \<Rightarrow> bytes \<Rightarrow> 'a \<Rightarrow> nat \<Rightarrow> string \<Rightarrow> 's modules \<times> (error + unit)" where
  "store_bounded W m key val cap what =
     (let bs = to_vec W val in
      if length bs > cap
      then (m, Inl (ModuleError (what @ '' record too large: '' @ show_nat (length bs) @ '' > '' @
                      show_nat cap @ '' bytes'')))
      else (m\<lparr>md_staged := stage (md_staged m) key bs\<rparr>, Inr ()))"

definition registry_entry ::
  "'s store_lib \<Rightarrow> registry_wires \<Rightarrow> 's modules \<Rightarrow> string \<Rightarrow> error + module_entry option" where
  "registry_entry L W m mid = md_load L (rw_entry W) m (mod_key mid)"

definition rostered_entry ::
  "'s store_lib \<Rightarrow> registry_wires \<Rightarrow> 's modules \<Rightarrow> string \<Rightarrow> error + module_entry" where
  "rostered_entry L W m mid =
     and_then (registry_entry L W m mid) (\<lambda>e.
       case e of None \<Rightarrow> Inl (ModuleError ''missing module record'') | Some e \<Rightarrow> Inr e)"

definition registry_roster :: "'s store_lib \<Rightarrow> registry_wires \<Rightarrow> 's modules \<Rightarrow> error + string list" where
  "registry_roster L W m =
     and_then (md_load L (rw_roster W) m MODULE_ROSTER_KEY) (\<lambda>r.
       Inr (case r of None \<Rightarrow> [] | Some roster \<Rightarrow> roster))"

definition store_roster ::
  "registry_wires \<Rightarrow> 's modules \<Rightarrow> string list \<Rightarrow> 's modules \<times> (error + unit)" where
  "store_roster W m roster =
     store_bounded (rw_roster W) m MODULE_ROSTER_KEY roster MAX_ROSTER_RECORD_BYTES ''module roster''"

definition register_entry ::
  "registry_wires \<Rightarrow> 's modules \<Rightarrow> string list \<Rightarrow> string \<Rightarrow> module_entry \<Rightarrow> 's modules \<times> (error + unit)" where
  "register_entry W m roster mid e =
     (case binary_search roster mid of
        Inr _ \<Rightarrow> (m, Inl (ModuleError ''module roster carries an id with no record''))
      | Inl position \<Rightarrow>
          if length roster \<ge> MAX_MODULES
          then (m, Inl (ModuleError (''module cap reached ('' @ show_nat MAX_MODULES @ '')'')))
          else st_then (store_roster W m (vec_insert position mid roster)) (\<lambda>m _.
                 (md_store (rw_entry W) m (mod_key mid) e, Inr ())))"

section \<open>Authority\<close>

definition require_governance_or_system :: "'s modules \<Rightarrow> env \<Rightarrow> error + unit" where
  "require_governance_or_system m env =
     (if env_origin env = Module (md_governance_id m) \<or> env_origin env = System then Inr ()
      else Inl (ModuleError (''modules schedule/cancel/register only via the '' @ md_governance_id m @
                  '' module or system origin, got '' @ debug_origin (env_origin env))))"

definition require_system :: "env \<Rightarrow> error + unit" where
  "require_system env =
     (if env_origin env = System then Inr ()
      else Inl (ModuleError (''modules Advance is a system boundary tick, got '' @
                  debug_origin (env_origin env))))"

definition require_hash_len :: "bytes \<Rightarrow> error + unit" where
  "require_hash_len code_hash =
     (if length code_hash \<noteq> CODE_HASH_LEN
      then Inl (ModuleError (''code_hash must be '' @ show_nat CODE_HASH_LEN @ '' bytes, got '' @
                  show_nat (length code_hash)))
      else Inr ())"

section \<open>Lanes\<close>

definition lane_table :: "'s store_lib \<Rightarrow> registry_wires \<Rightarrow> 's modules \<Rightarrow> error + lane_record list" where
  "lane_table L W m =
     and_then (md_load L (rw_lanes W) m LANE_TABLE_KEY) (\<lambda>r.
       Inr (case r of None \<Rightarrow> [] | Some table \<Rightarrow> table))"

definition lane_owner :: "lane_record list \<Rightarrow> byte \<Rightarrow> string" where
  "lane_owner table i =
     (case find (\<lambda>lane. lr_id lane = i) table of None \<Rightarrow> [] | Some lane \<Rightarrow> lr_module_id lane)"

definition admit_lane ::
  "lane_record list \<Rightarrow> string \<Rightarrow> lane_decl \<Rightarrow> error + lane_record list" where
  "admit_lane table mid decl =
     (if ld_id decl \<in> set RESERVED_LANE_IDS
      then Inl (ModuleError (''lane id '' @ show_nat (unat (ld_id decl)) @
             '' is a kernel lane and is never declarable''))
      else if ld_id decl = 0 \<or> ld_id decl > MAX_LANE_ID
      then Inl (ModuleError (''lane id '' @ show_nat (unat (ld_id decl)) @
             '' out of range: declarable ids are 1..='' @ show_nat (unat MAX_LANE_ID) @
             '' (above that a lane's stream port collides with another's datagram port)''))
      else if \<not> lane_name_is_well_formed (ld_name decl)
      then Inl (ModuleError (''lane name '' @ debug_str (ld_name decl) @ '' is malformed: 1..='' @
             show_nat MAX_LANE_NAME_BYTES @ '' bytes of [a-z0-9_]''))
      else if list_ex (\<lambda>lane. lr_module_id lane = mid \<and> lr_name lane = ld_name decl) table
      then Inl (ModuleError (''module '' @ mid @ '' already declares a lane named '' @
             debug_str (ld_name decl)))
      else case binary_search_by (\<lambda>lane. cmp (lr_id lane) (ld_id decl)) table of
             Inr _ \<Rightarrow> Inl (ModuleError (''lane id '' @ show_nat (unat (ld_id decl)) @
               '' is already declared by module '' @ lane_owner table (ld_id decl)))
           | Inl position \<Rightarrow>
               Inr (vec_insert position
                 \<lparr>lr_id = ld_id decl, lr_module_id = mid, lr_name = ld_name decl,
                  lr_stream = ld_stream decl\<rparr> table))"

fun admit_lanes :: "lane_record list \<Rightarrow> string \<Rightarrow> lane_decl list \<Rightarrow> error + lane_record list" where
  "admit_lanes table mid [] = Inr table"
| "admit_lanes table mid (decl # decls) =
     and_then (admit_lane table mid decl) (\<lambda>table. admit_lanes table mid decls)"

definition store_lanes ::
  "registry_wires \<Rightarrow> 's modules \<Rightarrow> lane_record list \<Rightarrow> 's modules \<times> (error + unit)" where
  "store_lanes W m table =
     store_bounded (rw_lanes W) m LANE_TABLE_KEY table MAX_LANE_TABLE_BYTES ''lane table''"

definition declare_lanes ::
  "'s store_lib \<Rightarrow> registry_wires \<Rightarrow> 's modules \<Rightarrow> string \<Rightarrow> lane_decl list \<Rightarrow>
   's modules \<times> (error + unit)" where
  "declare_lanes L W m mid decls =
     (if decls = [] then (m, Inr ())
      else st_then (m, and_then (lane_table L W m) (\<lambda>table. admit_lanes table mid decls)) (\<lambda>m table.
             store_lanes W m table))"

definition release_lanes ::
  "'s store_lib \<Rightarrow> registry_wires \<Rightarrow> 's modules \<Rightarrow> string \<Rightarrow> 's modules \<times> (error + unit)" where
  "release_lanes L W m mid =
     st_then (m, lane_table L W m) (\<lambda>m before.
       let table = filter (\<lambda>lane. lr_module_id lane \<noteq> mid) before in
       if length table = length before then (m, Inr ()) else store_lanes W m table)"

section \<open>Genesis\<close>

definition modules_seed ::
  "'s store_lib \<Rightarrow> registry_wires \<Rightarrow> 's modules \<Rightarrow> string \<Rightarrow> code_seed \<Rightarrow> 's modules \<times> (error + unit)" where
  "modules_seed L W m mid sd =
     (if length (sd_code_hash sd) \<noteq> CODE_HASH_LEN
      then (m, Inl (Panicked ''genesis code hash must be 32 bytes''))
      else
        st_then (declare_lanes L W m mid (sd_lanes sd)) (\<lambda>m _.
        st_then (m, registry_roster L W m) (\<lambda>m roster.
        st_then (case binary_search roster mid of
                   Inl position \<Rightarrow> store_roster W m (vec_insert position mid roster)
                 | Inr _ \<Rightarrow> (m, Inr ())) (\<lambda>m _.
          (md_store (rw_entry W) m (mod_key mid)
             \<lparr>me_kind = sd_kind sd, me_pending = None,
              me_history = [activation_at 0 (sd_code_hash sd)]\<rparr>, Inr ())))))"

definition md_commit :: "'s store_lib \<Rightarrow> 's modules \<Rightarrow> 's modules \<times> (error + unit)" where
  "md_commit L m = (case staged_commit L (md_staged m) of (st, r) \<Rightarrow> (m\<lparr>md_staged := st\<rparr>, r))"

definition md_abort :: "'s modules \<Rightarrow> 's modules" where
  "md_abort m = m\<lparr>md_staged := staged_abort (md_staged m)\<rparr>"

definition modules_finish_seed :: "'s store_lib \<Rightarrow> 's modules \<Rightarrow> 's modules \<times> (error + unit)" where
  "modules_finish_seed L m =
     st_then (m, staged_get_committed L (md_staged m) MODULE_ROSTER_KEY) (\<lambda>m already.
       if already \<noteq> None then (md_abort m, Inr ()) else md_commit L m)"

fun seed_roster ::
  "'s store_lib \<Rightarrow> registry_wires \<Rightarrow> 's modules \<Rightarrow> (string \<times> code_seed) list \<Rightarrow>
   's modules \<times> (error + unit)" where
  "seed_roster L W m [] = (m, Inr ())"
| "seed_roster L W m ((mid, sd) # rest) =
     (if length (sd_code_hash sd) \<noteq> CODE_HASH_LEN
      then (m, Inl (ModuleError ''initial module code hash must be 32 bytes''))
      else st_then (modules_seed L W m mid sd) (\<lambda>m _. seed_roster L W m rest))"

definition modules_initialize ::
  "'s store_lib \<Rightarrow> registry_wires \<Rightarrow> 's modules \<Rightarrow> bytes \<Rightarrow> 's modules \<times> (error + unit)" where
  "modules_initialize L W m params =
     st_then (m, decode_config params) (\<lambda>m config.
     st_then (m, case config_find config ''modules'' of
                   Some bs \<Rightarrow> map_err ModuleError (wire_decode (rw_seeds W) bs)
                 | None \<Rightarrow> Inr []) (\<lambda>m roster.
     st_then (seed_roster L W m roster) (\<lambda>m _. modules_finish_seed L m)))"

section \<open>Handlers\<close>

definition handle_register_module ::
  "'s store_lib \<Rightarrow> registry_wires \<Rightarrow> 's modules \<Rightarrow> env \<Rightarrow> string \<Rightarrow> kind \<Rightarrow> bytes \<Rightarrow> lane_decl list \<Rightarrow>
   's modules \<times> (error + unit)" where
  "handle_register_module L W m env mid kind code_hash lanes =
     st_then (m, require_governance_or_system m env) (\<lambda>m _.
     st_then (m, require_hash_len code_hash) (\<lambda>m _.
     st_then (m, registry_entry L W m mid) (\<lambda>m existing.
       if existing \<noteq> None
       then (m, Inl (ModuleError (''module '' @ mid @
              '' is already registered (code changes go through ScheduleSwap)'')))
       else
         st_then (declare_lanes L W m mid lanes) (\<lambda>m _.
         st_then (m, registry_roster L W m) (\<lambda>m roster.
           register_entry W m roster mid
             \<lparr>me_kind = kind, me_pending = None,
              me_history = [activation_at (env_height env) code_hash]\<rparr>)))))"

definition lead_floor :: "env \<Rightarrow> u64" where
  "lead_floor env = saturating_add (env_height env) MIN_SWAP_LEAD"

definition lead_error :: "env \<Rightarrow> u64 \<Rightarrow> error" where
  "lead_error env activation_height =
     ModuleError (''activation_height '' @ show_nat (unat activation_height) @
       '' must exceed height+MIN_SWAP_LEAD ('' @ show_nat (unat (lead_floor env)) @ '')'')"

definition fresh_swap :: "string \<Rightarrow> u64 \<Rightarrow> bytes \<Rightarrow> scheduled_swap" where
  "fresh_swap name activation_height code_hash =
     \<lparr>sw_name = name, sw_activation_height = activation_height, sw_code_hash = code_hash,
      sw_readiness = [], sw_ready_at = None\<rparr>"

definition handle_schedule_swap ::
  "'s store_lib \<Rightarrow> registry_wires \<Rightarrow> 's modules \<Rightarrow> env \<Rightarrow> string \<Rightarrow> string \<Rightarrow> u64 \<Rightarrow> bytes \<Rightarrow>
   's modules \<times> (error + unit)" where
  "handle_schedule_swap L W m env name mid activation_height code_hash =
     st_then (m, require_governance_or_system m env) (\<lambda>m _.
     st_then (m, require_hash_len code_hash) (\<lambda>m _.
     st_then (m, registry_entry L W m mid) (\<lambda>m existing.
       case existing of
         None \<Rightarrow> (m, Inl (ModuleError (''cannot schedule a swap for unregistered module '' @ mid)))
       | Some e \<Rightarrow>
           if activation_height \<le> lead_floor env then (m, Inl (lead_error env activation_height))
           else if code_hash = active_code_hash e
           then (m, Inl (ModuleError ''scheduled code_hash equals the active code (no-op swap)''))
           else if (case me_pending e of None \<Rightarrow> False | Some p \<Rightarrow> \<not> stale_at p (env_height env))
           then (m, Inl (ModuleError (''module '' @ mid @
                  '' already has a pending swap (cancel it first)'')))
           else (md_store (rw_entry W) m (mod_key mid)
                   (e\<lparr>me_pending := Some (fresh_swap name activation_height code_hash)\<rparr>), Inr ()))))"

text \<open>The tail of an admission whose id is not live: the entry must be new and the lead observed.\<close>

definition schedule_admission ::
  "'s store_lib \<Rightarrow> registry_wires \<Rightarrow> 's modules \<Rightarrow> env \<Rightarrow> string \<Rightarrow> string \<Rightarrow> u64 \<Rightarrow> code_admission \<Rightarrow>
   's modules \<times> (error + unit)" where
  "schedule_admission L W m env name mid activation_height adm =
     st_then (m, registry_entry L W m mid) (\<lambda>m existing.
       if existing \<noteq> None
       then (m, Inl (ModuleError (''module '' @ mid @
              '' is already registered (code changes go through ScheduleSwap)'')))
       else if activation_height \<le> lead_floor env then (m, Inl (lead_error env activation_height))
       else
         st_then (declare_lanes L W m mid (ca_lanes adm)) (\<lambda>m _.
         st_then (m, registry_roster L W m) (\<lambda>m roster.
           register_entry W m roster mid
             \<lparr>me_kind = ca_kind adm,
              me_pending = Some (fresh_swap name activation_height (ca_code_hash adm)),
              me_history = []\<rparr>)))"

definition handle_schedule_register ::
  "'s store_lib \<Rightarrow> registry_wires \<Rightarrow> 's modules \<Rightarrow> env \<Rightarrow> string \<Rightarrow> string \<Rightarrow> u64 \<Rightarrow> code_admission \<Rightarrow>
   ('s modules \<times> (error + unit)) ctx_m" where
  "handle_schedule_register L W m env name mid activation_height adm =
     (case and_then (require_governance_or_system m env) (\<lambda>_.
           and_then (require_hash_len (ca_code_hash adm)) (\<lambda>_.
             if mid = [] then Inl (ModuleError ''module_id must not be empty'') else Inr ())) of
        Inl e \<Rightarrow> Done (m, Inl e)
      | Inr _ \<Rightarrow>
          AskRoot mid (\<lambda>live. Done
            (if live \<noteq> None
             then (m, Inl (ModuleError (''module id '' @ mid @ '' is already live on this host'')))
             else schedule_admission L W m env name mid activation_height adm)))"

text \<open>The tail of a cancelled admission: the entry, its roster slot and its lanes go away.\<close>

definition withdraw_admission ::
  "'s store_lib \<Rightarrow> registry_wires \<Rightarrow> 's modules \<Rightarrow> string \<Rightarrow> 's modules \<times> (error + unit)" where
  "withdraw_admission L W m mid =
     st_then (m, registry_roster L W m) (\<lambda>m before.
       let roster = (case binary_search before mid of
             Inr position \<Rightarrow> vec_remove position before
           | Inl _ \<Rightarrow> before);
           m1 = (if roster = [] then md_delete m MODULE_ROSTER_KEY
                 else md_store (rw_roster W) m MODULE_ROSTER_KEY roster)
       in release_lanes L W (md_delete m1 (mod_key mid)) mid)"

definition handle_cancel_swap ::
  "'s store_lib \<Rightarrow> registry_wires \<Rightarrow> 's modules \<Rightarrow> env \<Rightarrow> string \<Rightarrow> string \<Rightarrow>
   's modules \<times> (error + unit)" where
  "handle_cancel_swap L W m env name mid =
     st_then (m, require_governance_or_system m env) (\<lambda>m _.
     st_then (m, registry_entry L W m mid) (\<lambda>m existing.
       case existing of
         None \<Rightarrow> (m, Inl (ModuleError (''no such module '' @ mid)))
       | Some e \<Rightarrow>
           (case me_pending e of
              None \<Rightarrow> (m, Inl (ModuleError ''no matching pending swap to cancel''))
            | Some swap \<Rightarrow>
                if sw_name swap \<noteq> name
                then (m, Inl (ModuleError ''no matching pending swap to cancel''))
                else if sw_activation_height swap \<le> env_height env \<and> \<not> stale_at swap (env_height env)
                then (m, Inl (ModuleError ''cannot cancel: activation height already reached''))
                else
                  (let e' = e\<lparr>me_pending := None\<rparr> in
                   if active_code_hash e' = [] then withdraw_admission L W m mid
                   else (md_store (rw_entry W) m (mod_key mid) e', Inr ())))))"

text \<open>The pending swap with the signal of \<open>pubkey\<close> and, on the first cover, the latch.\<close>

definition signal_swap :: "u64 \<Rightarrow> bytes list \<Rightarrow> bytes \<Rightarrow> scheduled_swap \<Rightarrow> scheduled_swap" where
  "signal_swap height mems pubkey swap =
     (let readiness = (case binary_search (sw_readiness swap) pubkey of
            Inl at \<Rightarrow> vec_insert at pubkey (sw_readiness swap)
          | Inr _ \<Rightarrow> sw_readiness swap);
          swap1 = swap\<lparr>sw_readiness := readiness\<rparr>;
          covers = (mems \<noteq> [] \<and>
            list_all (\<lambda>k. case binary_search readiness k of Inr _ \<Rightarrow> True | Inl _ \<Rightarrow> False) mems)
      in if covers \<and> sw_ready_at swap1 = None \<and> \<not> stale_at swap1 height
         then swap1\<lparr>sw_ready_at := Some height\<rparr> else swap1)"

definition credit_signal ::
  "'s store_lib \<Rightarrow> registry_wires \<Rightarrow> 's modules \<Rightarrow> u64 \<Rightarrow> bytes list \<Rightarrow> bytes \<Rightarrow> string \<Rightarrow> string \<Rightarrow> bytes \<Rightarrow>
   's modules \<times> (error + unit)" where
  "credit_signal L W m height mems pubkey name mid code_hash =
     (if pubkey \<notin> set mems
      then (m, Inl (ModuleError ''SwapReady submitter is not a current validator-set member''))
      else
        st_then (m, registry_entry L W m mid) (\<lambda>m existing.
          case existing of
            None \<Rightarrow> (m, Inl (ModuleError (''no such module '' @ mid)))
          | Some e \<Rightarrow>
              (case me_pending e of
                 None \<Rightarrow> (m, Inl (ModuleError
                   ''SwapReady does not match the pending swap (name/module/code_hash)''))
               | Some swap \<Rightarrow>
                   if sw_name swap = name \<and> sw_code_hash swap = code_hash
                   then (md_store (rw_entry W) m (mod_key mid)
                           (e\<lparr>me_pending := Some (signal_swap height mems pubkey swap)\<rparr>), Inr ())
                   else (m, Inl (ModuleError
                     ''SwapReady does not match the pending swap (name/module/code_hash)'')))))"

definition handle_swap_ready ::
  "'s store_lib \<Rightarrow> registry_wires \<Rightarrow> 's modules \<Rightarrow> env \<Rightarrow> string \<Rightarrow> string \<Rightarrow> bytes \<Rightarrow>
   ('s modules \<times> (error + unit)) ctx_m" where
  "handle_swap_ready L W m env name mid code_hash =
     (case env_origin env of
        External pubkey \<Rightarrow>
          ctx_bind (members (rw_valset W) (md_valset_id m)) (\<lambda>answer.
            (case answer of
               Inl e \<Rightarrow> Done (m, Inl e)
             | Inr mems \<Rightarrow> Done (credit_signal L W m (env_height env) mems pubkey name mid code_hash)))
      | other \<Rightarrow>
          Done (m, Inl (ModuleError (''SwapReady requires an external validator submitter, got '' @
            debug_origin other))))"

section \<open>The boundary tick\<close>

text \<open>The arm set, decided over committed records.\<close>

fun armed_swaps ::
  "'s store_lib \<Rightarrow> registry_wires \<Rightarrow> 's modules \<Rightarrow> u64 \<Rightarrow> string list \<Rightarrow> error + string list" where
  "armed_swaps L W m height [] = Inr []"
| "armed_swaps L W m height (mid # ids) =
     and_then (md_load_committed L (rw_entry W) m (mod_key mid)) (\<lambda>e.
     and_then (armed_swaps L W m height ids) (\<lambda>rest.
       Inr (if (case Option.bind e me_pending of None \<Rightarrow> False | Some p \<Rightarrow> armed_at p height)
            then mid # rest else rest)))"

fun flip_swaps ::
  "'s store_lib \<Rightarrow> registry_wires \<Rightarrow> 's modules \<Rightarrow> u64 \<Rightarrow> string list \<Rightarrow> 's modules \<times> (error + unit)" where
  "flip_swaps L W m height [] = (m, Inr ())"
| "flip_swaps L W m height (mid # ids) =
     st_then (m, rostered_entry L W m mid) (\<lambda>m e.
       case me_pending e of
         None \<Rightarrow> flip_swaps L W m height ids
       | Some swap \<Rightarrow>
           flip_swaps L W
             (md_store (rw_entry W) m (mod_key mid)
                (e\<lparr>me_pending := None,
                  me_history := me_history e @ [activation_at height (sw_code_hash swap)]\<rparr>))
             height ids)"

definition handle_advance ::
  "'s store_lib \<Rightarrow> registry_wires \<Rightarrow> 's modules \<Rightarrow> env \<Rightarrow> 's modules \<times> (error + unit)" where
  "handle_advance L W m env =
     st_then (m, require_system env) (\<lambda>m _.
     st_then (m, md_load_committed L (rw_roster W) m MODULE_ROSTER_KEY) (\<lambda>m roster.
     st_then (m, armed_swaps L W m (env_height env)
                   (case roster of None \<Rightarrow> [] | Some roster \<Rightarrow> roster)) (\<lambda>m armed.
       if armed = [] then (m, Inr ()) else flip_swaps L W m (env_height env) armed)))"

section \<open>Queries\<close>

definition code_of :: "string \<Rightarrow> module_entry \<Rightarrow> module_code" where
  "code_of mid e =
     \<lparr>mc_module_id = mid, mc_kind = me_kind e, mc_active_code_hash = active_code_hash e,
      mc_pending = me_pending e, mc_history = me_history e\<rparr>"

fun status_loop ::
  "'s store_lib \<Rightarrow> registry_wires \<Rightarrow> 's modules \<Rightarrow> string list \<Rightarrow> error + module_code list" where
  "status_loop L W m [] = Inr []"
| "status_loop L W m (mid # ids) =
     and_then (rostered_entry L W m mid) (\<lambda>e.
     and_then (status_loop L W m ids) (\<lambda>rest. Inr (code_of mid e # rest)))"

definition status_reply :: "'s store_lib \<Rightarrow> registry_wires \<Rightarrow> 's modules \<Rightarrow> error + modules_reply" where
  "status_reply L W m =
     and_then (registry_roster L W m) (\<lambda>roster.
     and_then (status_loop L W m roster) (\<lambda>codes. Inr (MrModuleStatus codes)))"

fun armed_loop ::
  "'s store_lib \<Rightarrow> registry_wires \<Rightarrow> 's modules \<Rightarrow> u64 \<Rightarrow> string list \<Rightarrow> error + armed_swap list" where
  "armed_loop L W m height [] = Inr []"
| "armed_loop L W m height (mid # ids) =
     and_then (rostered_entry L W m mid) (\<lambda>e.
     and_then (armed_loop L W m height ids) (\<lambda>rest.
       Inr (case me_pending e of
              None \<Rightarrow> rest
            | Some p \<Rightarrow>
                if armed_at p height
                then \<lparr>as_module_id = mid, as_code_hash = sw_code_hash p\<rparr> # rest
                else rest)))"

definition armed_reply :: "'s store_lib \<Rightarrow> registry_wires \<Rightarrow> 's modules \<Rightarrow> u64 \<Rightarrow> error + modules_reply" where
  "armed_reply L W m height =
     and_then (registry_roster L W m) (\<lambda>roster.
     and_then (armed_loop L W m height roster) (\<lambda>swaps. Inr (MrArmedAt swaps)))"

definition lanes_reply :: "'s store_lib \<Rightarrow> registry_wires \<Rightarrow> 's modules \<Rightarrow> error + modules_reply" where
  "lanes_reply L W m = and_then (lane_table L W m) (\<lambda>table. Inr (MrLanes table))"

section \<open>The module trait\<close>

fun modules_handle ::
  "'s store_lib \<Rightarrow> registry_wires \<Rightarrow> 's modules \<Rightarrow> env \<Rightarrow> modules_msg \<Rightarrow>
   ('s modules \<times> (error + unit)) ctx_m" where
  "modules_handle L W m env (RegisterModule mid kind code_hash lanes) =
     Done (handle_register_module L W m env mid kind code_hash lanes)"
| "modules_handle L W m env (ScheduleSwap name mid height code_hash) =
     Done (handle_schedule_swap L W m env name mid height code_hash)"
| "modules_handle L W m env (ScheduleRegister name mid kind height code_hash lanes) =
     handle_schedule_register L W m env name mid height
       \<lparr>ca_kind = kind, ca_code_hash = code_hash, ca_lanes = lanes\<rparr>"
| "modules_handle L W m env (CancelSwap name mid) = Done (handle_cancel_swap L W m env name mid)"
| "modules_handle L W m env (SwapReady name mid code_hash) =
     handle_swap_ready L W m env name mid code_hash"
| "modules_handle L W m env Advance = Done (handle_advance L W m env)"

definition modules_execute ::
  "'s store_lib \<Rightarrow> registry_wires \<Rightarrow> 's modules \<Rightarrow> env \<Rightarrow> msg \<Rightarrow> 's modules dispatch_out ctx_m" where
  "modules_execute L W m env msg =
     (case map_err ModuleError (wire_decode (mw_msg (rw_wire W)) (msg_payload msg)) of
        Inl e \<Rightarrow> Done (quiet_out m (Inl e))
      | Inr op \<Rightarrow> map_ctx_m (\<lambda>(m', r). quiet_out m' r) (modules_handle L W m env op))"

definition modules_query :: "'s store_lib \<Rightarrow> registry_wires \<Rightarrow> 's modules \<Rightarrow> bytes \<Rightarrow> error + bytes" where
  "modules_query L W m req =
     and_then (map_err ModuleError (wire_decode (mw_query (rw_wire W)) req)) (\<lambda>q.
     and_then (case q of
                 MqModuleStatus \<Rightarrow> status_reply L W m
               | MqArmedAt height \<Rightarrow> armed_reply L W m height
               | MqLanes \<Rightarrow> lanes_reply L W m) (\<lambda>reply.
       Inr (wire_encode (mw_reply (rw_wire W)) reply)))"

definition modules_commit_block :: "'s store_lib \<Rightarrow> 's modules \<Rightarrow> 's modules \<times> (error + unit)" where
  "modules_commit_block L m = md_commit L m"

definition modules_abort_block :: "'s modules \<Rightarrow> 's modules \<times> (error + unit)" where
  "modules_abort_block m = (md_abort m, Inr ())"

definition modules_root :: "'s store_lib \<Rightarrow> 's modules \<Rightarrow> state_root" where
  "modules_root L m = staged_root L (md_staged m)"

definition modules_ops :: "'s store_lib \<Rightarrow> registry_wires \<Rightarrow> 's modules module_ops" where
  "modules_ops L W =
     \<lparr>mod_id = md_id,
      mod_root = modules_root L,
      mod_execute = modules_execute L W,
      mod_acknowledge = default_acknowledge,
      mod_query = (\<lambda>m _ req. Done (modules_query L W m req)),
      mod_pending_items = default_pending_items,
      mod_commit_block = modules_commit_block L,
      mod_abort_block = modules_abort_block,
      mod_code_hash = (\<lambda>_. None),
      mod_prepare_swap = default_prepare_swap\<rparr>"

section \<open>Staging contract\<close>

lemma md_abort_writes [simp]:
  "md_abort (md_store F m k v) = md_abort m"
  "md_abort (md_delete m k) = md_abort m"
  "md_abort (fst (store_bounded F m k v cap what)) = md_abort m"
  by (simp_all add: md_abort_def md_store_def md_delete_def store_bounded_def stage_def
      stage_delete_def staged_abort_def Let_def)

lemma md_abort_tables [simp]:
  "md_abort (fst (store_roster W m roster)) = md_abort m"
  "md_abort (fst (store_lanes W m table)) = md_abort m"
  by (simp_all add: store_roster_def store_lanes_def)

lemmas md_inv = st_then_inv [where P = "\<lambda>m'. md_abort m' = md_abort m" for m]

lemma md_abort_helpers [simp]:
  "md_abort (fst (register_entry W m roster mid e)) = md_abort m"
  "md_abort (fst (declare_lanes L W m mid decls)) = md_abort m"
  "md_abort (fst (release_lanes L W m mid)) = md_abort m"
  by (auto simp: register_entry_def declare_lanes_def release_lanes_def Let_def intro!: md_inv
      split: sum.split)

lemma md_abort_flip: "md_abort (fst (flip_swaps L W m height ids)) = md_abort m"
proof (induction ids arbitrary: m)
  case (Cons mid ids)
  then show ?case by (auto intro!: md_inv split: option.split)
qed simp

text \<open>The two handlers that ask their context.\<close>

lemma schedule_register_leaf:
  assumes "ctx_leaf (handle_schedule_register L W m env name mid height adm) p"
  shows "(\<exists>e. p = (m, Inl e)) \<or>
     (require_governance_or_system m env = Inr () \<and> require_hash_len (ca_code_hash adm) = Inr () \<and>
      p = schedule_admission L W m env name mid height adm)"
proof -
  obtain v where v: "and_then (require_governance_or_system m env) (\<lambda>_.
      and_then (require_hash_len (ca_code_hash adm)) (\<lambda>_.
        if mid = [] then Inl (ModuleError ''module_id must not be empty'') else Inr ())) = v"
    by blast
  then show ?thesis
    using assms by (cases v) (auto simp: handle_schedule_register_def and_then_eq_Inr split: if_splits)
qed

lemma swap_ready_leaf:
  assumes "ctx_leaf (handle_swap_ready L W m env name mid hash) p"
  shows "(\<exists>e. p = (m, Inl e)) \<or>
     (\<exists>pubkey mems. env_origin env = External pubkey \<and>
        ctx_leaf (members (rw_valset W) (md_valset_id m)) (Inr mems) \<and>
        p = credit_signal L W m (env_height env) mems pubkey name mid hash)"
proof (cases "env_origin env")
  case (External pubkey)
  then obtain a where a: "ctx_leaf (members (rw_valset W) (md_valset_id m)) a"
    "ctx_leaf (case a of Inl e \<Rightarrow> Done (m, Inl e)
       | Inr mems \<Rightarrow> Done (credit_signal L W m (env_height env) mems pubkey name mid hash)) p"
    using assms by (auto simp: handle_swap_ready_def ctx_leaf_bind)
  then show ?thesis using External by (cases a) auto
qed (use assms in \<open>auto simp: handle_swap_ready_def\<close>)

lemma md_abort_credit [simp]: "md_abort (fst (credit_signal L W m h mems k name mid hash)) = md_abort m"
  and md_abort_admission [simp]: "md_abort (fst (schedule_admission L W m env name mid height adm)) = md_abort m"
  and md_abort_withdraw [simp]: "md_abort (fst (withdraw_admission L W m mid)) = md_abort m"
  by (auto simp: credit_signal_def schedule_admission_def withdraw_admission_def Let_def intro!: md_inv
      split: option.split)

lemma md_abort_handle: "ctx_leaf (modules_handle L W m env op) p \<Longrightarrow> md_abort (fst p) = md_abort m"
proof (cases op)
  case (ScheduleRegister name mid kind height hash lanes)
  then show "ctx_leaf (modules_handle L W m env op) p \<Longrightarrow> ?thesis"
    using schedule_register_leaf [of L W m env] by fastforce
next
  case (SwapReady name mid hash)
  then show "ctx_leaf (modules_handle L W m env op) p \<Longrightarrow> ?thesis"
    using swap_ready_leaf [of L W m env] by fastforce
qed (auto simp: handle_register_module_def handle_schedule_swap_def handle_cancel_swap_def
      handle_advance_def Let_def md_abort_flip intro!: md_inv split: option.split)

lemma modules_execute_leaf:
  assumes "ctx_leaf (modules_execute L W m env msg) out"
  shows "out_module out = m \<or>
     (\<exists>op p. wire_decode (mw_msg (rw_wire W)) (msg_payload msg) = Inr op \<and>
        ctx_leaf (modules_handle L W m env op) p \<and> out_module out = fst p \<and> out_result out = snd p)"
  using assms
  by (cases "wire_decode (mw_msg (rw_wire W)) (msg_payload msg)")
    (auto simp: modules_execute_def ctx_leaf_map quiet_out_def split: prod.splits)

interpretation modules_laws: module_laws "modules_ops L W" md_abort for L W
proof
  fix m :: "'a modules" and env msg
  show "ctx_all (\<lambda>out. md_abort (out_module out) = md_abort m) (mod_execute (modules_ops L W) m env msg)"
    unfolding ctx_all_leaf modules_ops_def using modules_execute_leaf md_abort_handle
    by (metis module_ops.select_convs(3))
qed (auto simp: modules_ops_def modules_abort_block_def modules_root_def staged_root_def
    md_abort_def staged_abort_def default_acknowledge_def)

end
