(* ===== verification/Registry_Blocks.thy ===== *)
theory Registry_Blocks
  imports Code_Registry Valset_Window Host_Dispatch
begin

text \<open>
  What the modules registry promises over the blocks of a chain. Its records refine an abstract
  registry, a map from module ids to entries with a lane table; every successful operation is one of
  the rules of \<open>code_op\<close>, and a block is a sequence of operations, the boundary tick when a swap is
  armed, and the commit.

  The properties: the code designated for a block stays designated for it in every later state of the
  registry, an armed swap is activated at its boundary whatever the block did before, a swap arms only
  after every member of the validator set signalled its very hash, and the lanes are unique.
\<close>

section \<open>The abstract registry\<close>

type_synonym entries = "string \<rightharpoonup> module_entry"

text \<open>What is armed for a height, and what is designated for it.\<close>

definition armed_in :: "entries \<Rightarrow> u64 \<Rightarrow> string \<Rightarrow> bytes option" where
  "armed_in E h i =
     Option.bind (E i) (\<lambda>e. Option.bind (me_pending e) (\<lambda>p.
       if armed_at p h then Some (sw_code_hash p) else None))"

definition code_for :: "entries \<Rightarrow> u64 \<Rightarrow> string \<Rightarrow> bytes option" where
  "code_for E h i = Option.bind (E i) (\<lambda>e. code_at (code_of i e) h)"

definition seat_in :: "activation list \<Rightarrow> u64 \<Rightarrow> bytes option" where
  "seat_in hist h =
     map_option act_code_hash
       (case find (\<lambda>a. act_height a \<le> h) (rev hist) of
          Some a \<Rightarrow> Some a
        | None \<Rightarrow> (case hist of [] \<Rightarrow> None | a # _ \<Rightarrow> Some a))"

lemma code_for_eq:
  "code_for E h i =
     (case armed_in E h i of
        Some c \<Rightarrow> Some c
      | None \<Rightarrow> Option.bind (E i) (\<lambda>e. seat_in (me_history e) h))"
proof (cases "E i")
  case (Some e)
  then show ?thesis
    by (cases "me_pending e")
      (auto simp: code_for_def armed_in_def code_at_def code_of_def seat_in_def Let_def
        split: option.split)
qed (simp add: code_for_def armed_in_def)

lemma seat_in_append:
  assumes "seat_in hist h = Some c" and "h < h'"
  shows "seat_in (hist @ [activation_at h' d]) h = Some c"
  using assms by (cases hist) (auto simp: seat_in_def activation_at_def split: option.splits)

lemma seat_in_last: "seat_in (hist @ [activation_at h d]) h = Some d"
  by (simp add: seat_in_def activation_at_def)

definition settled :: "entries \<Rightarrow> u64 \<Rightarrow> bool" where
  "settled E h \<longleftrightarrow> (\<forall>i. armed_in E h i = None)"

text \<open>A successful operation of a block at height \<open>h\<close>, apart from the boundary tick.\<close>

inductive code_op ::
  "u64 \<Rightarrow> entries \<times> lane_record list \<Rightarrow> entries \<times> lane_record list \<Rightarrow> bool" for h where
  op_register:
    "E i = None \<Longrightarrow> admit_lanes T i decls = Inr T' \<Longrightarrow> length c = CODE_HASH_LEN \<Longrightarrow>
     code_op h (E, T) (E(i \<mapsto> \<lparr>me_kind = k, me_pending = None, me_history = [activation_at h c]\<rparr>), T')"
| op_admit:
    "E i = None \<Longrightarrow> admit_lanes T i decls = Inr T' \<Longrightarrow> length c = CODE_HASH_LEN \<Longrightarrow> h < height \<Longrightarrow>
     code_op h (E, T)
       (E(i \<mapsto> \<lparr>me_kind = k, me_pending = Some (fresh_swap name height c), me_history = []\<rparr>), T')"
| op_schedule:
    "E i = Some e \<Longrightarrow> (\<And>p. me_pending e = Some p \<Longrightarrow> stale_at p h) \<Longrightarrow>
     length c = CODE_HASH_LEN \<Longrightarrow> h < height \<Longrightarrow>
     code_op h (E, T) (E(i \<mapsto> e\<lparr>me_pending := Some (fresh_swap name height c)\<rparr>), T)"
| op_cancel:
    "E i = Some e \<Longrightarrow> me_pending e = Some p \<Longrightarrow> h < sw_activation_height p \<or> stale_at p h \<Longrightarrow>
     code_op h (E, T) (E(i \<mapsto> e\<lparr>me_pending := None\<rparr>), T)"
| op_withdraw:
    "E i = Some e \<Longrightarrow> me_pending e = Some p \<Longrightarrow> h < sw_activation_height p \<or> stale_at p h \<Longrightarrow>
     me_history e = [] \<Longrightarrow>
     code_op h (E, T) (E(i := None), filter (\<lambda>lane. lr_module_id lane \<noteq> i) T)"
| op_signal:
    "E i = Some e \<Longrightarrow> me_pending e = Some p \<Longrightarrow> key \<in> set mems \<Longrightarrow>
     code_op h (E, T) (E(i \<mapsto> e\<lparr>me_pending := Some (signal_swap h mems key p)\<rparr>), T)"

text \<open>Every recorded hash has the length of a digest.\<close>

definition hashes_ok :: "entries \<Rightarrow> bool" where
  "hashes_ok E \<longleftrightarrow>
     (\<forall>i e. E i = Some e \<longrightarrow> (\<forall>a\<in>set (me_history e). act_code_hash a \<noteq> []) \<and>
        (\<forall>p. me_pending e = Some p \<longrightarrow> sw_code_hash p \<noteq> []))"

text \<open>The boundary tick flips the swaps that are armed in the frozen entries \<open>C\<close>.\<close>

definition flip_entry :: "u64 \<Rightarrow> module_entry \<Rightarrow> module_entry" where
  "flip_entry h e =
     (case me_pending e of
        None \<Rightarrow> e
      | Some p \<Rightarrow>
          e\<lparr>me_pending := None, me_history := me_history e @ [activation_at h (sw_code_hash p)]\<rparr>)"

definition flip_armed :: "u64 \<Rightarrow> string set \<Rightarrow> entries \<Rightarrow> entries" where
  "flip_armed h A E = (\<lambda>i. if i \<in> A then map_option (flip_entry h) (E i) else E i)"

section \<open>Operations and designations\<close>

lemma armed_not_fresh [simp]: "\<not> armed_at (fresh_swap name height c) h"
  by (simp add: armed_at_def fresh_swap_def)

lemma armed_not_pending: "h < sw_activation_height p \<or> stale_at p h \<Longrightarrow> K \<le> h \<Longrightarrow> \<not> armed_at p K"
  by (auto simp: armed_at_def stale_at_def split: option.splits)

lemma signal_swap_fields [simp]:
  "sw_code_hash (signal_swap h mems key p) = sw_code_hash p"
  "sw_activation_height (signal_swap h mems key p) = sw_activation_height p"
  "sw_name (signal_swap h mems key p) = sw_name p"
  by (simp_all add: signal_swap_def Let_def)

lemma signal_swap_ready_at:
  "sw_ready_at (signal_swap h mems key p) = sw_ready_at p \<or>
   sw_ready_at p = None \<and> sw_ready_at (signal_swap h mems key p) = Some h"
  by (simp add: signal_swap_def Let_def)

lemma armed_signal: "K \<le> h \<Longrightarrow> armed_at (signal_swap h mems key p) K = armed_at p K"
  using signal_swap_ready_at [of h mems key p] by (auto simp: armed_at_def split: option.splits)

text \<open>No operation of block \<open>h\<close> arms or disarms a swap for a block up to \<open>h\<close>.\<close>

lemma code_op_armed:
  assumes "code_op h s s'" and "K \<le> h"
  shows "armed_in (fst s') K i = armed_in (fst s) K i"
  using assms
proof cases
  case (op_schedule E j e c height T name)
  then have "armed_in E K j = None"
    using armed_not_pending [of h _ K] assms(2) by (cases "me_pending e") (auto simp: armed_in_def)
  with op_schedule show ?thesis by (auto simp: armed_in_def)
next
  case (op_cancel E j e p T)
  then have "\<not> armed_at p K" using armed_not_pending assms(2) by blast
  with op_cancel show ?thesis by (auto simp: armed_in_def)
next
  case (op_withdraw E j e p T)
  then have "\<not> armed_at p K" using armed_not_pending assms(2) by blast
  with op_withdraw show ?thesis by (auto simp: armed_in_def)
next
  case (op_signal E j e p key mems T)
  with assms(2) show ?thesis by (auto simp: armed_in_def armed_signal)
qed (auto simp: armed_in_def)

text \<open>Nor does it touch a history; an entry that goes away never had one.\<close>

lemma code_op_history:
  assumes "code_op h s s'" and "fst s i = Some e"
  shows "(\<exists>e'. fst s' i = Some e' \<and> me_history e' = me_history e) \<or>
         (fst s' i = None \<and> me_history e = [])"
  using assms by cases auto

lemma code_op_code:
  assumes "code_op h s s'" and "K \<le> h" and "code_for (fst s) K i = Some c"
  shows "code_for (fst s') K i = Some c"
proof (cases "armed_in (fst s) K i")
  case None
  then obtain e where e: "fst s i = Some e" "seat_in (me_history e) K = Some c"
    using assms(3) by (auto simp: code_for_eq bind_eq_Some_conv)
  then have "me_history e \<noteq> []" by (auto simp: seat_in_def)
  then show ?thesis
    using e code_op_history [OF assms(1) e(1)] code_op_armed [OF assms(1,2), of i] None
    by (auto simp: code_for_eq)
next
  case (Some d)
  then show ?thesis
    using assms(3) code_op_armed [OF assms(1,2), of i] by (simp add: code_for_eq)
qed

lemma code_ops_armed:
  assumes "(code_op h)\<^sup>*\<^sup>* s s'" and "K \<le> h"
  shows "armed_in (fst s') K i = armed_in (fst s) K i"
  using assms(1) by induction (simp_all add: code_op_armed [OF _ assms(2)])

lemma code_ops_code:
  assumes "(code_op h)\<^sup>*\<^sup>* s s'" and "K \<le> h" and "code_for (fst s) K i = Some c"
  shows "code_for (fst s') K i = Some c"
  using assms(1,3) by induction (simp_all add: code_op_code [OF _ assms(2)])

lemma code_ops_history:
  assumes "(code_op h)\<^sup>*\<^sup>* s s'" and "fst s i = Some e" and "fst s' i = Some e'" and "armed_in (fst s) h i \<noteq> None"
  shows "me_history e' = me_history e"
  using assms(1,3)
proof (induction arbitrary: e' rule: rtranclp_induct)
  case base
  then show ?case using assms(2) by simp
next
  case (step s1 s2)
  have "armed_in (fst s1) h i \<noteq> None" using code_ops_armed [OF step.hyps(1), of h i] assms(4) by simp
  then obtain e1 where "fst s1 i = Some e1" by (auto simp: armed_in_def bind_eq_Some_conv)
  with code_op_history [OF step.hyps(2) this] step.IH [OF this] step.prems show ?case by auto
qed

section \<open>The boundary tick and designations\<close>

definition armed_ids :: "entries \<Rightarrow> u64 \<Rightarrow> string set" where
  "armed_ids E h = {i. armed_in E h i \<noteq> None}"

lemma flip_armed_in:
  "armed_in (flip_armed h A E) K i = (if i \<in> A then None else armed_in E K i)"
proof (cases "E i")
  case (Some e)
  then show ?thesis by (cases "me_pending e") (auto simp: armed_in_def flip_armed_def flip_entry_def)
qed (simp add: armed_in_def flip_armed_def)

text \<open>The tick records for its own block what was designated for it, and moves no earlier block.\<close>

lemma flip_armed_code:
  assumes "A = armed_ids E h" and "K = h \<or> (K < h \<and> settled E K)" and "code_for E K i = Some c"
  shows "code_for (flip_armed h A E) K i = Some c"
proof (cases "i \<in> A")
  case False
  then have "flip_armed h A E i = E i" by (simp add: flip_armed_def)
  with False show ?thesis
    using assms(3) by (cases "armed_in E K i") (simp_all add: code_for_eq flip_armed_in)
next
  case True
  then obtain e p where e: "E i = Some e" "me_pending e = Some p" "armed_at p h"
    using assms(1) by (auto simp: armed_ids_def armed_in_def split: bind_splits if_splits)
  have after: "code_for (flip_armed h A E) K i = seat_in (me_history e @ [activation_at h (sw_code_hash p)]) K"
  proof -
    have "armed_in (flip_armed h A E) K i = None" using True by (simp add: flip_armed_in)
    with True e show ?thesis by (simp add: code_for_eq) (simp add: flip_armed_def flip_entry_def)
  qed
  from assms(2) show ?thesis
  proof
    assume "K = h"
    then show ?thesis using after e assms(3) by (simp add: seat_in_last code_for_eq armed_in_def)
  next
    assume "K < h \<and> settled E K"
    then show ?thesis
      using after e assms(3) seat_in_append [of "me_history e" K c h]
      by (auto simp: code_for_eq settled_def)
  qed
qed

text \<open>One block of the abstract registry.\<close>

definition code_block ::
  "u64 \<Rightarrow> entries \<times> lane_record list \<Rightarrow> entries \<times> lane_record list \<Rightarrow> bool" where
  "code_block h s s' \<longleftrightarrow>
     (\<exists>E T. (code_op h)\<^sup>*\<^sup>* s (E, T) \<and> s' = (flip_armed h (armed_ids (fst s) h) E, T))"

lemma code_block_settles:
  assumes "code_block h s s'"
  shows "settled (fst s') h" and "K < h \<Longrightarrow> settled (fst s) K \<Longrightarrow> settled (fst s') K"
proof -
  obtain E T where run: "(code_op h)\<^sup>*\<^sup>* s (E, T)" and s': "s' = (flip_armed h (armed_ids (fst s) h) E, T)"
    using assms unfolding code_block_def by blast
  note armed = code_ops_armed [OF run, unfolded fst_conv]
  show "settled (fst s') h"
    using armed [of h] by (auto simp: settled_def s' flip_armed_in armed_ids_def)
  show "settled (fst s') K" if "K < h" "settled (fst s) K"
    using that armed [of K] by (auto simp: settled_def s' flip_armed_in)
qed

lemma code_block_code:
  assumes "code_block h s s'" and "K = h \<or> (K < h \<and> settled (fst s) K)" and "code_for (fst s) K i = Some c"
  shows "code_for (fst s') K i = Some c"
proof -
  obtain E T where run: "(code_op h)\<^sup>*\<^sup>* s (E, T)" and s': "s' = (flip_armed h (armed_ids (fst s) h) E, T)"
    using assms(1) unfolding code_block_def by blast
  note armed = code_ops_armed [OF run, unfolded fst_conv]
  have A: "armed_ids (fst s) h = armed_ids E h"
    by (simp add: armed_ids_def armed)
  have "K = h \<or> (K < h \<and> settled E K)"
    using assms(2) armed [of K] by (auto simp: settled_def)
  moreover have "code_for E K i = Some c"
    using code_ops_code [OF run _ assms(3)] assms(2) by auto
  ultimately show ?thesis using flip_armed_code [OF A] by (simp add: s')
qed

section \<open>The stored registry\<close>

definition REG_KEYS :: "bytes set" where
  "REG_KEYS = {MODULE_ROSTER_KEY, LANE_TABLE_KEY} \<union> range mod_key"

lemma mod_key_inj [simp]: "mod_key i = mod_key j \<longleftrightarrow> i = j"
  by (simp add: mod_key_def as_bytes_inj)

lemma reg_keys_distinct [simp]:
  "MODULE_ROSTER_KEY \<noteq> LANE_TABLE_KEY" "LANE_TABLE_KEY \<noteq> MODULE_ROSTER_KEY"
  "mod_key i \<noteq> MODULE_ROSTER_KEY" "MODULE_ROSTER_KEY \<noteq> mod_key i"
  "mod_key i \<noteq> LANE_TABLE_KEY" "LANE_TABLE_KEY \<noteq> mod_key i"
  by (auto simp: MODULE_ROSTER_KEY_def LANE_TABLE_KEY_def mod_key_def as_bytes_def)

lemma reg_keys_in [simp, intro]:
  "MODULE_ROSTER_KEY \<in> REG_KEYS" "LANE_TABLE_KEY \<in> REG_KEYS" "mod_key i \<in> REG_KEYS"
  by (auto simp: REG_KEYS_def)

text \<open>The records \<open>f\<close> hold the entries \<open>E\<close> and the lanes \<open>T\<close>.\<close>

definition registry_at ::
  "registry_wires \<Rightarrow> (bytes \<rightharpoonup> bytes) \<Rightarrow> entries \<Rightarrow> lane_record list \<Rightarrow> bool" where
  "registry_at W f E T \<longleftrightarrow>
     finite (dom E) \<and>
     f MODULE_ROSTER_KEY =
       (if dom E = {} then None else Some (to_vec (rw_roster W) (sorted_list_of_set (dom E)))) \<and>
     (\<forall>i. f (mod_key i) = map_option (to_vec (rw_entry W)) (E i)) \<and>
     (case f LANE_TABLE_KEY of None \<Rightarrow> T = [] | Some b \<Rightarrow> b = to_vec (rw_lanes W) T)"

definition registry_borsh :: "registry_wires \<Rightarrow> bool" where
  "registry_borsh W \<longleftrightarrow>
     round_trips_on UNIV (rw_roster W) \<and> round_trips_on UNIV (rw_entry W) \<and> round_trips_on UNIV (rw_lanes W)"

abbreviation md_visible ::
  "('s \<Rightarrow> bytes \<rightharpoonup> bytes) \<Rightarrow> 's store_lib \<Rightarrow> 's modules \<Rightarrow> bytes \<rightharpoonup> bytes" where
  "md_visible view L m \<equiv> visible view L (md_staged m)"

abbreviation md_committed ::
  "('s \<Rightarrow> bytes \<rightharpoonup> bytes) \<Rightarrow> 's store_lib \<Rightarrow> 's modules \<Rightarrow> bytes \<rightharpoonup> bytes" where
  "md_committed view L m \<equiv> committed view L (md_staged m)"

lemma registry_at_entry:
  assumes "registry_at W f E T" and "i \<in> dom E"
  shows "registry_at W (f(mod_key i \<mapsto> to_vec (rw_entry W) e)) (E(i \<mapsto> e)) T"
proof -
  have "dom (E(i \<mapsto> e)) = dom E" using assms(2) by auto
  with assms(1) show ?thesis by (simp add: registry_at_def dom_def)
qed

lemma registry_at_new:
  assumes "registry_at W f E T" and "i \<notin> dom E"
  shows "registry_at W
           (f(MODULE_ROSTER_KEY \<mapsto> to_vec (rw_roster W) (insort i (sorted_list_of_set (dom E))),
              mod_key i \<mapsto> to_vec (rw_entry W) e)) (E(i \<mapsto> e)) T"
  using assms by (simp add: registry_at_def)

lemma registry_at_gone:
  assumes "registry_at W f E T"
  shows "registry_at W
           (f(MODULE_ROSTER_KEY := (if dom E - {i} = {} then None
                else Some (to_vec (rw_roster W) (remove1 i (sorted_list_of_set (dom E))))),
              mod_key i := None)) (E(i := None)) T"
  using assms by (simp add: registry_at_def sorted_list_of_set.sorted_key_list_of_set_remove)

lemma registry_at_lanes:
  "registry_at W f E T \<Longrightarrow> registry_at W (f(LANE_TABLE_KEY \<mapsto> to_vec (rw_lanes W) T')) E T'"
  by (simp add: registry_at_def)

lemma st_then_success:
  "st_then p k = (m', Inr y) \<longleftrightarrow> (\<exists>m1 a. p = (m1, Inr a) \<and> k m1 a = (m', Inr y))"
  by (cases p; cases "snd p") (auto simp: st_then_def)

lemma roster_insert:
  "finite A \<Longrightarrow> i \<notin> A \<Longrightarrow>
   vec_insert (rank (sorted_list_of_set A) i) i (sorted_list_of_set A) = insort i (sorted_list_of_set A)"
  using sorted_vec_insert [OF strict_sorted_list_of_set, of i A] strict_sorted_list_of_set [of "insert i A"]
  by (intro strict_sorted_equal) (simp_all add: set_insort_key)

lemma roster_remove:
  assumes "finite A" and "i \<in> A"
  shows "vec_remove (rank (sorted_list_of_set A) i) (sorted_list_of_set A) = remove1 i (sorted_list_of_set A)"
proof (rule strict_sorted_equal)
  show "sorted_wrt (<) (vec_remove (rank (sorted_list_of_set A) i) (sorted_list_of_set A))"
    by (rule sorted_vec_remove) simp
  show "sorted_wrt (<) (remove1 i (sorted_list_of_set A))"
    using strict_sorted_list_of_set [of "A - {i}"] assms(1)
    by (simp add: sorted_list_of_set.sorted_key_list_of_set_remove)
  show "set (vec_remove (rank (sorted_list_of_set A) i) (sorted_list_of_set A)) = set (remove1 i (sorted_list_of_set A))"
    using set_vec_remove [OF strict_sorted_list_of_set, of i A] assms by simp
qed

definition registry_holds ::
  "('s \<Rightarrow> bytes \<rightharpoonup> bytes) \<Rightarrow> ('s \<Rightarrow> bool) \<Rightarrow> 's store_lib \<Rightarrow> registry_wires \<Rightarrow> 's modules \<Rightarrow>
   entries \<Rightarrow> lane_record list \<Rightarrow> bool" where
  "registry_holds view ok L W m E T \<longleftrightarrow>
     staged_ok ok REG_KEYS (md_staged m) \<and> registry_at W (md_visible view L m) E T"

lemma md_abort_store: "md_abort m' = md_abort m \<Longrightarrow> md_committed view L m' = md_committed view L m"
  by (auto simp: md_abort_def staged_abort_def committed_def fun_eq_iff dest!: arg_cong [where f = md_staged]
      dest: arg_cong [where f = ss_store])

lemma md_writes_staged [simp]:
  "md_visible view L (md_store F m k v) = (md_visible view L m)(k \<mapsto> to_vec F v)"
  "md_visible view L (md_delete m k) = (md_visible view L m)(k := None)"
  "staged_ok ok K (md_staged m) \<Longrightarrow> k \<in> K \<Longrightarrow> staged_ok ok K (md_staged (md_store F m k v))"
  "staged_ok ok K (md_staged m) \<Longrightarrow> k \<in> K \<Longrightarrow> staged_ok ok K (md_staged (md_delete m k))"
  by (auto simp: md_store_def md_delete_def)

lemma holds_store_entry:
  assumes "registry_holds view ok L W m E T" and "i \<in> dom E"
  shows "registry_holds view ok L W (md_store (rw_entry W) m (mod_key i) e) (E(i \<mapsto> e)) T"
  using assms registry_at_entry [of W _ E T i e]
  by (simp add: registry_holds_def del: domIff)

lemma holds_store_lanes:
  assumes "registry_holds view ok L W m E T" and "store_lanes W m T' = (m', Inr ())"
  shows "registry_holds view ok L W m' E T'"
  using assms registry_at_lanes [of W "md_visible view L m" E T T']
  by (auto simp: registry_holds_def store_lanes_def store_bounded_def Let_def intro!: staged_ok_stage
      split: if_splits)

lemma holds_register:
  assumes "registry_holds view ok L W m E T"
    and "register_entry W m (sorted_list_of_set (dom E)) i e = (m', Inr ())"
  shows "i \<notin> dom E" and "registry_holds view ok L W m' (E(i \<mapsto> e)) T"
proof -
  have fin: "finite (dom E)" using assms(1) by (simp add: registry_holds_def registry_at_def)
  note search = binary_search_sorted [OF strict_sorted_list_of_set, of "dom E" i]
  show new: "i \<notin> dom E"
    using assms(2) fin by (cases "i \<in> dom E") (simp_all add: register_entry_def search)
  then have "m' = m\<lparr>md_staged := stage (stage (md_staged m) MODULE_ROSTER_KEY
      (to_vec (rw_roster W) (insort i (sorted_list_of_set (dom E))))) (mod_key i) (to_vec (rw_entry W) e)\<rparr>"
    using assms(2) fin roster_insert [OF fin new]
    by (auto simp: register_entry_def search store_roster_def store_bounded_def md_store_def Let_def
        split: if_splits)
  then show "registry_holds view ok L W m' (E(i \<mapsto> e)) T"
    using assms(1) registry_at_new [OF _ new, of W "md_visible view L m" T e]
    by (auto simp: registry_holds_def simp del: domIff)
qed

lemma active_code_hash_pending [simp]: "active_code_hash (e\<lparr>me_pending := p\<rparr>) = active_code_hash e"
  by (simp add: active_code_hash_def)

lemma lead_above:
  assumes "lead_floor env < height"
  shows "env_height env < height"
proof -
  have "env_height env \<le> lead_floor env"
  proof (cases "unat (env_height env) + unat MIN_SWAP_LEAD < 2 ^ 64")
    case True
    then show ?thesis
      by (simp add: lead_floor_def saturating_add_def word_le_nat_alt unat_word_ariths)
  qed (simp add: lead_floor_def saturating_add_def)
  with assms show ?thesis by simp
qed

context merkle_laws
begin

lemma md_load_eq:
  assumes "registry_holds view ok L W m E T"
  shows "md_load L F m k = (case md_visible view L m k of None \<Rightarrow> Inr None
           | Some b \<Rightarrow> and_then (map_err ModuleError (from_slice F b)) (\<lambda>x. Inr (Some x)))"
  using assms staged_get_visible [of REG_KEYS "md_staged m" k]
  by (simp add: registry_holds_def md_load_def split: option.split)

lemma registry_reads:
  assumes "registry_holds view ok L W m E T" and "registry_borsh W"
  shows "registry_entry L W m i = Inr (E i)"
    and "registry_roster L W m = Inr (sorted_list_of_set (dom E))"
    and "lane_table L W m = Inr T"
proof -
  have at: "registry_at W (md_visible view L m) E T"
    using assms(1) by (simp add: registry_holds_def)
  have rt: "from_slice (rw_entry W) (to_vec (rw_entry W) e) = Inr e"
    "from_slice (rw_roster W) (to_vec (rw_roster W) r) = Inr r"
    "from_slice (rw_lanes W) (to_vec (rw_lanes W) t) = Inr t" for e r t
    using assms(2) by (simp_all add: registry_borsh_def round_trips_on_def)
  show "registry_entry L W m i = Inr (E i)"
    using at rt by (simp add: registry_entry_def md_load_eq [OF assms(1)] registry_at_def split: option.split)
  show "registry_roster L W m = Inr (sorted_list_of_set (dom E))"
    using at rt by (auto simp: registry_roster_def md_load_eq [OF assms(1)] registry_at_def)
  show "lane_table L W m = Inr T"
    using at rt by (auto simp: lane_table_def md_load_eq [OF assms(1)] registry_at_def split: option.splits)
qed

lemma holds_declare:
  assumes "registry_holds view ok L W m E T" and "registry_borsh W"
    and "declare_lanes L W m i decls = (m', Inr ())"
  obtains T' where "admit_lanes T i decls = Inr T'" "registry_holds view ok L W m' E T'"
  using assms registry_reads(3) [OF assms(1,2)] holds_store_lanes [OF assms(1)]
  by (cases "admit_lanes T i decls") (auto simp: declare_lanes_def split: if_splits)

lemma holds_withdraw:
  assumes "registry_holds view ok L W m E T" and "registry_borsh W" and "i \<in> dom E"
    and "withdraw_admission L W m i = (m', Inr ())"
  shows "registry_holds view ok L W m' (E(i := None)) (filter (\<lambda>lane. lr_module_id lane \<noteq> i) T)"
proof -
  have fin: "finite (dom E)" using assms(1) by (simp add: registry_holds_def registry_at_def)
  let ?r = "remove1 i (sorted_list_of_set (dom E))"
  let ?m1 = "if ?r = [] then md_delete m MODULE_ROSTER_KEY else md_store (rw_roster W) m MODULE_ROSTER_KEY ?r"
  have empty: "?r = [] \<longleftrightarrow> dom E - {i} = {}"
    using fin by (metis finite_Diff sorted_list_of_set.sorted_key_list_of_set_remove
        sorted_list_of_set.sorted_key_list_of_set_eq_Nil_iff)
  have m': "release_lanes L W (md_delete ?m1 (mod_key i)) i = (m', Inr ())"
    using assms(3,4) fin binary_search_sorted [OF strict_sorted_list_of_set, of "dom E" i]
    by (simp add: withdraw_admission_def registry_reads [OF assms(1,2)] roster_remove Let_def del: domIff
        cong: if_cong)
  have gone: "registry_holds view ok L W (md_delete ?m1 (mod_key i)) (E(i := None)) T"
    using assms(1) registry_at_gone [of W "md_visible view L m" E T i] empty
    by (cases "?r = []") (simp_all add: registry_holds_def)
  have "length (filter P T) = length T \<Longrightarrow> filter P T = T" for P
    using sum_length_filter_compl [of P T] by (simp add: filter_id_conv filter_empty_conv)
  with m' gone show ?thesis
    using registry_reads(3) [OF gone assms(2)] holds_store_lanes [OF gone]
    by (auto simp: release_lanes_def Let_def simp del: if_image_distrib split: if_splits) metis+
qed

text \<open>Only a signal extends a readiness or latches a swap: the others keep a pending swap or start it afresh.\<close>

definition signals :: "modules_msg \<Rightarrow> bool" where
  "signals op \<longleftrightarrow> (case op of SwapReady _ _ _ \<Rightarrow> True | _ \<Rightarrow> False)"

definition no_signal :: "entries \<Rightarrow> entries \<Rightarrow> bool" where
  "no_signal E E' \<longleftrightarrow>
     (\<forall>i e' p'. E' i = Some e' \<and> me_pending e' = Some p' \<longrightarrow>
        sw_readiness p' = [] \<and> sw_ready_at p' = None \<or> (\<exists>e. E i = Some e \<and> me_pending e = Some p'))"

lemma no_signal_simps:
  "no_signal E (E(i \<mapsto> \<lparr>me_kind = k, me_pending = None, me_history = hist\<rparr>))"
  "no_signal E (E(i \<mapsto> \<lparr>me_kind = k, me_pending = Some (fresh_swap n h c), me_history = hist\<rparr>))"
  "no_signal E (E(i \<mapsto> e\<lparr>me_pending := Some (fresh_swap n h c)\<rparr>))"
  "no_signal E (E(i \<mapsto> e\<lparr>me_pending := None\<rparr>))"
  "no_signal E (E(i := None))"
  by (simp_all add: no_signal_def fresh_swap_def)

lemma handle_refines:
  assumes "registry_holds view ok L W m E T" and "registry_borsh W" and "hashes_ok E"
    and "ctx_leaf (modules_handle L W m env op) (m', Inr ())" and "op \<noteq> Advance"
  shows "\<exists>E' T'. registry_holds view ok L W m' E' T' \<and> code_op (env_height env) (E, T) (E', T') \<and>
     (signals op \<or> no_signal E E')"
proof (cases op)
  case (RegisterModule i k c decls)
  then have "handle_register_module L W m env i k c decls = (m', Inr ())" using assms(4) by simp
  then obtain m1 where new: "E i = None" and m1: "declare_lanes L W m i decls = (m1, Inr ())"
    and c: "length c = CODE_HASH_LEN"
    and m': "st_then (m1, registry_roster L W m1) (\<lambda>m roster. register_entry W m roster i
      \<lparr>me_kind = k, me_pending = None, me_history = [activation_at (env_height env) c]\<rparr>) = (m', Inr ())"
    unfolding handle_register_module_def st_then_success
    by (auto simp: registry_reads [OF assms(1,2)] require_hash_len_def st_then_success split: if_splits)
  from holds_declare [OF assms(1,2) m1] obtain T' where
    T': "admit_lanes T i decls = Inr T'" "registry_holds view ok L W m1 E T'" .
  from m' have reg: "register_entry W m1 (sorted_list_of_set (dom E)) i 
      \<lparr>me_kind = k, me_pending = None, me_history = [activation_at (env_height env) c]\<rparr> = (m', Inr ())"
    by (simp add: registry_reads [OF T'(2) assms(2)])
  from holds_register(2) [OF T'(2) reg] op_register [where E = E, OF new T'(1) c] no_signal_simps(1)
  show ?thesis by blast
next
  case (ScheduleRegister name i k height c decls)
  then have "schedule_admission L W m env name i height \<lparr>ca_kind = k, ca_code_hash = c, ca_lanes = decls\<rparr> =
      (m', Inr ())" and c: "length c = CODE_HASH_LEN"
    using assms(4) schedule_register_leaf [of L W m env name i height
        "\<lparr>ca_kind = k, ca_code_hash = c, ca_lanes = decls\<rparr>" "(m', Inr ())"]
    by (auto simp: require_hash_len_def split: if_splits)
  then obtain m1 where new: "E i = None" and lead: "lead_floor env < height"
    and m1: "declare_lanes L W m i decls = (m1, Inr ())"
    and m': "st_then (m1, registry_roster L W m1) (\<lambda>m roster. register_entry W m roster i
      \<lparr>me_kind = k, me_pending = Some (fresh_swap name height c), me_history = []\<rparr>) = (m', Inr ())"
    unfolding schedule_admission_def st_then_success
    by (auto simp: registry_reads [OF assms(1,2)] st_then_success split: if_splits)
  from holds_declare [OF assms(1,2) m1] obtain T' where
    T': "admit_lanes T i decls = Inr T'" "registry_holds view ok L W m1 E T'" .
  from m' have reg: "register_entry W m1 (sorted_list_of_set (dom E)) i 
      \<lparr>me_kind = k, me_pending = Some (fresh_swap name height c), me_history = []\<rparr> = (m', Inr ())"
    by (simp add: registry_reads [OF T'(2) assms(2)])
  from holds_register(2) [OF T'(2) reg] op_admit [where E = E, OF new T'(1) c lead_above [OF lead]]
    no_signal_simps(2)
  show ?thesis by blast
next
  case (ScheduleSwap name i height c)
  then have "handle_schedule_swap L W m env name i height c = (m', Inr ())" using assms(4) by simp
  then obtain e where e: "E i = Some e" "\<And>p. me_pending e = Some p \<Longrightarrow> stale_at p (env_height env)"
    "length c = CODE_HASH_LEN" "lead_floor env < height"
    "m' = md_store (rw_entry W) m (mod_key i) (e\<lparr>me_pending := Some (fresh_swap name height c)\<rparr>)"
    unfolding handle_schedule_swap_def st_then_success
    by (auto simp: registry_reads [OF assms(1,2)] require_hash_len_def split: if_splits option.splits)
  with holds_store_entry [OF assms(1)] op_schedule [where E = E, OF e(1-3) lead_above [OF e(4)]]
    no_signal_simps(3)
  show ?thesis by blast
next
  case (CancelSwap name i)
  then have "handle_cancel_swap L W m env name i = (m', Inr ())" using assms(4) by simp
  then obtain e p where e: "E i = Some e" "me_pending e = Some p"
    "env_height env < sw_activation_height p \<or> stale_at p (env_height env)"
    and m': "if active_code_hash e = [] then withdraw_admission L W m i = (m', Inr ())
      else m' = md_store (rw_entry W) m (mod_key i) (e\<lparr>me_pending := None\<rparr>)"
    unfolding handle_cancel_swap_def st_then_success
    by (auto simp: registry_reads [OF assms(1,2)] Let_def not_le split: if_splits option.splits)
  show ?thesis
  proof (cases "active_code_hash e = []")
    case True
    then have "me_history e = []"
      using assms(3) e(1) by (auto simp: active_code_hash_def hashes_ok_def split: if_splits)
    with m' True holds_withdraw [OF assms(1,2) domI [of E, OF e(1)]] have
      "registry_holds view ok L W m' (E(i := None)) (filter (\<lambda>lane. lr_module_id lane \<noteq> i) T)"
      by simp
    with op_withdraw [where E = E, OF e \<open>me_history e = []\<close>] no_signal_simps(5) show ?thesis by blast
  next
    case False
    with m' have "m' = md_store (rw_entry W) m (mod_key i) (e\<lparr>me_pending := None\<rparr>)" by simp
    with holds_store_entry [OF assms(1) domI [of E, OF e(1)]] op_cancel [where E = E, OF e] no_signal_simps(4)
    show ?thesis by blast
  qed
next
  case (SwapReady name i c)
  then obtain key mems where "credit_signal L W m (env_height env) mems key name i c = (m', Inr ())"
    using assms(4) swap_ready_leaf [of L W m env name i c "(m', Inr ())"] by auto
  then obtain e p where e: "E i = Some e" "me_pending e = Some p" "key \<in> set mems"
    "m' = md_store (rw_entry W) m (mod_key i) (e\<lparr>me_pending := Some (signal_swap (env_height env) mems key p)\<rparr>)"
    by (auto simp: credit_signal_def registry_reads [OF assms(1,2)] split: if_splits option.splits)
  have "signals op" using SwapReady by (simp add: signals_def)
  with e holds_store_entry [OF assms(1)] op_signal [where E = E, OF e(1-3)] show ?thesis by blast
qed (use assms(5) in simp)

lemma status_eq:
  assumes "registry_holds view ok L W m E T" and "registry_borsh W"
  shows "status_reply L W m =
     Inr (MrModuleStatus (map (\<lambda>i. code_of i (the (E i))) (sorted_list_of_set (dom E))))"
proof -
  have "status_loop L W m ids = Inr (map (\<lambda>i. code_of i (the (E i))) ids)" if "set ids \<subseteq> dom E" for ids
    using that
    by (induction ids) (auto simp: rostered_entry_def registry_reads(1) [OF assms])
  moreover have "finite (dom E)" using assms(1) by (simp add: registry_holds_def registry_at_def)
  ultimately show ?thesis by (simp add: status_reply_def registry_reads(2) [OF assms])
qed

lemma armed_swaps_eq:
  assumes "staged_ok ok REG_KEYS (md_staged m)" and "registry_at W (md_committed view L m) C TC"
    and "registry_borsh W"
  shows "armed_swaps L W m h ids = Inr (filter (\<lambda>i. i \<in> armed_ids C h) ids)"
proof (induction ids)
  case (Cons i ids)
  have "md_load_committed L (rw_entry W) m (mod_key i) = Inr (C i)"
    using assms staged_get_committed_eq [OF assms(1), of "mod_key i"]
    by (auto simp: md_load_committed_def registry_at_def registry_borsh_def round_trips_on_def
        split: option.split)
  then show ?case
    using Cons by (auto simp: armed_ids_def armed_in_def split: option.splits bind_splits)
qed simp

lemma flip_swaps_eq:
  assumes "registry_holds view ok L W m E T" and "registry_borsh W" and "set ids \<subseteq> dom E" and "distinct ids"
  shows "\<exists>m'. flip_swaps L W m h ids = (m', Inr ()) \<and>
     registry_holds view ok L W m' (flip_armed h (set ids) E) T"
  using assms(1,3,4)
proof (induction ids arbitrary: m E)
  case Nil
  then show ?case by (simp add: flip_armed_def)
next
  case (Cons i ids)
  then obtain e where e: "E i = Some e" by auto
  have read: "rostered_entry L W m i = Inr e"
    by (simp add: rostered_entry_def registry_reads(1) [OF Cons.prems(1) assms(2)] e)
  have shift: "flip_armed h (set ids) (E(i \<mapsto> flip_entry h e)) = flip_armed h (set (i # ids)) E"
    using Cons.prems(3) e by (auto simp: flip_armed_def)
  show ?case
  proof (cases "me_pending e")
    case None
    then have "E(i \<mapsto> flip_entry h e) = E" using e by (simp add: flip_entry_def fun_upd_idem)
    with shift Cons.IH [OF Cons.prems(1)] Cons.prems None read show ?thesis by simp
  next
    case (Some p)
    have "registry_holds view ok L W (md_store (rw_entry W) m (mod_key i) (flip_entry h e))
        (E(i \<mapsto> flip_entry h e)) T"
      by (rule holds_store_entry [OF Cons.prems(1)]) (use e in auto)
    moreover have "set ids \<subseteq> dom (E(i \<mapsto> flip_entry h e))" "distinct ids" using Cons.prems(2,3) by auto
    ultimately obtain m' where
      "flip_swaps L W (md_store (rw_entry W) m (mod_key i) (flip_entry h e)) h ids = (m', Inr ())"
      "registry_holds view ok L W m' (flip_armed h (set (i # ids)) E) T"
      using Cons.IH shift by metis
    then show ?thesis using Some read by (simp add: flip_entry_def)
  qed
qed

lemma advance_eq:
  assumes "registry_holds view ok L W m E T" and "registry_borsh W"
    and "registry_at W (md_committed view L m) C TC" and "armed_ids C (env_height env) \<subseteq> dom E"
    and "env_origin env = System"
  shows "\<exists>m'. handle_advance L W m env = (m', Inr ()) \<and>
     registry_holds view ok L W m' (flip_armed (env_height env) (armed_ids C (env_height env)) E) T"
proof -
  let ?A = "armed_ids C (env_height env)" and ?r = "sorted_list_of_set (dom C)"
  have ok: "staged_ok ok REG_KEYS (md_staged m)" using assms(1) by (simp add: registry_holds_def)
  have fin: "finite (dom C)" using assms(3) by (simp add: registry_at_def)
  have sub: "?A \<subseteq> dom C" by (auto simp: armed_ids_def armed_in_def split: bind_splits)
  have roster: "\<exists>r. md_load_committed L (rw_roster W) m MODULE_ROSTER_KEY = Inr r \<and>
      (case r of None \<Rightarrow> [] | Some roster \<Rightarrow> roster) = ?r"
    using assms(2,3) staged_get_committed_eq [OF ok, of MODULE_ROSTER_KEY]
    by (auto simp: md_load_committed_def registry_at_def registry_borsh_def round_trips_on_def)
  have "set (filter (\<lambda>i. i \<in> ?A) ?r) = ?A" using fin sub by auto
  moreover from this obtain m' where "flip_swaps L W m (env_height env) (filter (\<lambda>i. i \<in> ?A) ?r) = (m', Inr ())"
    "registry_holds view ok L W m' (flip_armed (env_height env) ?A E) T"
    using flip_swaps_eq [OF assms(1,2), of "filter (\<lambda>i. i \<in> ?A) ?r" "env_height env"] assms(4) by auto
  ultimately show ?thesis
    using roster assms(1,5) armed_swaps_eq [OF ok assms(3,2), of "env_height env" ?r]
    by (auto simp: handle_advance_def require_system_def flip_armed_def)
qed

end

section \<open>Blocks\<close>

text \<open>
  A block at height \<open>h\<close>: successful operations, the boundary tick when the status the host read before
  the block has an armed swap, and the commit. Operations that fail are undone by the host and have no
  part in it.
\<close>

definition registry_op :: "'s store_lib \<Rightarrow> registry_wires \<Rightarrow> u64 \<Rightarrow> 's modules \<Rightarrow> 's modules \<Rightarrow> bool" where
  "registry_op L W h m m' \<longleftrightarrow>
     (\<exists>env op. env_height env = h \<and> op \<noteq> Advance \<and> ctx_leaf (modules_handle L W m env op) (m', Inr ()))"

definition swap_armed :: "u64 \<Rightarrow> module_code list \<Rightarrow> bool" where
  "swap_armed h codes \<longleftrightarrow>
     list_ex (\<lambda>c. case mc_pending c of None \<Rightarrow> False | Some p \<Rightarrow> armed_at p h) codes"

definition registry_block :: "'s store_lib \<Rightarrow> registry_wires \<Rightarrow> u64 \<Rightarrow> 's modules \<Rightarrow> 's modules \<Rightarrow> bool" where
  "registry_block L W h m m' \<longleftrightarrow>
     (\<exists>m1 m2 codes. (registry_op L W h)\<^sup>*\<^sup>* m m1 \<and>
        status_reply L W m = Inr (MrModuleStatus codes) \<and>
        (if swap_armed h codes
         then \<exists>env. env_height env = h \<and> env_origin env = System \<and> handle_advance L W m1 env = (m2, Inr ())
         else m2 = m1) \<and>
        modules_commit_block L m2 = (m', Inr ()))"

inductive registry_blocks ::
  "'s store_lib \<Rightarrow> registry_wires \<Rightarrow> u64 \<Rightarrow> 's modules \<Rightarrow> 's modules \<Rightarrow> bool" for L W where
  blocks_none: "registry_blocks L W h m m"
| blocks_next:
    "h < h' \<Longrightarrow> registry_block L W h' m m1 \<Longrightarrow> registry_blocks L W h' m1 m2 \<Longrightarrow> registry_blocks L W h m m2"

definition registry_boundary ::
  "('s \<Rightarrow> bytes \<rightharpoonup> bytes) \<Rightarrow> ('s \<Rightarrow> bool) \<Rightarrow> 's store_lib \<Rightarrow> registry_wires \<Rightarrow> 's modules \<Rightarrow>
   entries \<Rightarrow> lane_record list \<Rightarrow> bool" where
  "registry_boundary view ok L W m E T \<longleftrightarrow>
     staged_ok ok REG_KEYS (md_staged m) \<and> ss_pending (md_staged m) = [] \<and>
     registry_at W (md_committed view L m) E T \<and> hashes_ok E"

lemma boundary_holds:
  "registry_boundary view ok L W m E T \<Longrightarrow> registry_holds view ok L W m E T"
  by (simp add: registry_boundary_def registry_holds_def visible_def [abs_def])

lemma registry_boundary_finite: "registry_boundary view ok L W m E T \<Longrightarrow> finite (dom E)"
  by (simp add: registry_boundary_def registry_at_def)

lemma registry_at_cong:
  assumes "\<And>k. k \<in> REG_KEYS \<Longrightarrow> f k = g k"
  shows "registry_at W f E T = registry_at W g E T"
  using assms by (simp add: registry_at_def)

lemma hashes_ok_op: "code_op h s s' \<Longrightarrow> hashes_ok (fst s) \<Longrightarrow> hashes_ok (fst s')"
  by (induction rule: code_op.induct)
    (auto simp: hashes_ok_def CODE_HASH_LEN_def activation_at_def fresh_swap_def)

lemma hashes_ok_flip:
  assumes "hashes_ok E"
  shows "hashes_ok (flip_armed h A E)"
  unfolding hashes_ok_def
proof (intro allI impI)
  fix i e'
  assume e': "flip_armed h A E i = Some e'"
  then obtain e where e: "E i = Some e" by (auto simp: flip_armed_def split: if_splits)
  with assms have "\<forall>a\<in>set (me_history e). act_code_hash a \<noteq> []" "\<forall>p. me_pending e = Some p \<longrightarrow> sw_code_hash p \<noteq> []"
    by (auto simp: hashes_ok_def)
  with e e' show "(\<forall>a\<in>set (me_history e'). act_code_hash a \<noteq> []) \<and> (\<forall>p. me_pending e' = Some p \<longrightarrow> sw_code_hash p \<noteq> [])"
    by (auto simp: flip_armed_def flip_entry_def activation_at_def split: if_splits option.splits)
qed

lemma armed_ids_dom: "armed_ids E h \<subseteq> dom E"
  by (auto simp: armed_ids_def armed_in_def split: bind_splits)

lemma armed_in_iff:
  "armed_in E h i \<noteq> None \<longleftrightarrow> (\<exists>e p. E i = Some e \<and> me_pending e = Some p \<and> armed_at p h)"
  by (auto simp: armed_in_def split: bind_splits)

lemma swap_armed_iff:
  assumes "finite (dom E)"
  shows "swap_armed h (map (\<lambda>i. code_of i (the (E i))) (sorted_list_of_set (dom E))) \<longleftrightarrow> armed_ids E h \<noteq> {}"
proof -
  have "swap_armed h (map (\<lambda>i. code_of i (the (E i))) (sorted_list_of_set (dom E))) \<longleftrightarrow>
      (\<exists>i\<in>dom E. case me_pending (the (E i)) of None \<Rightarrow> False | Some p \<Rightarrow> armed_at p h)"
    using assms by (simp add: swap_armed_def list_ex_iff code_of_def)
  also have "\<dots> \<longleftrightarrow> (\<exists>i e p. E i = Some e \<and> me_pending e = Some p \<and> armed_at p h)"
  proof -
    have "(case o' of None \<Rightarrow> False | Some p \<Rightarrow> armed_at p h) \<longleftrightarrow> (\<exists>p. o' = Some p \<and> armed_at p h)" for o'
      by (cases o') auto
    then show ?thesis by (simp only:) force
  qed
  also have "\<dots> \<longleftrightarrow> armed_ids E h \<noteq> {}"
    unfolding armed_ids_def armed_in_iff by blast
  finally show ?thesis .
qed

context merkle_laws
begin

lemma ops_refine:
  assumes "(registry_op L W h)\<^sup>*\<^sup>* m m'" and "registry_holds view ok L W m E T" and "registry_borsh W"
    and "hashes_ok E"
  shows "\<exists>E' T'. registry_holds view ok L W m' E' T' \<and> (code_op h)\<^sup>*\<^sup>* (E, T) (E', T') \<and> hashes_ok E' \<and>
     md_committed view L m' = md_committed view L m"
  using assms(1)
proof induction
  case base
  then show ?case using assms by blast
next
  case (step m1 m2)
  then obtain E1 T1 env op where 1: "registry_holds view ok L W m1 E1 T1" "(code_op h)\<^sup>*\<^sup>* (E, T) (E1, T1)"
    "hashes_ok E1" "md_committed view L m1 = md_committed view L m"
    and op: "env_height env = h" "op \<noteq> Advance" "ctx_leaf (modules_handle L W m1 env op) (m2, Inr ())"
    unfolding registry_op_def by blast
  obtain E2 T2 where 2: "registry_holds view ok L W m2 E2 T2" "code_op h (E1, T1) (E2, T2)"
    using handle_refines [OF 1(1) assms(3) 1(3) op(3,2)] op(1) by blast
  moreover have "hashes_ok E2" using hashes_ok_op [OF 2(2)] 1(3) by simp
  moreover have "md_committed view L m2 = md_committed view L m"
    using md_abort_store [OF md_abort_handle [OF op(3)], of view L] 1(4) by simp
  ultimately show ?case using 1(2) by (meson rtranclp.rtrancl_into_rtrancl)
qed

text \<open>After the operations of a block the tick succeeds and flips what was armed before the block.\<close>

lemma advance_after_ops:
  assumes "registry_boundary view ok L W m E T" and "registry_borsh W"
    and "(registry_op L W (env_height env))\<^sup>*\<^sup>* m m1" and "env_origin env = System"
  shows "\<exists>E1 T1 m2. (code_op (env_height env))\<^sup>*\<^sup>* (E, T) (E1, T1) \<and> hashes_ok E1 \<and>
     handle_advance L W m1 env = (m2, Inr ()) \<and>
     registry_holds view ok L W m2 (flip_armed (env_height env) (armed_ids E (env_height env)) E1) T1"
proof -
  obtain E1 T1 where 1: "registry_holds view ok L W m1 E1 T1" "(code_op (env_height env))\<^sup>*\<^sup>* (E, T) (E1, T1)"
    "hashes_ok E1" "md_committed view L m1 = md_committed view L m"
    using ops_refine [OF assms(3) boundary_holds [OF assms(1)] assms(2)] assms(1)
    by (auto simp: registry_boundary_def)
  have "armed_ids E (env_height env) = armed_ids E1 (env_height env)"
    using code_ops_armed [OF 1(2)] by (simp add: armed_ids_def)
  then have "armed_ids E (env_height env) \<subseteq> dom E1" using armed_ids_dom by metis
  with advance_eq [OF 1(1) assms(2), of E T env] 1 assms(1,4) show ?thesis
    by (auto simp: registry_boundary_def)
qed

text \<open>A block completes whatever its operations did: the tick and the commit succeed.\<close>

lemma block_completes:
  assumes "registry_boundary view ok L W m E T" and "registry_borsh W" and "(registry_op L W h)\<^sup>*\<^sup>* m m1"
  shows "\<exists>m'. registry_block L W h m m'"
proof -
  let ?env = "\<lparr>env_height = h, env_consensus_time = 0, env_origin = System, env_me = [], env_cause = Direct\<rparr>"
  obtain codes where status: "status_reply L W m = Inr (MrModuleStatus codes)"
    using status_eq [OF boundary_holds [OF assms(1)] assms(2)] by blast
  obtain E1 T1 m2 where adv: "handle_advance L W m1 ?env = (m2, Inr ())" "registry_holds view ok L W m2 E1 T1"
    using advance_after_ops [OF assms(1,2), of ?env m1] assms(3) by auto
  obtain E2 T2 where ops: "registry_holds view ok L W m1 E2 T2"
    using ops_refine [OF assms(3) boundary_holds [OF assms(1)] assms(2)] assms(1)
    by (auto simp: registry_boundary_def)
  have commits: "\<exists>m'. modules_commit_block L m3 = (m', Inr ())" if "registry_holds view ok L W m3 E' T'" for m3 E' T'
    using that staged_commit_ok(1) [of REG_KEYS "md_staged m3"]
    by (auto simp: modules_commit_block_def md_commit_def registry_holds_def split: prod.split)
  show ?thesis
  proof (cases "swap_armed h codes")
    case True
    obtain m' where "modules_commit_block L m2 = (m', Inr ())" using commits [OF adv(2)] by blast
    with True status adv(1) assms(3) have "registry_block L W h m m'"
      unfolding registry_block_def by (intro exI [of _ m1] exI [of _ m2] exI [of _ codes]) (auto intro!: exI [of _ ?env])
    then show ?thesis ..
  next
    case False
    obtain m' where "modules_commit_block L m1 = (m', Inr ())" using commits [OF ops] by blast
    with False status assms(3) have "registry_block L W h m m'"
      unfolding registry_block_def by (intro exI [of _ m1] exI [of _ codes]) auto
    then show ?thesis ..
  qed
qed

lemma commit_boundary_at:
  assumes "registry_holds view ok L W m E T" and "hashes_ok E" and "inj_on (store_key L) REG_KEYS"
    and "modules_commit_block L m = (m', r)"
  shows "registry_boundary view ok L W m' E T"
proof -
  have ok: "staged_ok ok REG_KEYS (md_staged m)" using assms(1) by (simp add: registry_holds_def)
  have "md_staged m' = fst (staged_commit L (md_staged m))"
    using assms(4) by (auto simp: modules_commit_block_def md_commit_def split: prod.splits)
  with staged_commit_ok(2,3) [OF ok] staged_commit_committed [OF ok assms(3)] assms(1,2) show ?thesis
    using registry_at_cong [of "md_committed view L m'" "md_visible view L m" W E T]
    by (simp add: registry_boundary_def registry_holds_def)
qed

lemma block_refines:
  assumes "registry_boundary view ok L W m E T" and "registry_borsh W" and "inj_on (store_key L) REG_KEYS"
    and "registry_block L W h m m'"
  shows "\<exists>E' T'. registry_boundary view ok L W m' E' T' \<and> code_block h (E, T) (E', T')"
proof -
  note holds = boundary_holds [OF assms(1)]
  obtain m1 m2 codes where b: "(registry_op L W h)\<^sup>*\<^sup>* m m1" "status_reply L W m = Inr (MrModuleStatus codes)"
    "if swap_armed h codes
     then \<exists>env. env_height env = h \<and> env_origin env = System \<and> handle_advance L W m1 env = (m2, Inr ())
     else m2 = m1" "modules_commit_block L m2 = (m', Inr ())"
    using assms(4) unfolding registry_block_def by blast
  have fin: "finite (dom E)" using holds by (simp add: registry_holds_def registry_at_def)
  have armed: "swap_armed h codes \<longleftrightarrow> armed_ids E h \<noteq> {}"
    using b(2) status_eq [OF holds assms(2)] swap_armed_iff [OF fin, of h] by simp
  obtain E1 T1 where 1: "registry_holds view ok L W m2 (flip_armed h (armed_ids E h) E1) T1"
    "(code_op h)\<^sup>*\<^sup>* (E, T) (E1, T1)" "hashes_ok E1"
  proof (cases "swap_armed h codes")
    case True
    then obtain env where "env_height env = h" "env_origin env = System" "handle_advance L W m1 env = (m2, Inr ())"
      using b(3) by auto
    with advance_after_ops [OF assms(1,2), of env m1] b(1) that show thesis by auto
  next
    case False
    then have "m2 = m1" "flip_armed h (armed_ids E h) E1 = E1" for E1
      using b(3) armed by (auto simp: flip_armed_def)
    with ops_refine [OF b(1) holds assms(2)] assms(1) that show thesis
      by (auto simp: registry_boundary_def)
  qed
  from commit_boundary_at [OF 1(1) hashes_ok_flip [OF 1(3)] assms(3) b(4)] 1(2) show ?thesis
    by (auto simp: code_block_def)
qed

lemma blocks_refine:
  assumes "registry_blocks L W h m m'" and "registry_boundary view ok L W m E T" and "registry_borsh W"
    and "inj_on (store_key L) REG_KEYS" and "settled E K" and "K \<le> h"
  shows "\<exists>E' T'. registry_boundary view ok L W m' E' T' \<and>
     (\<forall>i c. code_for E K i = Some c \<longrightarrow> code_for E' K i = Some c)"
  using assms(1,2,5,6)
proof (induction h m m' arbitrary: E T rule: registry_blocks.induct)
  case (blocks_none h m)
  then show ?case by blast
next
  case (blocks_next h h' m m1 m2)
  then have K: "K < h'" by simp
  obtain E1 T1 where 1: "registry_boundary view ok L W m1 E1 T1" "code_block h' (E, T) (E1, T1)"
    using block_refines [OF blocks_next.prems(1) assms(3,4) blocks_next.hyps(2)] by blast
  have "settled E1 K" "code_for E K i = Some c \<Longrightarrow> code_for E1 K i = Some c" for i c
    using code_block_settles(2) [OF 1(2) K] code_block_code [OF 1(2)] K blocks_next.prems(2) by auto
  with blocks_next.IH [OF 1(1)] K show ?case by (metis less_imp_le)
qed

end

section \<open>Lanes\<close>

text \<open>
  A lane table: ascending by id, within the declarable ids, with well-formed names that are unique per
  module, all owned by registered modules.
\<close>

definition lanes_ok :: "string set \<Rightarrow> lane_record list \<Rightarrow> bool" where
  "lanes_ok ids T \<longleftrightarrow>
     sorted_wrt (<) (map lr_id T) \<and> distinct (map (\<lambda>l. (lr_module_id l, lr_name l)) T) \<and>
     (\<forall>l\<in>set T. 0 < lr_id l \<and> lr_id l \<le> MAX_LANE_ID \<and> lr_id l \<notin> set RESERVED_LANE_IDS \<and>
        lane_name_is_well_formed (lr_name l) \<and> lr_module_id l \<in> ids)"

lemma distinct_vec_insert: "distinct (vec_insert n x xs) \<longleftrightarrow> x \<notin> set xs \<and> distinct xs"
proof -
  have "distinct (take n xs @ x # drop n xs) \<longleftrightarrow>
      x \<notin> set (take n xs @ drop n xs) \<and> distinct (take n xs @ drop n xs)"
    by (simp only: distinct_append distinct.simps set_append list.set) blast
  then show ?thesis by (simp only: vec_insert_def append_take_drop_id)
qed

lemma admit_lane_ok:
  assumes "lanes_ok ids T" and "i \<in> ids" and "admit_lane T i decl = Inr T'"
  shows "lanes_ok ids T'"
proof -
  let ?l = "\<lparr>lr_id = ld_id decl, lr_module_id = i, lr_name = ld_name decl, lr_stream = ld_stream decl\<rparr>"
  let ?p = "rank (map lr_id T) (ld_id decl)"
  have sorted: "sorted_wrt (<) (map lr_id T)" using assms(1) by (simp add: lanes_ok_def)
  note search = binary_search_by_sorted [OF sorted, of "ld_id decl"]
  from assms(3) have d: "ld_id decl \<notin> set RESERVED_LANE_IDS" "ld_id decl \<noteq> 0" "ld_id decl \<le> MAX_LANE_ID"
    "lane_name_is_well_formed (ld_name decl)" "ld_id decl \<notin> lr_id ` set T" "T' = vec_insert ?p ?l T"
    "\<forall>l\<in>set T. \<not> (lr_module_id l = i \<and> lr_name l = ld_name decl)"
    by (auto simp: admit_lane_def search list_ex_iff split: if_splits)
  moreover have "sorted_wrt (<) (map lr_id T')"
    using sorted_vec_insert [OF sorted, of "ld_id decl"] d(5,6) by (simp add: map_vec_insert)
  moreover have "distinct (map (\<lambda>l. (lr_module_id l, lr_name l)) T')"
    using assms(1) d(6,7) by (auto simp: map_vec_insert distinct_vec_insert lanes_ok_def)
  ultimately show ?thesis
    using assms(1,2) by (auto simp: lanes_ok_def word_gt_0)
qed

lemma admit_lanes_ok:
  "admit_lanes T i decls = Inr T' \<Longrightarrow> lanes_ok ids T \<Longrightarrow> i \<in> ids \<Longrightarrow> lanes_ok ids T'"
  by (induction T i decls rule: admit_lanes.induct) (auto simp: and_then_eq_Inr dest: admit_lane_ok)

lemma lanes_ok_mono: "lanes_ok ids T \<Longrightarrow> ids \<subseteq> ids' \<Longrightarrow> lanes_ok ids' T"
  by (auto simp: lanes_ok_def)

lemma lanes_ok_filter:
  assumes "lanes_ok ids T"
  shows "lanes_ok (ids - {i}) (filter (\<lambda>l. lr_module_id l \<noteq> i) T)"
  using assms by (auto simp: lanes_ok_def sorted_wrt_map sorted_wrt_filter distinct_map_filter)

lemma lanes_ok_op:
  assumes "code_op h s s'" and "lanes_ok (dom (fst s)) (snd s)"
  shows "lanes_ok (dom (fst s')) (snd s')"
  using assms(1)
proof cases
  case (op_register E i T decls T' c k)
  then show ?thesis
    using admit_lanes_ok [OF op_register(4), of "insert i (dom E)"] assms(2)
      lanes_ok_mono [of "dom E" T "insert i (dom E)"]
    by (simp add: subset_insertI)
next
  case (op_admit E i T decls T' c height k name)
  then show ?thesis
    using admit_lanes_ok [OF op_admit(4), of "insert i (dom E)"] assms(2)
      lanes_ok_mono [of "dom E" T "insert i (dom E)"]
    by (simp add: subset_insertI)
next
  case (op_withdraw E i e p T)
  then show ?thesis using lanes_ok_filter [of "dom E" T i] assms(2) by simp
qed (use assms(2) in \<open>auto elim!: lanes_ok_mono\<close>)

lemma lanes_ok_block:
  assumes "code_block h s s'" and "lanes_ok (dom (fst s)) (snd s)"
  shows "lanes_ok (dom (fst s')) (snd s')"
proof -
  obtain E T where run: "(code_op h)\<^sup>*\<^sup>* s (E, T)" and s': "s' = (flip_armed h (armed_ids (fst s) h) E, T)"
    using assms(1) unfolding code_block_def by blast
  have "lanes_ok (dom (fst (E, T))) (snd (E, T))"
    using run assms(2) by (induction rule: rtranclp_induct) (auto dest: lanes_ok_op)
  moreover have "dom (flip_armed h A E) = dom E" for A by (auto simp: flip_armed_def split: if_splits)
  ultimately show ?thesis by (simp add: s')
qed

end
