(* ===== verification/Registry_Signals.thy ===== *)
theory Registry_Signals
  imports Registry_Blocks
begin

text \<open>
  The readiness signals of the modules registry along a run: every key in the readiness of a pending
  swap is the submitter of a signal for its hash, and a latch was set when the readiness covered the
  validator set that signal was answered.
\<close>

section \<open>Signals\<close>

text \<open>
  A run of the registry: successful messages, the tick among them, each with the answers its context
  gave, and the commits between them.
\<close>

type_synonym answers = "module_id \<Rightarrow> bytes \<Rightarrow> error + bytes"

type_synonym registry_step = "answers \<times> env \<times> modules_msg"

inductive registry_run ::
  "'s store_lib \<Rightarrow> registry_wires \<Rightarrow> registry_step list \<Rightarrow> 's modules \<Rightarrow> 's modules \<Rightarrow> bool" for L W where
  run_none: "registry_run L W [] m m"
| run_op:
    "registry_run L W tr m m1 \<Longrightarrow>
     ctx_answer ask (\<lambda>_. None) (modules_handle L W m1 env op) = (m2, Inr ()) \<Longrightarrow>
     registry_run L W (tr @ [(ask, env, op)]) m m2"
| run_commit:
    "registry_run L W tr m m1 \<Longrightarrow> modules_commit_block L m1 = (m2, Inr ()) \<Longrightarrow>
     registry_run L W tr m m2"

text \<open>The validator set as \<open>ask\<close> answers it, and a signal of \<open>key\<close> for the code \<open>c\<close> of module \<open>i\<close>.\<close>

definition answered_members :: "registry_wires \<Rightarrow> module_id \<Rightarrow> answers \<Rightarrow> error + bytes list" where
  "answered_members W vid ask = ctx_answer ask (\<lambda>_. None) (members (rw_valset W) vid)"

definition signalled :: "registry_step list \<Rightarrow> string \<Rightarrow> bytes \<Rightarrow> bytes \<Rightarrow> bool" where
  "signalled tr i c key \<longleftrightarrow>
     (\<exists>ask env name. (ask, env, SwapReady name i c) \<in> set tr \<and> env_origin env = External key)"

text \<open>
  What a pending swap says of the signals before it: its readiness lists keys that signalled its hash,
  and a latch at \<open>r\<close> was set by a signal at height \<open>r\<close>, when every member had signalled.
\<close>

definition latch_backed :: "registry_wires \<Rightarrow> module_id \<Rightarrow> registry_step list \<Rightarrow> string \<Rightarrow> bytes \<Rightarrow> u64 \<Rightarrow> bool" where
  "latch_backed W vid tr i c r \<longleftrightarrow>
     (\<exists>ask env name mems. (ask, env, SwapReady name i c) \<in> set tr \<and> env_height env = r \<and>
        answered_members W vid ask = Inr mems \<and> mems \<noteq> [] \<and> (\<forall>k\<in>set mems. signalled tr i c k))"

definition backed :: "registry_wires \<Rightarrow> module_id \<Rightarrow> registry_step list \<Rightarrow> string \<Rightarrow> scheduled_swap \<Rightarrow> bool" where
  "backed W vid tr i p \<longleftrightarrow>
     (\<forall>k\<in>set (sw_readiness p). signalled tr i (sw_code_hash p) k) \<and>
     (\<forall>r. sw_ready_at p = Some r \<longrightarrow> latch_backed W vid tr i (sw_code_hash p) r)"

definition all_backed :: "registry_wires \<Rightarrow> module_id \<Rightarrow> registry_step list \<Rightarrow> string \<Rightarrow> entries \<Rightarrow> bool" where
  "all_backed W vid tr i E \<longleftrightarrow> (\<forall>e p. E i = Some e \<and> me_pending e = Some p \<longrightarrow> backed W vid tr i p)"

lemma ctx_answer_bind: "ctx_answer ask root (ctx_bind t f) = ctx_answer ask root (f (ctx_answer ask root t))"
  by (induction t) simp_all

lemma ctx_answer_leaf: "ctx_leaf t (ctx_answer ask root t)"
  by (induction t) (auto intro: leaf_query leaf_root)

lemma signalled_more: "signalled tr i c k \<Longrightarrow> signalled (tr @ tr') i c k"
  unfolding signalled_def set_append by blast

lemma backed_more: "backed W vid tr i p \<Longrightarrow> backed W vid (tr @ tr') i p"
  unfolding backed_def latch_backed_def using signalled_more unfolding set_append by blast

lemma binary_search_member: "binary_search xs k = Inr n \<Longrightarrow> k \<in> set xs"
  using bisect_bounds [of "length xs" 0 "\<lambda>x. cmp x k" xs]
  by (cases "xs = []")
    (auto simp: binary_search_def binary_search_by_def Let_def cmp_def in_set_conv_nth
      split: ordering.splits if_splits)

lemma md_abort_valset: "md_valset_id (md_abort m) = md_valset_id m"
  by (simp add: md_abort_def)

text \<open>A signal adds its key, and latches only over a readiness that covers the members.\<close>

lemma signal_swap_readiness: "set (sw_readiness (signal_swap h mems key p)) \<subseteq> insert key (set (sw_readiness p))"
  by (auto simp: signal_swap_def Let_def vec_insert_def dest: in_set_takeD in_set_dropD split: sum.splits)

lemma signal_swap_latch:
  assumes "sw_ready_at p = None" and "sw_ready_at (signal_swap h mems key p) = Some r"
  shows "r = h \<and> mems \<noteq> [] \<and> set mems \<subseteq> set (sw_readiness (signal_swap h mems key p))"
proof -
  have "set mems \<subseteq> set R"
    if "list_all (\<lambda>k. case binary_search R k of Inr _ \<Rightarrow> True | Inl _ \<Rightarrow> False) mems" for R
  proof
    fix k
    assume "k \<in> set mems"
    with that show "k \<in> set R"
      by (cases "binary_search R k") (auto simp: list_all_iff dest: binary_search_member)
  qed
  with assms show ?thesis by (simp add: signal_swap_def Let_def split: if_splits)
qed

lemma backed_signal:
  assumes "backed W vid tr i p" and "answered_members W vid ask = Inr mems" and "env_origin env = External key"
  shows "backed W vid (tr @ [(ask, env, SwapReady name i (sw_code_hash p))]) i
           (signal_swap (env_height env) mems key p)"
proof -
  let ?tr = "tr @ [(ask, env, SwapReady name i (sw_code_hash p))]"
  let ?p = "signal_swap (env_height env) mems key p"
  have old: "backed W vid ?tr i p" by (rule backed_more [OF assms(1)])
  have "signalled ?tr i (sw_code_hash p) key"
    unfolding signalled_def using assms(3) by (metis in_set_conv_decomp)
  with old have ready: "\<forall>k\<in>set (sw_readiness ?p). signalled ?tr i (sw_code_hash p) k"
    using signal_swap_readiness [of "env_height env" mems key p] by (auto simp: backed_def)
  moreover have "latch_backed W vid ?tr i (sw_code_hash p) r" if r: "sw_ready_at ?p = Some r" for r
  proof (cases "sw_ready_at p")
    case None
    from signal_swap_latch [OF None r] ready assms(2) show ?thesis
      unfolding latch_backed_def by (auto intro!: exI [of _ ask] exI [of _ env] exI [of _ name])
  next
    case (Some r')
    with signal_swap_ready_at [of "env_height env" mems key p] r old show ?thesis by (simp add: backed_def)
  qed
  ultimately show ?thesis by (simp add: backed_def)
qed

context merkle_laws
begin

lemma swap_ready_refines:
  assumes "registry_holds view ok L W m E T" and "registry_borsh W"
    and "ctx_answer ask root (handle_swap_ready L W m env name i c) = (m', Inr ())"
  obtains key mems e p where "env_origin env = External key"
    "answered_members W (md_valset_id m) ask = Inr mems" "E i = Some e" "me_pending e = Some p"
    "sw_name p = name" "sw_code_hash p = c"
    "registry_holds view ok L W m' (E(i \<mapsto> e\<lparr>me_pending := Some (signal_swap (env_height env) mems key p)\<rparr>)) T"
proof -
  obtain key where key: "env_origin env = External key"
    using assms(3) by (cases "env_origin env") (auto simp: handle_swap_ready_def)
  have "ctx_answer ask root (members (rw_valset W) (md_valset_id m)) =
      answered_members W (md_valset_id m) ask"
    by (simp add: answered_members_def members_def)
  with assms(3) key obtain mems where mems: "answered_members W (md_valset_id m) ask = Inr mems"
    and "credit_signal L W m (env_height env) mems key name i c = (m', Inr ())"
    by (cases "answered_members W (md_valset_id m) ask") (auto simp: handle_swap_ready_def ctx_answer_bind)
  then obtain e p where e: "E i = Some e" "me_pending e = Some p" "sw_name p = name" "sw_code_hash p = c"
    "m' = md_store (rw_entry W) m (mod_key i) (e\<lparr>me_pending := Some (signal_swap (env_height env) mems key p)\<rparr>)"
    by (auto simp: credit_signal_def registry_reads [OF assms(1,2)] split: if_splits option.splits)
  with holds_store_entry [OF assms(1)] that [OF key mems e(1-4)] show thesis by blast
qed

lemma flip_swaps_keeps:
  assumes "registry_holds view ok L W m E T" and "registry_borsh W" and "hashes_ok E"
    and "flip_swaps L W m h ids = (m', Inr ())"
  shows "\<exists>E'. registry_holds view ok L W m' E' T \<and> hashes_ok E' \<and> no_signal E E'"
  using assms(1,3,4)
proof (induction ids arbitrary: m E)
  case Nil
  then show ?case by (auto simp: no_signal_def)
next
  case (Cons i ids)
  then obtain e where e: "E i = Some e"
    by (cases "E i") (auto simp: rostered_entry_def registry_reads(1) [OF Cons.prems(1) assms(2)])
  then have read: "rostered_entry L W m i = Inr e"
    by (simp add: rostered_entry_def registry_reads(1) [OF Cons.prems(1) assms(2)])
  show ?case
  proof (cases "me_pending e")
    case None
    then show ?thesis using Cons.IH [OF Cons.prems(1,2)] Cons.prems(3) read by simp
  next
    case (Some p)
    let ?e = "e\<lparr>me_pending := None, me_history := me_history e @ [activation_at h (sw_code_hash p)]\<rparr>"
    have "registry_holds view ok L W (md_store (rw_entry W) m (mod_key i) ?e) (E(i \<mapsto> ?e)) T"
      by (rule holds_store_entry [OF Cons.prems(1)]) (use e in auto)
    moreover have "hashes_ok (E(i \<mapsto> ?e))"
      using Cons.prems(2) e Some by (auto simp: hashes_ok_def activation_at_def)
    ultimately obtain E' where E': "registry_holds view ok L W m' E' T" "hashes_ok E'"
      "no_signal (E(i \<mapsto> ?e)) E'"
      using Cons.IH Cons.prems(3) read Some by fastforce
    then have "no_signal E E'" unfolding no_signal_def by (auto split: if_splits)
    with E' show ?thesis by blast
  qed
qed

lemma run_step_backed:
  assumes "registry_holds view ok L W m E T" and "registry_borsh W" and "hashes_ok E"
    and "ctx_answer ask root (modules_handle L W m env op) = (m', Inr ())"
    and "all_backed W (md_valset_id m) tr i E"
  shows "\<exists>E' T'. registry_holds view ok L W m' E' T' \<and> hashes_ok E' \<and>
     all_backed W (md_valset_id m) (tr @ [(ask, env, op)]) i E'"
proof -
  have quiet: "all_backed W (md_valset_id m) (tr @ [(ask, env, op)]) i E'" if "no_signal E E'" for E'
    unfolding all_backed_def
  proof (intro allI impI)
    fix e' p'
    assume e': "E' i = Some e' \<and> me_pending e' = Some p'"
    with that consider "sw_readiness p' = []" "sw_ready_at p' = None"
      | e where "E i = Some e" "me_pending e = Some p'"
      unfolding no_signal_def by metis
    then show "backed W (md_valset_id m) (tr @ [(ask, env, op)]) i p'"
    proof cases
      case 1
      then show ?thesis by (simp add: backed_def)
    next
      case 2
      then show ?thesis using assms(5) by (auto simp: all_backed_def intro!: backed_more)
    qed
  qed
  have leaf: "ctx_leaf (modules_handle L W m env op) (m', Inr ())"
    using ctx_answer_leaf [of "modules_handle L W m env op" ask root] assms(4) by simp
  have plain: ?thesis if op: "op \<noteq> Advance" "\<not> signals op"
  proof -
    obtain E' T' where "registry_holds view ok L W m' E' T'" "code_op (env_height env) (E, T) (E', T')"
      "no_signal E E'"
      using handle_refines [OF assms(1-3) leaf op(1)] op(2) by blast
    with hashes_ok_op assms(3) quiet show ?thesis by (metis fst_conv)
  qed
  show ?thesis
  proof (cases op)
    case Advance
    then have adv: "handle_advance L W m env = (m', Inr ())" using assms(4) by simp
    then obtain ids where "flip_swaps L W m (env_height env) ids = (m', Inr ())"
      unfolding handle_advance_def st_then_success
      by (auto simp: st_then_success split: if_splits) (metis flip_swaps.simps(1))
    from flip_swaps_keeps [OF assms(1-3) this] quiet show ?thesis by blast
  next
    case (SwapReady name j c)
    then have "ctx_answer ask root (handle_swap_ready L W m env name j c) = (m', Inr ())" using assms(4) by simp
    from swap_ready_refines [OF assms(1,2) this] obtain key mems e p where
      s: "env_origin env = External key" "answered_members W (md_valset_id m) ask = Inr mems"
      "E j = Some e" "me_pending e = Some p" "sw_code_hash p = c"
      "registry_holds view ok L W m' (E(j \<mapsto> e\<lparr>me_pending := Some (signal_swap (env_height env) mems key p)\<rparr>)) T"
      by metis
    let ?E = "E(j \<mapsto> e\<lparr>me_pending := Some (signal_swap (env_height env) mems key p)\<rparr>)"
    have "hashes_ok ?E" using assms(3) s(3,4) by (auto simp: hashes_ok_def)
    moreover have "all_backed W (md_valset_id m) (tr @ [(ask, env, op)]) i ?E"
      using assms(5) backed_signal [OF _ s(2,1), of tr j p name] s(3-5) SwapReady backed_more
      unfolding all_backed_def by (cases "i = j") auto
    ultimately show ?thesis using s(6) by blast
  qed (rule plain; simp add: signals_def)+
qed

lemma run_backed:
  assumes "registry_run L W tr m m'" and "inj_on (store_key L) REG_KEYS"
    and "registry_borsh W" and "registry_holds view ok L W m E T" and "hashes_ok E"
    and "\<And>e. E i = Some e \<Longrightarrow> me_pending e = None"
  shows "md_valset_id m' = md_valset_id m \<and>
     (\<exists>E' T'. registry_holds view ok L W m' E' T' \<and> hashes_ok E' \<and> all_backed W (md_valset_id m) tr i E')"
  using assms(1,4)
proof (induction rule: registry_run.induct)
  case (run_none m)
  then show ?case using assms(5,6) by (fastforce simp: all_backed_def)
next
  case (run_op tr m m1 ask env op m2)
  then obtain E1 T1 where 1: "registry_holds view ok L W m1 E1 T1" "hashes_ok E1"
    "all_backed W (md_valset_id m1) tr i E1" "md_valset_id m1 = md_valset_id m"
    by auto
  have "md_abort m2 = md_abort m1"
    using md_abort_handle [OF ctx_answer_leaf [of "modules_handle L W m1 env op" ask "\<lambda>_. None"]] run_op.hyps(2)
    by simp
  then have "md_valset_id m2 = md_valset_id m1" by (metis md_abort_valset)
  with run_step_backed [OF 1(1) assms(3) 1(2) run_op.hyps(2) 1(3)] 1(4) show ?case by simp
next
  case (run_commit tr m m1 m2)
  then obtain E1 T1 where 1: "registry_holds view ok L W m1 E1 T1" "hashes_ok E1"
    "all_backed W (md_valset_id m) tr i E1" "md_valset_id m1 = md_valset_id m"
    by auto
  have "md_valset_id m2 = md_valset_id m1"
    using run_commit.hyps(2) by (auto simp: modules_commit_block_def md_commit_def split: prod.splits)
  moreover have "registry_holds view ok L W m2 E1 T1"
    by (rule boundary_holds [OF commit_boundary_at [OF 1(1,2) assms(2) run_commit.hyps(2)]])
  ultimately show ?case using 1 by auto
qed

end

end
