(* ===== verification/Registry_Theorems.thy ===== *)
theory Registry_Theorems
  imports Registry_Signals
begin

text \<open>
  The properties of the modules registry over runs and blocks, with concrete formats for its records
  and its interface, and a registry over the in-memory store on which the properties are run.
\<close>

section \<open>Formats\<close>

definition kind_code :: "kind \<Rightarrow> byte" where
  "kind_code k = (case k of KindModule \<Rightarrow> 0 | KindView \<Rightarrow> 1)"

definition kind_of_code :: "byte \<Rightarrow> kind option" where
  "kind_of_code b = (if b = 0 then Some KindModule else if b = 1 then Some KindView else None)"

definition fmt_kind :: "kind fmt" where
  "fmt_kind = fmt_map kind_code kind_of_code fmt_byte"

definition fmt_activation :: "activation fmt" where
  "fmt_activation =
     fmt_map (\<lambda>a. (act_height a, act_code_hash a)) (\<lambda>(h, c). Some \<lparr>act_height = h, act_code_hash = c\<rparr>)
       (fmt_pair fmt_u64 fmt_bytes)"

definition fmt_swap :: "scheduled_swap fmt" where
  "fmt_swap =
     fmt_map (\<lambda>s. (sw_name s, sw_activation_height s, sw_code_hash s, sw_readiness s, sw_ready_at s))
       (\<lambda>(n, h, c, r, a). Some \<lparr>sw_name = n, sw_activation_height = h, sw_code_hash = c, sw_readiness = r,
          sw_ready_at = a\<rparr>)
       (fmt_pair fmt_str (fmt_pair fmt_u64 (fmt_pair fmt_bytes
         (fmt_pair (fmt_list fmt_bytes) (fmt_option fmt_u64)))))"

definition fmt_entry :: "module_entry fmt" where
  "fmt_entry =
     fmt_map (\<lambda>e. (me_kind e, me_pending e, me_history e))
       (\<lambda>(k, p, h). Some \<lparr>me_kind = k, me_pending = p, me_history = h\<rparr>)
       (fmt_pair fmt_kind
         (fmt_pair (fmt_option fmt_swap) (fmt_list fmt_activation)))"

definition fmt_u32 :: "u32 fmt" where
  "fmt_u32 = fmt_map (\<lambda>w. ucast w :: u64) (\<lambda>w. Some (ucast w)) fmt_u64"

definition fmt_stream :: "lane_stream fmt" where
  "fmt_stream =
     fmt_map
       (\<lambda>s. (case ls_pacing s of PacingShared \<Rightarrow> None | PacingLocal a b \<Rightarrow> Some (a, b), ls_accept_backlog s))
       (\<lambda>(p, b). Some \<lparr>ls_pacing = (case p of None \<Rightarrow> PacingShared | Some (x, y) \<Rightarrow> PacingLocal x y),
          ls_accept_backlog = b\<rparr>)
       (fmt_pair (fmt_option (fmt_pair fmt_u64 fmt_u64)) fmt_u32)"

definition fmt_lane :: "lane_record fmt" where
  "fmt_lane =
     fmt_map (\<lambda>l. (lr_id l, lr_module_id l, lr_name l, lr_stream l))
       (\<lambda>(i, m, n, s). Some \<lparr>lr_id = i, lr_module_id = m, lr_name = n, lr_stream = s\<rparr>)
       (fmt_pair fmt_byte (fmt_pair fmt_str (fmt_pair fmt_str (fmt_option fmt_stream))))"

definition fmt_decl :: "lane_decl fmt" where
  "fmt_decl =
     fmt_map (\<lambda>d. (ld_id d, ld_name d, ld_stream d))
       (\<lambda>(i, n, s). Some \<lparr>ld_id = i, ld_name = n, ld_stream = s\<rparr>)
       (fmt_pair fmt_byte (fmt_pair fmt_str (fmt_option fmt_stream)))"

definition fmt_modules_msg :: "modules_msg fmt" where
  "fmt_modules_msg =
     fmt_map
       (\<lambda>op. case op of
            RegisterModule i k c d \<Rightarrow> (0, [], i, k, 0, c, d)
          | ScheduleSwap n i h c \<Rightarrow> (1, n, i, KindModule, h, c, [])
          | ScheduleRegister n i k h c d \<Rightarrow> (2, n, i, k, h, c, d)
          | CancelSwap n i \<Rightarrow> (3, n, i, KindModule, 0, [], [])
          | SwapReady n i c \<Rightarrow> (4, n, i, KindModule, 0, c, [])
          | Advance \<Rightarrow> (5, [], [], KindModule, 0, [], []))
       (\<lambda>(t, n, i, k, h, c, d).
          if t = 0 then Some (RegisterModule i k c d) else if t = 1 then Some (ScheduleSwap n i h c)
          else if t = 2 then Some (ScheduleRegister n i k h c d) else if t = 3 then Some (CancelSwap n i)
          else if t = 4 then Some (SwapReady n i c) else if t = 5 then Some Advance else None)
       (fmt_pair fmt_byte (fmt_pair fmt_str (fmt_pair fmt_str (fmt_pair fmt_kind (fmt_pair fmt_u64
         (fmt_pair fmt_bytes (fmt_list fmt_decl)))))))"

definition fmt_modules_query :: "modules_query_msg fmt" where
  "fmt_modules_query =
     fmt_map (\<lambda>q. case q of MqModuleStatus \<Rightarrow> (0, 0) | MqArmedAt h \<Rightarrow> (1, h) | MqLanes \<Rightarrow> (2, 0))
       (\<lambda>(t, h). if t = 0 then Some MqModuleStatus else if t = 1 then Some (MqArmedAt h)
          else if t = 2 then Some MqLanes else None)
       (fmt_pair fmt_byte fmt_u64)"

definition fmt_module_code :: "module_code fmt" where
  "fmt_module_code =
     fmt_map (\<lambda>c. (mc_module_id c, mc_kind c, mc_active_code_hash c, mc_pending c, mc_history c))
       (\<lambda>(i, k, a, p, h). Some \<lparr>mc_module_id = i, mc_kind = k, mc_active_code_hash = a, mc_pending = p,
          mc_history = h\<rparr>)
       (fmt_pair fmt_str (fmt_pair fmt_kind (fmt_pair fmt_bytes
         (fmt_pair (fmt_option fmt_swap) (fmt_list fmt_activation)))))"

definition fmt_armed_swap :: "armed_swap fmt" where
  "fmt_armed_swap =
     fmt_map (\<lambda>a. (as_module_id a, as_code_hash a)) (\<lambda>(i, c). Some \<lparr>as_module_id = i, as_code_hash = c\<rparr>)
       (fmt_pair fmt_str fmt_bytes)"

definition fmt_modules_reply :: "modules_reply fmt" where
  "fmt_modules_reply =
     fmt_map
       (\<lambda>r. case r of MrModuleStatus c \<Rightarrow> (0, c, [], []) | MrArmedAt a \<Rightarrow> (1, [], a, []) | MrLanes l \<Rightarrow> (2, [], [], l))
       (\<lambda>(t, c, a, l). if t = 0 then Some (MrModuleStatus c) else if t = 1 then Some (MrArmedAt a)
          else if t = 2 then Some (MrLanes l) else None)
       (fmt_pair fmt_byte (fmt_pair (fmt_list fmt_module_code)
         (fmt_pair (fmt_list fmt_armed_swap) (fmt_list fmt_lane))))"

definition modules_fmts :: modules_wires where
  "modules_fmts =
     \<lparr>mw_msg = serde_of fmt_modules_msg, mw_query = serde_of fmt_modules_query,
      mw_reply = serde_of fmt_modules_reply, mw_debug_reply = (\<lambda>_. [])\<rparr>"

definition registry_fmts :: registry_wires where
  "registry_fmts =
     \<lparr>rw_wire = modules_fmts, rw_roster = serde_of (fmt_list fmt_str), rw_entry = serde_of fmt_entry,
      rw_lanes = serde_of (fmt_list fmt_lane), rw_seeds = \<lparr>to_vec = (\<lambda>_. []), from_slice = (\<lambda>_. Inr [])\<rparr>,
      rw_valset = valset_fmts\<rparr>"

lemma fmt_kind_ok: "fmt_ok fmt_kind"
  unfolding fmt_kind_def
  by (intro fmt_oks) (simp_all add: kind_code_def kind_of_code_def split: kind.split)

lemma fmt_activation_ok: "fmt_ok fmt_activation"
  unfolding fmt_activation_def by (intro fmt_oks fmt_u64_ok) simp

lemma fmt_swap_ok: "fmt_ok fmt_swap"
  unfolding fmt_swap_def by (intro fmt_oks fmt_u64_ok) simp

lemma fmt_entry_ok: "fmt_ok fmt_entry"
  unfolding fmt_entry_def by (intro fmt_oks fmt_kind_ok fmt_activation_ok fmt_swap_ok) simp

lemma fmt_stream_ok: "fmt_ok fmt_stream"
proof -
  have "fmt_ok fmt_u32"
    unfolding fmt_u32_def
    by (intro fmt_oks fmt_u64_ok) (simp, rule bit_word_eqI, simp add: bit_simps)
  then show ?thesis
    unfolding fmt_stream_def by (intro fmt_oks fmt_u64_ok) (simp_all split: lane_pacing.split)
qed

lemma fmt_lane_ok: "fmt_ok fmt_lane"
  unfolding fmt_lane_def by (intro fmt_oks fmt_stream_ok) simp_all

lemma fmt_modules_msg_ok: "fmt_ok fmt_modules_msg"
proof -
  have "fmt_ok fmt_decl" unfolding fmt_decl_def by (intro fmt_oks fmt_stream_ok) simp
  then show ?thesis
    unfolding fmt_modules_msg_def
    by (intro fmt_oks fmt_kind_ok fmt_u64_ok) (simp_all split: modules_msg.split)
qed

lemma fmt_modules_query_ok: "fmt_ok fmt_modules_query"
  unfolding fmt_modules_query_def by (intro fmt_oks fmt_u64_ok) (simp split: modules_query_msg.split)

lemma fmt_modules_reply_ok: "fmt_ok fmt_modules_reply"
proof -
  have "fmt_ok fmt_module_code"
    unfolding fmt_module_code_def by (intro fmt_oks fmt_kind_ok fmt_activation_ok fmt_swap_ok) simp
  moreover have "fmt_ok fmt_armed_swap" unfolding fmt_armed_swap_def by (intro fmt_oks) simp
  ultimately show ?thesis
    unfolding fmt_modules_reply_def by (intro fmt_oks fmt_lane_ok) (simp_all split: modules_reply.split)
qed

lemma registry_fmts_borsh: "registry_borsh registry_fmts"
  by (simp add: registry_borsh_def registry_fmts_def serde_of_round_trips fmt_oks fmt_entry_ok fmt_lane_ok)

section \<open>A registry to run\<close>

text \<open>One module whose swap is armed at height 10, over the in-memory store.\<close>

definition demo_swap :: scheduled_swap where
  "demo_swap =
     \<lparr>sw_name = ''v2'', sw_activation_height = 9, sw_code_hash = replicate 32 2, sw_readiness = [demo_key],
      sw_ready_at = Some 7\<rparr>"

definition demo_entry :: module_entry where
  "demo_entry =
     \<lparr>me_kind = KindModule, me_pending = Some demo_swap, me_history = [activation_at 0 (replicate 32 1)]\<rparr>"

definition demo_registry :: "module_entry \<Rightarrow> mem_store modules" where
  "demo_registry e =
     modules_new ''modules''
       \<lparr>mem_map = bt_insert MODULE_ROSTER_KEY (to_vec (rw_roster registry_fmts) [''kv''])
          (bt_insert (mod_key ''kv'') (to_vec (rw_entry registry_fmts) e) [])\<rparr>
       ''valset'' ''governance''"

abbreviation demo_tick :: env where
  "demo_tick \<equiv> \<lparr>env_height = 10, env_consensus_time = 10, env_origin = System, env_me = ''modules'', env_cause = Direct\<rparr>"

lemma registry_demo_boundary:
  assumes "hashes_ok [''kv'' \<mapsto> e]"
  shows "registry_boundary mem_view mem_ok (mem_lib id) registry_fmts (demo_registry e) [''kv'' \<mapsto> e] []"
proof -
  have "registry_at registry_fmts (md_committed mem_view (mem_lib id) (demo_registry e)) [''kv'' \<mapsto> e] []"
    by (simp add: registry_at_def demo_registry_def modules_new_def staged_new_def committed_def store_key_def
        mem_lib_def del: bt_insert.simps)
  with assms show ?thesis
    by (simp add: registry_boundary_def demo_registry_def modules_new_def staged_new_def staged_ok_def
        del: bt_insert.simps)
qed

lemma demo_armed: "armed_at demo_swap 10"
  by (simp add: armed_at_def demo_swap_def)

lemma demo_registry_boundary:
  "registry_boundary mem_view mem_ok (mem_lib id) registry_fmts (demo_registry demo_entry)
     [''kv'' \<mapsto> demo_entry] []"
  by (rule registry_demo_boundary) (simp add: hashes_ok_def demo_entry_def demo_swap_def activation_at_def)

lemma mem_keys_inj: "inj_on (store_key (mem_lib id)) K"
  by (simp add: inj_on_def store_key_def mem_lib_def)

text \<open>Blocks 10 and 11 with no operation: the first activates the swap, the second is empty.\<close>

lemma two_blocks:
  assumes "registry_boundary mem_view mem_ok (mem_lib id) registry_fmts m E T"
  obtains m1 m2 where "registry_block (mem_lib id) registry_fmts 10 m m1"
    "registry_blocks (mem_lib id) registry_fmts 10 m1 m2"
proof -
  note complete = merkle_laws.block_completes [OF mem.merkle_laws_axioms [of id] _ registry_fmts_borsh]
  obtain m1 where 1: "registry_block (mem_lib id) registry_fmts 10 m m1"
    using complete [OF assms rtranclp.rtrancl_refl] by blast
  then obtain E T where "registry_boundary mem_view mem_ok (mem_lib id) registry_fmts m1 E T"
    using merkle_laws.block_refines [OF mem.merkle_laws_axioms [of id] assms registry_fmts_borsh mem_keys_inj] by blast
  from complete [OF this rtranclp.rtrancl_refl] obtain m2 where
    "registry_block (mem_lib id) registry_fmts 11 m1 m2" by blast
  then have "registry_blocks (mem_lib id) registry_fmts 10 m1 m2"
    by (intro blocks_next [OF _ _ blocks_none]) simp_all
  with 1 that show thesis by blast
qed

lemmas demo_blocks = two_blocks [OF demo_registry_boundary]

text \<open>The same registry with two lanes of the module in the lane table.\<close>

definition demo_lanes :: "lane_record list" where
  "demo_lanes =
     [\<lparr>lr_id = 7, lr_module_id = ''kv'', lr_name = ''reads'', lr_stream = None\<rparr>,
      \<lparr>lr_id = 9, lr_module_id = ''kv'', lr_name = ''writes'', lr_stream = None\<rparr>]"

definition laned_registry :: "mem_store modules" where
  "laned_registry =
     modules_new ''modules''
       \<lparr>mem_map = bt_insert LANE_TABLE_KEY (to_vec (rw_lanes registry_fmts) demo_lanes)
          (bt_insert MODULE_ROSTER_KEY (to_vec (rw_roster registry_fmts) [''kv''])
            (bt_insert (mod_key ''kv'') (to_vec (rw_entry registry_fmts) demo_entry) []))\<rparr>
       ''valset'' ''governance''"

lemma laned_boundary:
  "registry_boundary mem_view mem_ok (mem_lib id) registry_fmts laned_registry [''kv'' \<mapsto> demo_entry] demo_lanes"
proof -
  have "registry_at registry_fmts (md_committed mem_view (mem_lib id) laned_registry) [''kv'' \<mapsto> demo_entry] demo_lanes"
    by (simp add: registry_at_def laned_registry_def modules_new_def staged_new_def committed_def store_key_def
        mem_lib_def del: bt_insert.simps)
  moreover have "hashes_ok [''kv'' \<mapsto> demo_entry]"
    by (simp add: hashes_ok_def demo_entry_def demo_swap_def activation_at_def)
  ultimately show ?thesis
    by (simp add: registry_boundary_def laned_registry_def modules_new_def staged_new_def staged_ok_def
        del: bt_insert.simps)
qed

lemma demo_lanes_ok: "lanes_ok {''kv''} demo_lanes"
proof -
  have "lane_name_is_well_formed ''reads''" "lane_name_is_well_formed ''writes''" by code_simp+
  then show ?thesis by (simp add: lanes_ok_def demo_lanes_def MAX_LANE_ID_def RESERVED_LANE_IDS_def)
qed

text \<open>A schedule and the signal of the only validator.\<close>

definition demo_quiet :: module_entry where
  "demo_quiet = demo_entry\<lparr>me_pending := None\<rparr>"

definition demo_answers :: answers where
  "demo_answers target req = Inr (wire_encode (vw_reply valset_fmts) (RValidators [demo_key]))"

definition demo_signals :: "registry_step list" where
  "demo_signals =
     [(demo_answers, demo_tick\<lparr>env_height := 1\<rparr>, ScheduleSwap ''v2'' ''kv'' 9 (replicate 32 2)),
      (demo_answers, demo_tick\<lparr>env_height := 7, env_origin := External demo_key\<rparr>,
       SwapReady ''v2'' ''kv'' (replicate 32 2))]"

lemma demo_answers_members: "answered_members registry_fmts vid demo_answers = Inr [demo_key]"
  using serde_of_round_trips [OF fmt_valset_oks(3), of UNIV]
  by (simp add: answered_members_def members_def demo_answers_def registry_fmts_def valset_fmts_def
      validators_reply_def wire_encode_def wire_decode_def round_trips_on_def)

lemma demo_quiet_boundary:
  "registry_boundary mem_view mem_ok (mem_lib id) registry_fmts (demo_registry demo_quiet)
     [''kv'' \<mapsto> demo_quiet] []"
  by (rule registry_demo_boundary) (simp add: hashes_ok_def demo_quiet_def demo_entry_def activation_at_def)

lemma demo_signal_run:
  obtains m' e where "registry_run (mem_lib id) registry_fmts demo_signals (demo_registry demo_quiet) m'"
    "registry_entry (mem_lib id) registry_fmts m' ''kv'' = Inr (Some e)" "me_pending e = Some demo_swap"
proof -
  let ?L = "mem_lib id" and ?W = registry_fmts and ?m = "demo_registry demo_quiet"
  let ?e1 = "demo_quiet\<lparr>me_pending := Some (fresh_swap ''v2'' 9 (replicate 32 2))\<rparr>"
  let ?e2 = "?e1\<lparr>me_pending := Some (signal_swap 7 [demo_key] demo_key (fresh_swap ''v2'' 9 (replicate 32 2)))\<rparr>"
  let ?m1 = "md_store (rw_entry ?W) ?m (mod_key ''kv'') ?e1"
  let ?m2 = "md_store (rw_entry ?W) ?m1 (mod_key ''kv'') ?e2"
  note holds = boundary_holds [OF demo_quiet_boundary]
  note reads = mem.registry_reads(1) [OF _ registry_fmts_borsh]
  note store = holds_store_entry [where i = "''kv''"]
  have holds1: "registry_holds mem_view mem_ok ?L ?W ?m1 [''kv'' \<mapsto> ?e1] []"
    using store [OF holds, of ?e1] by simp
  have holds2: "registry_holds mem_view mem_ok ?L ?W ?m2 [''kv'' \<mapsto> ?e2] []"
    using store [OF holds1, of ?e2] by simp
  have op1: "ctx_answer demo_answers (\<lambda>_. None) (modules_handle ?L ?W ?m (demo_tick\<lparr>env_height := 1\<rparr>)
      (ScheduleSwap ''v2'' ''kv'' 9 (replicate 32 2))) = (?m1, Inr ())"
    using reads [OF holds, of "''kv''"]
    by (simp add: handle_schedule_swap_def require_governance_or_system_def require_hash_len_def CODE_HASH_LEN_def
        lead_floor_def saturating_add_def MIN_SWAP_LEAD_def demo_quiet_def demo_entry_def active_code_hash_def
        activation_at_def)
  have op2: "ctx_answer demo_answers (\<lambda>_. None)
      (modules_handle ?L ?W ?m1 (demo_tick\<lparr>env_height := 7, env_origin := External demo_key\<rparr>)
        (SwapReady ''v2'' ''kv'' (replicate 32 2))) = (?m2, Inr ())"
    using reads [OF holds1, of "''kv''"] demo_answers_members
    by (simp add: handle_swap_ready_def ctx_answer_bind answered_members_def credit_signal_def fresh_swap_def)
  have "registry_run ?L ?W demo_signals ?m ?m2"
    unfolding demo_signals_def using run_op [OF run_op [OF run_none op1] op2] by simp
  moreover have "registry_entry ?L ?W ?m2 ''kv'' = Inr (Some ?e2)" using reads [OF holds2] by simp
  moreover have "me_pending ?e2 = Some demo_swap"
    by (simp add: signal_swap_def fresh_swap_def demo_swap_def binary_search_def binary_search_by_def
        bisect.simps cmp_def vec_insert_def stale_at_def Let_def)
  ultimately show thesis by (rule that)
qed

section \<open>What the chain can rely on\<close>

text \<open>
  C9: Whatever the operations of a block did before it, the boundary tick of the block succeeds and
  activates every swap that was armed when the block began: its module has no pending swap any more,
  its history is the one it had with the swap's hash activated at the block, and that hash is the code
  it runs.
\<close>

theorem registry_advance_activates:
  assumes "merkle_laws L view ok" and "registry_borsh W" and "registry_boundary view ok L W m E T"
    and "E i = Some e" and "me_pending e = Some p" and "armed_at p (env_height env)"
    and "(registry_op L W (env_height env))\<^sup>*\<^sup>* m m1" and "env_origin env = System"
  shows "\<exists>m2 e'. handle_advance L W m1 env = (m2, Inr ()) \<and> registry_entry L W m2 i = Inr (Some e') \<and>
     me_pending e' = None \<and>
     me_history e' = me_history e @ [activation_at (env_height env) (sw_code_hash p)] \<and>
     active_code_hash e' = sw_code_hash p"
proof -
  let ?h = "env_height env"
  obtain E1 T1 m2 where run: "(code_op ?h)\<^sup>*\<^sup>* (E, T) (E1, T1)"
    and adv: "handle_advance L W m1 env = (m2, Inr ())"
    and holds: "registry_holds view ok L W m2 (flip_armed ?h (armed_ids E ?h) E1) T1"
    using merkle_laws.advance_after_ops [OF assms(1,3,2,7,8)] by blast
  have armed: "armed_in E ?h i = Some (sw_code_hash p)" using assms(4-6) by (simp add: armed_in_def)
  then have "armed_in E1 ?h i = Some (sw_code_hash p)" using code_ops_armed [OF run, of ?h i] by simp
  then obtain e1 p1 where e1: "E1 i = Some e1" "me_pending e1 = Some p1" "sw_code_hash p1 = sw_code_hash p"
    by (auto simp: armed_in_def bind_eq_Some_conv split: if_splits)
  have "me_history e1 = me_history e" using code_ops_history [OF run] armed assms(4) e1(1) by simp
  moreover have "registry_entry L W m2 i = Inr (Some (flip_entry ?h e1))"
    using merkle_laws.registry_reads(1) [OF assms(1) holds assms(2), of i] armed e1(1)
    by (simp add: flip_armed_def armed_ids_def)
  ultimately show ?thesis
    using adv e1 by (simp add: flip_entry_def active_code_hash_def activation_at_def)
qed

theorem registry_advance_activates_witness:
  "\<exists>m2 e'. handle_advance (mem_lib id) registry_fmts (demo_registry demo_entry) demo_tick = (m2, Inr ()) \<and>
     registry_entry (mem_lib id) registry_fmts m2 ''kv'' = Inr (Some e') \<and>
     me_pending e' = None \<and>
     me_history e' = [activation_at 0 (replicate 32 1), activation_at 10 (replicate 32 2)] \<and>
     active_code_hash e' = replicate 32 2"
  using registry_advance_activates [OF mem.merkle_laws_axioms [of id] registry_fmts_borsh demo_registry_boundary,
      of "''kv''" demo_entry demo_swap demo_tick "demo_registry demo_entry"]
    demo_armed
  by (simp add: demo_entry_def demo_swap_def)

text \<open>
  C8: The code the registry designates for a block, once the block is committed, never changes: if the
  status before block \<open>h\<close> designates a hash for a module at \<open>h\<close>, then after block \<open>h\<close> and any further
  blocks, whatever they schedule, cancel, signal or activate, the status answers, lists each module
  once, and designates the same hash for that module at \<open>h\<close>.
\<close>

theorem designated_code_stable:
  assumes "merkle_laws L view ok" and "inj_on (store_key L) REG_KEYS" and "registry_borsh W"
    and "registry_boundary view ok L W m0 E T"
    and "registry_block L W h m0 m1" and "registry_blocks L W h m1 m2"
    and "status_reply L W m0 = Inr (MrModuleStatus codes)" and "c \<in> set codes" and "code_at c h = Some hash"
  shows "\<exists>codes' c'. status_reply L W m2 = Inr (MrModuleStatus codes') \<and>
     distinct (map mc_module_id codes') \<and> c' \<in> set codes' \<and>
     mc_module_id c' = mc_module_id c \<and> code_at c' h = Some hash"
proof -
  note status = merkle_laws.status_eq [OF assms(1) boundary_holds assms(3)]
  note dom = registry_boundary_finite
  have "c \<in> (\<lambda>i. code_of i (the (E i))) ` dom E"
    using assms(7,8) status [OF assms(4)] dom [OF assms(4)] by auto
  then obtain i e where i: "E i = Some e" "c = code_of i e" by auto
  then have designated: "code_for E h i = Some hash" using assms(9) by (simp add: code_for_def)
  obtain E1 T1 where 1: "registry_boundary view ok L W m1 E1 T1" "code_block h (E, T) (E1, T1)"
    using merkle_laws.block_refines [OF assms(1,4,3,2,5)] by blast
  have "settled E1 h" "code_for E1 h i = Some hash"
    using code_block_settles(1) [OF 1(2)] code_block_code [OF 1(2), of h i hash] designated by simp_all
  then obtain E2 T2 where 2: "registry_boundary view ok L W m2 E2 T2" "code_for E2 h i = Some hash"
    using merkle_laws.blocks_refine [OF assms(1,6) 1(1) assms(3,2), of h] by auto
  then obtain e2 where e2: "E2 i = Some e2" "code_at (code_of i e2) h = Some hash"
    by (auto simp: code_for_def bind_eq_Some_conv)
  have "code_of i e2 \<in> set (map (\<lambda>i. code_of i (the (E2 i))) (sorted_list_of_set (dom E2)))"
    using e2(1) dom [OF 2(1)] by force
  moreover have "distinct (map mc_module_id (map (\<lambda>i. code_of i (the (E2 i))) (sorted_list_of_set (dom E2))))"
    by (simp add: code_of_def comp_def)
  ultimately show ?thesis using status [OF 2(1)] e2(2) i(2) by (fastforce simp: code_of_def)
qed

theorem designated_code_stable_witness:
  "\<exists>m1 m2 codes' c'.
     registry_block (mem_lib id) registry_fmts 10 (demo_registry demo_entry) m1 \<and>
     registry_blocks (mem_lib id) registry_fmts 10 m1 m2 \<and>
     status_reply (mem_lib id) registry_fmts m2 = Inr (MrModuleStatus codes') \<and>
     c' \<in> set codes' \<and> mc_module_id c' = ''kv'' \<and> code_at c' 10 = Some (replicate 32 2)"
proof -
  let ?m = "demo_registry demo_entry"
  obtain m1 m2 where b: "registry_block (mem_lib id) registry_fmts 10 ?m m1"
    "registry_blocks (mem_lib id) registry_fmts 10 m1 m2"
    by (rule demo_blocks)
  have "status_reply (mem_lib id) registry_fmts ?m =
      Inr (MrModuleStatus [code_of ''kv'' demo_entry])"
    using merkle_laws.status_eq [OF mem.merkle_laws_axioms [of id] boundary_holds [OF demo_registry_boundary]
        registry_fmts_borsh] by simp
  from designated_code_stable [OF mem.merkle_laws_axioms mem_keys_inj registry_fmts_borsh demo_registry_boundary b
      this, of "code_of ''kv'' demo_entry" "replicate 32 2"] demo_armed b show ?thesis
    by (fastforce simp: code_at_def code_of_def demo_entry_def demo_swap_def)
qed

text \<open>
  C27: The lane table stays well-formed over any blocks: the table the registry answers is ascending in
  its lane ids (so no id is claimed twice), uses only declarable ids and well-formed names, gives a
  module no name twice, and every lane belongs to a module of the status.
\<close>

theorem registry_lanes_unique:
  assumes "merkle_laws L view ok" and "inj_on (store_key L) REG_KEYS" and "registry_borsh W"
    and "registry_boundary view ok L W m E T" and "lanes_ok (dom E) T" and "registry_blocks L W h m m'"
  shows "\<exists>table codes. lanes_reply L W m' = Inr (MrLanes table) \<and>
     status_reply L W m' = Inr (MrModuleStatus codes) \<and> lanes_ok (mc_module_id ` set codes) table"
proof -
  have "\<exists>E' T'. registry_boundary view ok L W m' E' T' \<and> lanes_ok (dom E') T'"
    using assms(6,4,5)
  proof (induction h m m' arbitrary: E T rule: registry_blocks.induct)
    case (blocks_next h h' m m1 m2)
    then obtain E1 T1 where "registry_boundary view ok L W m1 E1 T1" "code_block h' (E, T) (E1, T1)"
      using merkle_laws.block_refines [OF assms(1) blocks_next.prems(1) assms(3,2)] by blast
    with blocks_next lanes_ok_block [of h' "(E, T)" "(E1, T1)"] show ?case by simp
  qed blast
  then obtain E' T' where b: "registry_boundary view ok L W m' E' T'" "lanes_ok (dom E') T'" by blast
  note holds = boundary_holds [OF b(1)]
  have "mc_module_id ` set (map (\<lambda>i. code_of i (the (E' i))) (sorted_list_of_set (dom E'))) = dom E'"
    using registry_boundary_finite [OF b(1)] by (simp add: image_comp comp_def code_of_def)
  with merkle_laws.status_eq [OF assms(1) holds assms(3)] merkle_laws.registry_reads(3) [OF assms(1) holds assms(3)] b(2)
  show ?thesis by (simp add: lanes_reply_def)
qed

theorem registry_lanes_unique_witness:
  "\<exists>m' table codes.
     registry_blocks (mem_lib id) registry_fmts 9 laned_registry m' \<and>
     lanes_reply (mem_lib id) registry_fmts m' = Inr (MrLanes table) \<and>
     status_reply (mem_lib id) registry_fmts m' = Inr (MrModuleStatus codes) \<and>
     lanes_ok (mc_module_id ` set codes) table"
proof -
  obtain m1 m2 where b: "registry_block (mem_lib id) registry_fmts 10 laned_registry m1"
    "registry_blocks (mem_lib id) registry_fmts 10 m1 m2"
    by (rule two_blocks [OF laned_boundary])
  have run: "registry_blocks (mem_lib id) registry_fmts 9 laned_registry m2"
    by (rule blocks_next [OF _ b]) simp
  have "lanes_ok (dom [''kv'' \<mapsto> demo_entry]) demo_lanes" using demo_lanes_ok by simp
  from registry_lanes_unique [OF mem.merkle_laws_axioms mem_keys_inj registry_fmts_borsh laned_boundary this run] run
  show ?thesis by blast
qed

text \<open>
  C7: A swap arms only after every validator signalled it. In any run of messages and commits from a
  registry where the module has no pending swap, if afterwards its swap is armed for height \<open>h\<close>, then
  it latched at some height below \<open>h\<close>, at a readiness signal for that very hash, when the validator
  set as answered to that signal was not empty and each of its members had itself signalled that hash
  in the run.
\<close>

theorem swap_arms_on_signals:
  assumes "merkle_laws L view ok" and "inj_on (store_key L) REG_KEYS" and "registry_borsh W"
    and "registry_boundary view ok L W m E T" and "\<And>e. E i = Some e \<Longrightarrow> me_pending e = None"
    and "registry_run L W tr m m'"
    and "registry_entry L W m' i = Inr (Some e)" and "me_pending e = Some p" and "armed_at p h"
  shows "\<exists>r ask env name mems. sw_ready_at p = Some r \<and> r < h \<and>
     (ask, env, SwapReady name i (sw_code_hash p)) \<in> set tr \<and> env_height env = r \<and>
     answered_members W (md_valset_id m) ask = Inr mems \<and> mems \<noteq> [] \<and>
     (\<forall>k\<in>set mems. signalled tr i (sw_code_hash p) k)"
proof -
  have "hashes_ok E" using assms(4) by (simp add: registry_boundary_def)
  then obtain E' T' where E': "registry_holds view ok L W m' E' T'" "all_backed W (md_valset_id m) tr i E'"
    using merkle_laws.run_backed [OF assms(1,6,2,3) boundary_holds [OF assms(4)] _ assms(5)] by blast
  have "E' i = Some e" using merkle_laws.registry_reads(1) [OF assms(1) E'(1) assms(3), of i] assms(7) by simp
  moreover obtain r where "sw_ready_at p = Some r" "r < h"
    using assms(9) by (auto simp: armed_at_def split: option.splits)
  ultimately show ?thesis
    using E'(2) assms(8) unfolding all_backed_def backed_def latch_backed_def by blast
qed

theorem swap_arms_on_signals_witness:
  "\<exists>m' e. registry_run (mem_lib id) registry_fmts demo_signals (demo_registry demo_quiet) m' \<and>
     registry_entry (mem_lib id) registry_fmts m' ''kv'' = Inr (Some e) \<and> me_pending e = Some demo_swap \<and>
     (\<exists>ask mems. answered_members registry_fmts ''valset'' ask = Inr mems \<and> demo_key \<in> set mems \<and>
        (\<forall>k\<in>set mems. signalled demo_signals ''kv'' (replicate 32 2) k))"
proof -
  obtain m' e where run: "registry_run (mem_lib id) registry_fmts demo_signals (demo_registry demo_quiet) m'"
    and e: "registry_entry (mem_lib id) registry_fmts m' ''kv'' = Inr (Some e)" "me_pending e = Some demo_swap"
    by (rule demo_signal_run)
  have valset: "md_valset_id (demo_registry demo_quiet) = ''valset''"
    by (simp add: demo_registry_def modules_new_def)
  obtain ask env name mems where s: "(ask, env, SwapReady name ''kv'' (replicate 32 2)) \<in> set demo_signals"
    "answered_members registry_fmts ''valset'' ask = Inr mems"
    "\<forall>k\<in>set mems. signalled demo_signals ''kv'' (replicate 32 2) k"
    using swap_arms_on_signals [OF mem.merkle_laws_axioms mem_keys_inj registry_fmts_borsh demo_quiet_boundary
        _ run e demo_armed] valset
    by (auto simp: demo_quiet_def demo_swap_def)
  then have "ask = demo_answers" by (auto simp: demo_signals_def)
  then have "mems = [demo_key]" using s(2) demo_answers_members by simp
  with s have "demo_key \<in> set mems" by simp
  with run e s show ?thesis by blast
qed

end
