(* ===== verification/Wasm_Wit.thy ===== *)
theory Wasm_Wit
  imports Sdk
begin

text \<open>
  The boundary types of the wasm embedding (\<^verbatim>\<open>crates/kernel/wasm-host/src/lib.rs\<close>): the limits, what
  a component declares about itself, and the values of the interface
  \<^verbatim>\<open>crates/module-sdk/wit/module.wit\<close> with their conversions from and to the types of the sdk. The
  lemmas show that a value that crosses the boundary and comes back is the value that went in.

  The git results are the types of \<^verbatim>\<open>crates/git-primitives\<close>; the twins the build generates for the
  guest are not told apart from them.
\<close>

section \<open>Limits\<close>

definition DEFAULT_FUEL :: nat where
  "DEFAULT_FUEL = 8000000000"

definition MAX_SIBLING_READS :: nat where
  "MAX_SIBLING_READS = 64"

definition MAX_STORE_READS :: nat where
  "MAX_STORE_READS = 4096"

definition MAX_OBJECT_READS :: nat where
  "MAX_OBJECT_READS = 4096"

definition MAX_HOST_BYTES :: nat where
  "MAX_HOST_BYTES = 64 * 1024 * 1024"

definition HOST_ENTRY_BYTES :: nat where
  "HOST_ENTRY_BYTES = 64"

definition MAX_GIT_DIFF_PATH_BYTES :: nat where
  "MAX_GIT_DIFF_PATH_BYTES = 4096"

definition REFS_KEY :: bytes where
  "REFS_KEY = as_bytes ''__state''"

definition PENDING_READ_TRAP :: string where
  "PENDING_READ_TRAP = ''pending host read (host resolves and replays)''"

section \<open>Shapes\<close>

datatype backing = BackingMap | BackingStore | BackingOdb | BackingGit

fun debug_backing :: "backing \<Rightarrow> string" where
  "debug_backing BackingMap = ''Map''"
| "debug_backing BackingStore = ''Store''"
| "debug_backing BackingOdb = ''Odb''"
| "debug_backing BackingGit = ''Git''"

record shape =
  sh_backing :: backing
  sh_config :: "string list"
  sh_committed_queries :: bool

datatype wit_backing = WitBackingMap | WitBackingStore | WitBackingOdb | WitBackingGit

record wit_shape =
  wsh_backing :: wit_backing
  wsh_config :: "string list"
  wsh_committed_queries :: bool

definition shape_from_wit :: "wit_shape \<Rightarrow> shape" where
  "shape_from_wit declared =
     \<lparr>sh_backing = (case wsh_backing declared of
        WitBackingMap \<Rightarrow> BackingMap
      | WitBackingStore \<Rightarrow> BackingStore
      | WitBackingOdb \<Rightarrow> BackingOdb
      | WitBackingGit \<Rightarrow> BackingGit),
      sh_config = wsh_config declared, sh_committed_queries = wsh_committed_queries declared\<rparr>"

section \<open>Git results\<close>

record git_commit =
  gc_tree :: bytes
  gc_parents :: "bytes list"
  gc_author :: string
  gc_committed_at :: u64
  gc_message :: string

record git_tree_entry =
  gt_kind :: byte
  gt_name :: bytes
  gt_oid :: bytes

datatype git_object_data =
    GitDataCommit git_commit
  | GitDataTree "git_tree_entry list"
  | GitDataBlob bytes
  | GitDataTag bytes

record git_object =
  go_kind :: byte
  go_size :: u64
  go_data :: "git_object_data option"

record git_diff_budget =
  gb_max_bytes :: u64
  gb_max_files :: u64
  gb_max_blob_bytes :: u64

datatype git_file_status = GitAdded | GitModified | GitDeleted | GitRenamed | GitTypeChanged

record git_diff_file =
  gf_path :: string
  gf_previous_path :: "string option"
  gf_status :: git_file_status
  gf_additions :: "u64 option"
  gf_deletions :: "u64 option"
  gf_binary :: bool
  gf_truncated :: bool

record git_diff =
  gd_patch :: string
  gd_truncated :: bool
  gd_files_changed :: u64
  gd_additions :: u64
  gd_deletions :: u64
  gd_files :: "git_diff_file list"

datatype git_diff_error = GitUnavailable string | GitLimit string | GitUnsupported

definition valid_git_repository :: "string \<Rightarrow> bool" where
  "valid_git_repository repository \<longleftrightarrow>
     (let bounded = repository \<noteq> [] \<and> length repository \<le> 255 \<and> hd repository \<noteq> CHR ''.'';
          safe = list_all (\<lambda>c. c \<in> set ''abcdefghijklmnopqrstuvwxyz'' \<or> c \<in> set ''ABCDEFGHIJKLMNOPQRSTUVWXYZ'' \<or>
            c \<in> set ''0123456789'' \<or> c \<in> set ''._-'') repository
      in bounded \<and> safe)"

section \<open>Interface values\<close>

datatype wit_origin = WitExternal bytes | WitFromModule string | WitProgram u64 | WitSystem

record wit_call_id =
  wci_requester :: string
  wci_invocation :: string
  wci_step :: u64

record wit_item_ref =
  wir_source :: string
  wir_item :: u64

record wit_change_ref =
  wcr_source :: string
  wcr_seq :: u64

datatype wit_root = WitRootItem wit_item_ref | WitRootCall wit_call_id | WitRootChange wit_change_ref

datatype wit_hop = WitHopDelivery wit_item_ref | WitHopCall wit_call_id | WitHopCompletion wit_call_id

record wit_chain =
  wch_root :: wit_root
  wch_hop :: wit_hop

datatype wit_cause = WitDirect | WitChain wit_chain

record wit_env =
  we_height :: u64
  we_consensus_time :: u64
  we_me :: string
  we_origin :: wit_origin
  we_cause :: wit_cause

record wit_pending_item =
  wpi_item :: u64
  wpi_target :: string
  wpi_payload :: bytes
  wpi_cause :: wit_cause

datatype wit_delivery_outcome = WitApplied | WitFailed string | WitUnrepresentable

record wit_ack =
  wack_item :: u64
  wack_target :: string
  wack_outcome :: wit_delivery_outcome

datatype wit_error =
    WitRejected string
  | WitUnknownModule string
  | WitSelfQuery
  | WitUnsupported
  | WitSyncUnsupported
  | WitSwapUnsupported
  | WitBudgetExceeded

section \<open>Conversions\<close>

text \<open>A panic of the sibling is no value, so it has no image; the caller passes it on.\<close>

fun to_wit_error :: "error \<Rightarrow> wit_error" where
  "to_wit_error (UnknownModule i) = WitUnknownModule i"
| "to_wit_error SelfQuery = WitSelfQuery"
| "to_wit_error QueryUnsupported = WitUnsupported"
| "to_wit_error SyncUnsupported = WitSyncUnsupported"
| "to_wit_error SwapUnsupported = WitSwapUnsupported"
| "to_wit_error BudgetExceeded = WitBudgetExceeded"
| "to_wit_error (ModuleError message) = WitRejected message"
| "to_wit_error (Panicked message) = WitRejected message"

fun wit_err :: "wit_error \<Rightarrow> error" where
  "wit_err (WitUnknownModule i) = UnknownModule i"
| "wit_err WitSelfQuery = SelfQuery"
| "wit_err WitUnsupported = QueryUnsupported"
| "wit_err WitSyncUnsupported = SyncUnsupported"
| "wit_err WitSwapUnsupported = SwapUnsupported"
| "wit_err WitBudgetExceeded = BudgetExceeded"
| "wit_err (WitRejected message) = ModuleError message"

definition to_wit_call_id :: "call_id \<Rightarrow> wit_call_id" where
  "to_wit_call_id i =
     \<lparr>wci_requester = ci_requester i, wci_invocation = ci_invocation i, wci_step = ci_step i\<rparr>"

definition call_id_from_wit :: "wit_call_id \<Rightarrow> call_id" where
  "call_id_from_wit i =
     \<lparr>ci_requester = wci_requester i, ci_invocation = wci_invocation i, ci_step = wci_step i\<rparr>"

definition to_wit_item_ref :: "item_ref \<Rightarrow> wit_item_ref" where
  "to_wit_item_ref item = \<lparr>wir_source = ir_source item, wir_item = ir_item item\<rparr>"

definition item_ref_from_wit :: "wit_item_ref \<Rightarrow> item_ref" where
  "item_ref_from_wit item = \<lparr>ir_source = wir_source item, ir_item = wir_item item\<rparr>"

fun to_wit_cause :: "cause \<Rightarrow> wit_cause" where
  "to_wit_cause Direct = WitDirect"
| "to_wit_cause (Chain root hop) = WitChain
     \<lparr>wch_root = (case root of
        RootItem item \<Rightarrow> WitRootItem (to_wit_item_ref item)
      | RootCall i \<Rightarrow> WitRootCall (to_wit_call_id i)
      | RootChange source seq \<Rightarrow> WitRootChange \<lparr>wcr_source = source, wcr_seq = seq\<rparr>),
      wch_hop = (case hop of
        HopDelivery item \<Rightarrow> WitHopDelivery (to_wit_item_ref item)
      | HopCall i \<Rightarrow> WitHopCall (to_wit_call_id i)
      | HopCompletion i \<Rightarrow> WitHopCompletion (to_wit_call_id i))\<rparr>"

fun cause_from_wit :: "wit_cause \<Rightarrow> cause" where
  "cause_from_wit WitDirect = Direct"
| "cause_from_wit (WitChain chain) = Chain
     (case wch_root chain of
        WitRootItem item \<Rightarrow> RootItem (item_ref_from_wit item)
      | WitRootCall i \<Rightarrow> RootCall (call_id_from_wit i)
      | WitRootChange change \<Rightarrow> RootChange (wcr_source change) (wcr_seq change))
     (case wch_hop chain of
        WitHopDelivery item \<Rightarrow> HopDelivery (item_ref_from_wit item)
      | WitHopCall i \<Rightarrow> HopCall (call_id_from_wit i)
      | WitHopCompletion i \<Rightarrow> HopCompletion (call_id_from_wit i))"

fun to_wit_origin :: "origin \<Rightarrow> wit_origin" where
  "to_wit_origin (External i) = WitExternal i"
| "to_wit_origin (Module i) = WitFromModule i"
| "to_wit_origin (Program account) = WitProgram account"
| "to_wit_origin System = WitSystem"

definition to_wit_env :: "env \<Rightarrow> wit_env" where
  "to_wit_env env =
     \<lparr>we_height = env_height env, we_consensus_time = env_consensus_time env, we_me = env_me env,
      we_origin = to_wit_origin (env_origin env), we_cause = to_wit_cause (env_cause env)\<rparr>"

definition sealed_env :: "string \<Rightarrow> wit_env" where
  "sealed_env me =
     \<lparr>we_height = 0, we_consensus_time = 0, we_me = me, we_origin = WitSystem, we_cause = WitDirect\<rparr>"

definition pending_item_from_wit :: "wit_pending_item \<Rightarrow> pending_item" where
  "pending_item_from_wit item =
     \<lparr>pi_item = wpi_item item, pi_target = wpi_target item, pi_payload = wpi_payload item,
      pi_cause = cause_from_wit (wpi_cause item)\<rparr>"

definition to_wit_ack :: "ack \<Rightarrow> wit_ack" where
  "to_wit_ack a =
     \<lparr>wack_item = ack_item a, wack_target = ack_target a,
      wack_outcome = (case ack_outcome a of
        DeliveryApplied \<Rightarrow> WitApplied
      | DeliveryFailed reason \<Rightarrow> WitFailed reason
      | DeliveryUnrepresentable \<Rightarrow> WitUnrepresentable)\<rparr>"

section \<open>Round trips\<close>

lemma call_id_round_trip [simp]:
  "call_id_from_wit (to_wit_call_id i) = i" "to_wit_call_id (call_id_from_wit w) = w"
  by (simp_all add: call_id_from_wit_def to_wit_call_id_def)

lemma item_ref_round_trip [simp]:
  "item_ref_from_wit (to_wit_item_ref i) = i" "to_wit_item_ref (item_ref_from_wit w) = w"
  by (simp_all add: item_ref_from_wit_def to_wit_item_ref_def)

lemma cause_round_trip: "cause_from_wit (to_wit_cause c) = c" "to_wit_cause (cause_from_wit w) = w"
proof -
  show "cause_from_wit (to_wit_cause c) = c" by (cases c) (auto split: root.split hop.split)
  show "to_wit_cause (cause_from_wit w) = w"
    by (cases w rule: cause_from_wit.cases) (auto split: wit_root.split wit_hop.split)
qed

lemma wit_error_round_trip:
  "to_wit_error (wit_err w) = w" "(\<forall>m. e \<noteq> Panicked m) \<Longrightarrow> wit_err (to_wit_error e) = e"
  by (cases w; simp) (cases e; simp)

lemma wit_err_not_panicked [simp]: "wit_err w \<noteq> Panicked m"
  by (cases w) simp_all

end
