(* ===== verification/Wasm_Guest.thy ===== *)
theory Wasm_Guest
  imports Wasm_Wit Staged_Store "HOL-Library.Product_Lexorder" "HOL-Library.Option_ord"
begin

text \<open>
  One run of a guest (\<^verbatim>\<open>crates/kernel/wasm-host/src/lib.rs\<close>, \<^verbatim>\<open>SiblingMemo\<close>, \<^verbatim>\<open>HostData\<close> and its host
  imports).

  A guest is any program: what an export of a freshly instantiated component does is a value of the
  codatatype \<open>guest\<close>, which spends fuel, calls the host and goes on with the answer, and may go on
  forever. Every instruction costs fuel (\<^verbatim>\<open>consume_fuel\<close>), so a call of the host costs at least one
  unit; this is what makes a run end.

  The object substrate behind the imports (\<^verbatim>\<open>Box<dyn OdbBacking>\<close>) is a value of the type \<open>'o\<close> with
  the operations of the record \<open>odb_ops\<close>.
\<close>

section \<open>The object substrate\<close>

record 'o odb_ops =
  odb_stat :: "'o \<Rightarrow> bytes \<Rightarrow> (byte \<times> u64) option"
  odb_get :: "'o \<Rightarrow> bytes \<Rightarrow> bytes option"
  odb_stage_put :: "'o \<Rightarrow> byte \<Rightarrow> bytes \<Rightarrow> 'o"
  odb_kind :: "'o \<Rightarrow> backing"
  odb_git_object_read :: "'o \<Rightarrow> string \<Rightarrow> bytes \<Rightarrow> u64 \<Rightarrow> error + git_object"
  odb_git_diff_read ::
    "'o \<Rightarrow> string \<Rightarrow> bytes \<Rightarrow> bytes \<Rightarrow> string option \<Rightarrow> git_diff_budget \<Rightarrow> git_diff_error + git_diff"
  odb_refs_bytes :: "'o \<Rightarrow> bytes"
  odb_root :: "'o \<Rightarrow> state_root"
  odb_install :: "'o \<Rightarrow> bytes \<Rightarrow> state_root \<Rightarrow> 'o \<times> (error + unit)"
  odb_adopt_refs :: "'o \<Rightarrow> bytes \<Rightarrow> 'o \<times> (error + unit)"
  odb_publish_block :: "'o \<Rightarrow> u64 \<Rightarrow> 'o \<times> (error + unit)"
  odb_discard_block :: "'o \<Rightarrow> 'o"

section \<open>Resolved reads\<close>

datatype pending_read =
    PendingRoot string
  | PendingQuery string bytes
  | PendingStates "bytes list"

type_synonym git_object_key = "string \<times> bytes \<times> u64"
type_synonym git_diff_key = "string \<times> bytes \<times> bytes \<times> string option \<times> u64 \<times> u64 \<times> u64"

record sibling_memo =
  sm_bytes :: nat
  sm_roots :: "(string \<times> bytes option) list"
  sm_queries :: "((string \<times> bytes) \<times> (wit_error + bytes)) list"
  sm_states :: "(bytes \<times> bytes option) list"
  sm_object_stats :: "(bytes \<times> (byte \<times> u64) option) list"
  sm_object_gets :: "(bytes \<times> bytes option) list"
  sm_git_objects :: "(git_object_key \<times> (wit_error + git_object)) list"
  sm_git_diffs :: "(git_diff_key \<times> (git_diff_error + git_diff)) list"

definition memo_default :: sibling_memo where
  "memo_default =
     \<lparr>sm_bytes = 0, sm_roots = [], sm_queries = [], sm_states = [], sm_object_stats = [],
      sm_object_gets = [], sm_git_objects = [], sm_git_diffs = []\<rparr>"

definition usize_add :: "nat \<Rightarrow> nat \<Rightarrow> nat" where
  "usize_add a b = min (a + b) usize_max"

definition memo_full :: error where
  "memo_full = ModuleError (''read-memo budget exceeded ('' @ show_nat MAX_HOST_BYTES @ '' bytes)'')"

definition check_capacity :: "sibling_memo \<Rightarrow> nat \<Rightarrow> error + unit" where
  "check_capacity memo n =
     (let next = usize_add (usize_add (sm_bytes memo) HOST_ENTRY_BYTES) n
      in if next > MAX_HOST_BYTES then Inl memo_full else Inr ())"

definition memo_charge :: "sibling_memo \<Rightarrow> nat \<Rightarrow> sibling_memo \<times> (error + unit)" where
  "memo_charge memo n =
     (case check_capacity memo n of
        Inl e \<Rightarrow> (memo, Inl e)
      | Inr _ \<Rightarrow> (memo\<lparr>sm_bytes := sm_bytes memo + HOST_ENTRY_BYTES + n\<rparr>, Inr ()))"

definition memo_len :: "sibling_memo \<Rightarrow> nat" where
  "memo_len memo = length (sm_roots memo) + length (sm_queries memo)"

definition object_len :: "sibling_memo \<Rightarrow> nat" where
  "object_len memo =
     length (sm_object_stats memo) + length (sm_object_gets memo) + length (sm_git_objects memo) +
     length (sm_git_diffs memo)"

definition within_budgets :: "sibling_memo \<Rightarrow> bool" where
  "within_budgets memo \<longleftrightarrow> memo_len memo \<le> MAX_SIBLING_READS \<and> length (sm_states memo) \<le> MAX_STORE_READS"

definition sibling_budget_error :: error where
  "sibling_budget_error = ModuleError (''sibling-read budget exceeded ('' @ show_nat MAX_SIBLING_READS @ '')'')"

definition store_budget_error :: error where
  "store_budget_error = ModuleError (''store-read budget exceeded ('' @ show_nat MAX_STORE_READS @ '')'')"

definition budget_error :: "sibling_memo \<Rightarrow> error" where
  "budget_error memo =
     (if memo_len memo > MAX_SIBLING_READS then sibling_budget_error else store_budget_error)"

text \<open>The bytes an answer of a sibling costs.\<close>

fun answer_bytes :: "wit_error + bytes \<Rightarrow> nat" where
  "answer_bytes (Inr bs) = length bs"
| "answer_bytes (Inl (WitUnknownModule t)) = length t"
| "answer_bytes (Inl (WitRejected t)) = length t"
| "answer_bytes (Inl _) = 0"

definition opt_length :: "'a list option \<Rightarrow> nat" where
  "opt_length v = (case v of None \<Rightarrow> 0 | Some bs \<Rightarrow> length bs)"

text \<open>
  \<^verbatim>\<open>SiblingMemo::resolve\<close>: the question goes to the context, the answer into the memo. A sibling that
  panics unwinds through the caller.
\<close>

definition retain_root :: "sibling_memo \<Rightarrow> string \<Rightarrow> bytes option \<Rightarrow> sibling_memo \<times> (error + unit)" where
  "retain_root memo target answer =
     st_then (memo_charge memo (length target + opt_length answer)) (\<lambda>memo _.
       (memo\<lparr>sm_roots := bt_insert target answer (sm_roots memo)\<rparr>, Inr ()))"

fun panic_of :: "error + 'a \<Rightarrow> string option" where
  "panic_of (Inl (Panicked message)) = Some message"
| "panic_of _ = None"

definition retain_query ::
  "sibling_memo \<Rightarrow> string \<Rightarrow> bytes \<Rightarrow> error + bytes \<Rightarrow> sibling_memo \<times> (error + unit)" where
  "retain_query memo target req r =
     (case panic_of r of
        Some message \<Rightarrow> (memo, Inl (Panicked message))
      | None \<Rightarrow>
          let answer = map_err to_wit_error r in
          st_then (memo_charge memo (length target + length req + answer_bytes answer)) (\<lambda>memo _.
            (memo\<lparr>sm_queries := bt_insert (target, req) answer (sm_queries memo)\<rparr>, Inr ())))"

fun resolve :: "sibling_memo \<Rightarrow> pending_read \<Rightarrow> (sibling_memo \<times> (error + unit)) ctx_m" where
  "resolve memo (PendingRoot target) =
     (case check_capacity memo (length target) of
        Inl e \<Rightarrow> Done (memo, Inl e)
      | Inr _ \<Rightarrow> AskRoot target (\<lambda>answer. Done (retain_root memo target answer)))"
| "resolve memo (PendingQuery target req) =
     (case check_capacity memo (length target + length req) of
        Inl e \<Rightarrow> Done (memo, Inl e)
      | Inr _ \<Rightarrow> Query target req (\<lambda>r. Done (retain_query memo target req r)))"
| "resolve memo (PendingStates keys) =
     Done (memo, Inl (Panicked
       ''internal error: entered unreachable code: state reads resolve against the injected store, never the ctx''))"

lemma memo_charge_simps:
  "memo_charge memo n = (memo', Inr u) \<longleftrightarrow>
     check_capacity memo n = Inr () \<and> memo' = memo\<lparr>sm_bytes := sm_bytes memo + HOST_ENTRY_BYTES + n\<rparr>"
  "memo_charge memo n = (memo', Inl e) \<longleftrightarrow> check_capacity memo n = Inl e \<and> memo' = memo"
  by (auto simp: memo_charge_def split: sum.splits)

lemma st_then_Inr: "st_then p k = (m, Inr b) \<longleftrightarrow> (\<exists>m1 a. p = (m1, Inr a) \<and> k m1 a = (m, Inr b))"
  by (auto simp: st_then_def split: prod.splits sum.splits)

lemma retain_root_Inr:
  "retain_root memo target answer = (memo', Inr u) \<longleftrightarrow>
   check_capacity memo (length target + opt_length answer) = Inr () \<and>
   memo' = memo\<lparr>sm_bytes := sm_bytes memo + HOST_ENTRY_BYTES + (length target + opt_length answer),
               sm_roots := bt_insert target answer (sm_roots memo)\<rparr>"
  by (auto simp: retain_root_def st_then_Inr memo_charge_simps)

lemma retain_query_Inr:
  "retain_query memo target req r = (memo', Inr u) \<longleftrightarrow>
   panic_of r = None \<and>
   check_capacity memo (length target + length req + answer_bytes (map_err to_wit_error r)) = Inr () \<and>
   memo' = memo\<lparr>sm_bytes := sm_bytes memo + HOST_ENTRY_BYTES +
                 (length target + length req + answer_bytes (map_err to_wit_error r)),
               sm_queries := bt_insert (target, req) (map_err to_wit_error r) (sm_queries memo)\<rparr>"
  by (auto simp: retain_query_def st_then_Inr memo_charge_simps Let_def split: option.split)

section \<open>The data of a run\<close>

record 'o host_data =
  hd_local_reads :: bool
  hd_env :: "wit_env option"
  hd_committed :: "(bytes \<times> bytes) list"
  hd_staged :: "(bytes \<times> bytes option) list"
  hd_memo :: sibling_memo
  hd_pending :: "pending_read option"
  hd_sealed :: bool
  hd_store_backed :: bool
  hd_object_puts :: "(bytes \<times> bytes) list"
  hd_odb :: "'o option"
  hd_out_msgs :: "(string \<times> bytes) list"
  hd_out_events :: "(string \<times> bytes) list"
  hd_out_output :: declared
  hd_out_assigned :: declared
  hd_host_bytes :: nat

definition host_data_default :: "'o host_data" where
  "host_data_default =
     \<lparr>hd_local_reads = False, hd_env = None, hd_committed = [], hd_staged = [], hd_memo = memo_default,
      hd_pending = None, hd_sealed = False, hd_store_backed = False, hd_object_puts = [], hd_odb = None,
      hd_out_msgs = [], hd_out_events = [], hd_out_output = Nothing, hd_out_assigned = Nothing,
      hd_host_bytes = 0\<rparr>"

definition staged_bytes :: "(bytes \<times> bytes option) list \<Rightarrow> nat" where
  "staged_bytes staged = sum_list (map (\<lambda>(key, value). HOST_ENTRY_BYTES + length key + opt_length value) staged)"

definition object_bytes :: "(bytes \<times> bytes) list \<Rightarrow> nat" where
  "object_bytes puts = sum_list (map (\<lambda>(i, tagged). HOST_ENTRY_BYTES + length i + length tagged) puts)"

definition git_diff_index_bytes :: "git_diff_file list \<Rightarrow> nat" where
  "git_diff_index_bytes files =
     sum_list (map (\<lambda>f. length (gf_path f) + opt_length (gf_previous_path f) + HOST_ENTRY_BYTES + 20) files)"

fun git_data_bytes :: "git_object_data option \<Rightarrow> nat" where
  "git_data_bytes None = 0"
| "git_data_bytes (Some (GitDataBlob bs)) = length bs"
| "git_data_bytes (Some (GitDataTag bs)) = length bs"
| "git_data_bytes (Some (GitDataCommit c)) =
     length (gc_tree c) + length (gc_author c) + length (gc_message c) +
     sum_list (map (\<lambda>p. length p + HOST_ENTRY_BYTES) (gc_parents c))"
| "git_data_bytes (Some (GitDataTree es)) =
     sum_list (map (\<lambda>e. length (gt_name e) + length (gt_oid e) + HOST_ENTRY_BYTES) es)"

fun git_object_bytes :: "wit_error + git_object \<Rightarrow> nat" where
  "git_object_bytes (Inr g) = 9 + git_data_bytes (go_data g)"
| "git_object_bytes (Inl (WitRejected message)) = length message"
| "git_object_bytes (Inl _) = 0"

section \<open>Imports\<close>

text \<open>An import returns the data it leaves and its answer, or the message of its trap.\<close>

type_synonym ('o, 'a) import_m = "'o host_data \<Rightarrow> 'o host_data \<times> (string + 'a)"

definition hd_charge :: "nat \<Rightarrow> ('o, unit) import_m" where
  "hd_charge n d =
     (let d' = d\<lparr>hd_host_bytes := usize_add (hd_host_bytes d) (HOST_ENTRY_BYTES + n)\<rparr> in
      (d', if hd_host_bytes d' > MAX_HOST_BYTES
           then Inl (''host-output budget exceeded ('' @ show_nat MAX_HOST_BYTES @ '' bytes)'')
           else Inr ()))"

fun read_refusal :: "error \<Rightarrow> string" where
  "read_refusal (ModuleError message) = message"
| "read_refusal other = error_to_string other"

definition admit_object_read :: "'o host_data \<Rightarrow> nat \<Rightarrow> string + unit" where
  "admit_object_read d key_bytes =
     (if object_len (hd_memo d) \<ge> MAX_OBJECT_READS
      then Inl (''object-read budget exceeded ('' @ show_nat MAX_OBJECT_READS @ '')'')
      else map_err read_refusal (check_capacity (hd_memo d) key_bytes))"

definition retain_object_read :: "nat \<Rightarrow> ('o, unit) import_m" where
  "retain_object_read n d =
     (case memo_charge (hd_memo d) n of
        (memo, r) \<Rightarrow> (d\<lparr>hd_memo := memo\<rparr>, map_err read_refusal r))"

definition pause :: "pending_read \<Rightarrow> ('o, 'a) import_m" where
  "pause read d = (d\<lparr>hd_pending := Some read\<rparr>, Inl PENDING_READ_TRAP)"

definition state_get_committed :: "bytes \<Rightarrow> ('o, bytes option) import_m" where
  "state_get_committed key d =
     (if \<not> hd_store_backed d then (d, Inr (map_of (hd_committed d) key))
      else case map_of (sm_states (hd_memo d)) key of
        Some answer \<Rightarrow> (d, Inr answer)
      | None \<Rightarrow> pause (PendingStates [key]) d)"

definition state_get :: "bytes \<Rightarrow> ('o, bytes option) import_m" where
  "state_get key d =
     (case map_of (hd_staged d) key of
        Some overlay \<Rightarrow> (d, Inr overlay)
      | None \<Rightarrow> state_get_committed key d)"

definition state_prefetch :: "bytes list \<Rightarrow> ('o, unit) import_m" where
  "state_prefetch keys d =
     st_then (hd_charge (sum_list (map (\<lambda>key. HOST_ENTRY_BYTES + length key) keys)) d) (\<lambda>d _.
       if \<not> hd_store_backed d then (d, Inr ())
       else if list_ex (\<lambda>key. length key \<noteq> ROOT_LEN) keys
       then (d, Inl (''store-backed state keys must be '' @ show_nat ROOT_LEN @ ''-byte digests''))
       else
         let missing = bs_append [] (filter (\<lambda>key. map_of (sm_states (hd_memo d)) key = None) keys) in
         if length (sm_states (hd_memo d)) + length missing > MAX_STORE_READS
         then (d, Inl (''store-read budget exceeded ('' @ show_nat MAX_STORE_READS @ '')''))
         else if missing = [] then (d, Inr ())
         else pause (PendingStates missing) d)"

definition state_set :: "bytes \<Rightarrow> bytes \<Rightarrow> ('o, unit) import_m" where
  "state_set key value d =
     st_then (hd_charge (length key + length value) d) (\<lambda>d _.
       (d\<lparr>hd_staged := bt_insert key (Some value) (hd_staged d)\<rparr>, Inr ()))"

definition state_delete :: "bytes \<Rightarrow> ('o, unit) import_m" where
  "state_delete key d =
     st_then (hd_charge (length key) d) (\<lambda>d _.
       (d\<lparr>hd_staged := bt_insert key None (hd_staged d)\<rparr>, Inr ()))"

definition guest_module_root :: "string \<Rightarrow> ('o, bytes option) import_m" where
  "guest_module_root target d =
     (case map_of (sm_roots (hd_memo d)) target of
        Some answer \<Rightarrow> (d, Inr answer)
      | None \<Rightarrow> if hd_sealed d then (d, Inr None) else pause (PendingRoot target) d)"

definition query_module :: "string \<Rightarrow> bytes \<Rightarrow> ('o, wit_error + bytes) import_m" where
  "query_module target req d =
     (case map_of (sm_queries (hd_memo d)) (target, req) of
        Some answer \<Rightarrow> (d, Inr answer)
      | None \<Rightarrow> if hd_sealed d then (d, Inr (Inl WitUnsupported)) else pause (PendingQuery target req) d)"

definition object_stat :: "'o odb_ops \<Rightarrow> bytes \<Rightarrow> ('o, (byte \<times> u64) option) import_m" where
  "object_stat B i d =
     (case map_of (hd_object_puts d) i of
        Some tagged \<Rightarrow> (d, Inr (Some (hd tagged, of_nat (length tagged - 1))))
      | None \<Rightarrow>
          case map_of (sm_object_stats (hd_memo d)) i of
            Some answer \<Rightarrow> (d, Inr answer)
          | None \<Rightarrow>
              case admit_object_read d (length i) of
                Inl e \<Rightarrow> (d, Inl e)
              | Inr _ \<Rightarrow>
                  let answer = (case hd_odb d of None \<Rightarrow> None | Some odb \<Rightarrow> odb_stat B odb i) in
                  st_then (retain_object_read (length i + (if answer = None then 0 else 9)) d) (\<lambda>d _.
                    (d\<lparr>hd_memo := (hd_memo d)\<lparr>sm_object_stats := bt_insert i answer (sm_object_stats (hd_memo d))\<rparr>\<rparr>,
                     Inr answer)))"

definition git_object_read :: "'o odb_ops \<Rightarrow> git_object_key \<Rightarrow> ('o, wit_error + git_object) import_m" where
  "git_object_read B key d =
     (case key of (repository, oid, max_bytes) \<Rightarrow>
        if \<not> hd_local_reads d then (d, Inr (Inl WitUnsupported))
        else if \<not> (valid_git_repository repository \<and> length oid = 20 \<and> unat max_bytes \<le> 16 * 1024 * 1024)
        then (d, Inr (Inl (WitRejected ''invalid_git_object_read'')))
        else case map_of (sm_git_objects (hd_memo d)) key of
          Some answer \<Rightarrow> (d, Inr answer)
        | None \<Rightarrow>
            let key_bytes = length repository + length oid + 8 in
            case admit_object_read d key_bytes of
              Inl e \<Rightarrow> (d, Inl e)
            | Inr _ \<Rightarrow>
                let answer = map_err to_wit_error
                  (case hd_odb d of None \<Rightarrow> Inl QueryUnsupported
                   | Some odb \<Rightarrow> odb_git_object_read B odb repository oid max_bytes) in
                st_then (retain_object_read (key_bytes + git_object_bytes answer) d) (\<lambda>d _.
                  (d\<lparr>hd_memo := (hd_memo d)\<lparr>sm_git_objects := bt_insert key answer (sm_git_objects (hd_memo d))\<rparr>\<rparr>,
                   Inr answer)))"

fun diff_answer_bytes :: "git_diff_error + git_diff \<Rightarrow> nat" where
  "diff_answer_bytes (Inr g) = length (gd_patch g) + 25 + git_diff_index_bytes (gd_files g)"
| "diff_answer_bytes (Inl (GitUnavailable message)) = length message"
| "diff_answer_bytes (Inl (GitLimit message)) = length message"
| "diff_answer_bytes (Inl GitUnsupported) = 0"

definition valid_git_diff :: "git_diff_key \<Rightarrow> bool" where
  "valid_git_diff key \<longleftrightarrow>
     (case key of (repository, target, source, path, max_bytes, max_files, max_blob_bytes) \<Rightarrow>
        valid_git_repository repository \<and> (length target = 20 \<or> target = []) \<and> length source = 20 \<and>
        (case path of None \<Rightarrow> True
         | Some p \<Rightarrow> p \<noteq> [] \<and> length p \<le> MAX_GIT_DIFF_PATH_BYTES \<and> hd p \<noteq> CHR ''/'') \<and>
        unat max_bytes \<le> 1024 * 1024 \<and> unat max_files \<le> 4096 \<and> unat max_blob_bytes \<le> 16 * 1024 * 1024)"

definition git_diff_read :: "'o odb_ops \<Rightarrow> git_diff_key \<Rightarrow> ('o, git_diff_error + git_diff) import_m" where
  "git_diff_read B key d =
     (if \<not> hd_local_reads d then (d, Inr (Inl GitUnsupported))
      else if \<not> valid_git_diff key then (d, Inr (Inl (GitLimit ''invalid_git_diff_read'')))
      else case map_of (sm_git_diffs (hd_memo d)) key of
        Some answer \<Rightarrow> (d, Inr answer)
      | None \<Rightarrow>
          case key of (repository, target, source, path, max_bytes, max_files, max_blob_bytes) \<Rightarrow>
            let key_bytes = length repository + length target + length source + opt_length path + 24 in
            case admit_object_read d key_bytes of
              Inl e \<Rightarrow> (d, Inl e)
            | Inr _ \<Rightarrow>
                let answer =
                  (case hd_odb d of None \<Rightarrow> Inl GitUnsupported
                   | Some odb \<Rightarrow> odb_git_diff_read B odb repository target source path
                       \<lparr>gb_max_bytes = max_bytes, gb_max_files = max_files, gb_max_blob_bytes = max_blob_bytes\<rparr>) in
                st_then (retain_object_read (key_bytes + diff_answer_bytes answer) d) (\<lambda>d _.
                  (d\<lparr>hd_memo := (hd_memo d)\<lparr>sm_git_diffs := bt_insert key answer (sm_git_diffs (hd_memo d))\<rparr>\<rparr>,
                   Inr answer)))"

definition object_get :: "'o odb_ops \<Rightarrow> bytes \<Rightarrow> ('o, bytes option) import_m" where
  "object_get B i d =
     (case map_of (hd_object_puts d) i of
        Some tagged \<Rightarrow> (d, Inr (Some tagged))
      | None \<Rightarrow>
          case map_of (sm_object_gets (hd_memo d)) i of
            Some answer \<Rightarrow> (d, Inr answer)
          | None \<Rightarrow>
              case admit_object_read d (length i) of
                Inl e \<Rightarrow> (d, Inl e)
              | Inr _ \<Rightarrow>
                  case (case (case hd_odb d of None \<Rightarrow> None | Some odb \<Rightarrow> odb_stat B odb i) of
                          None \<Rightarrow> Inr ()
                        | Some (_, body_len) \<Rightarrow>
                            map_err read_refusal (check_capacity (hd_memo d)
                              (usize_add (usize_add (length i) (unat body_len)) 1))) of
                    Inl e \<Rightarrow> (d, Inl e)
                  | Inr _ \<Rightarrow>
                      let answer = (case hd_odb d of None \<Rightarrow> None | Some odb \<Rightarrow> odb_get B odb i) in
                      st_then (retain_object_read (length i + opt_length answer) d) (\<lambda>d _.
                        (d\<lparr>hd_memo := (hd_memo d)\<lparr>sm_object_gets := bt_insert i answer (sm_object_gets (hd_memo d))\<rparr>\<rparr>,
                         Inr answer)))"

definition object_put :: "(bytes \<Rightarrow> bytes) \<Rightarrow> byte \<Rightarrow> bytes \<Rightarrow> ('o, bytes) import_m" where
  "object_put sha256 kind body d =
     st_then (hd_charge (ROOT_LEN + 1 + length body) d) (\<lambda>d _.
       let tagged = kind # body; i = sha256 tagged in
       (d\<lparr>hd_object_puts := bt_insert i tagged (hd_object_puts d)\<rparr>, Inr i))"

definition emit_msg :: "string \<Rightarrow> bytes \<Rightarrow> ('o, unit) import_m" where
  "emit_msg target payload d =
     st_then (hd_charge (length target + length payload) d) (\<lambda>d _.
       (d\<lparr>hd_out_msgs := hd_out_msgs d @ [(target, payload)]\<rparr>, Inr ()))"

definition emit_event :: "string \<Rightarrow> bytes \<Rightarrow> ('o, unit) import_m" where
  "emit_event source payload d =
     st_then (hd_charge (length source + length payload) d) (\<lambda>d _.
       (d\<lparr>hd_out_events := hd_out_events d @ [(source, payload)]\<rparr>, Inr ()))"

definition set_output :: "bytes \<Rightarrow> ('o, unit) import_m" where
  "set_output bs d =
     st_then (if length bs \<le> MAX_OUTPUT_BYTES then hd_charge (length bs) d else (d, Inr ())) (\<lambda>d _.
       (d\<lparr>hd_out_output := declare_value (hd_out_output d) bs MAX_OUTPUT_BYTES\<rparr>, Inr ()))"

definition set_assigned :: "bytes \<Rightarrow> ('o, unit) import_m" where
  "set_assigned stamp d =
     st_then (if length stamp \<le> MAX_ASSIGNED_BYTES then hd_charge (length stamp) d else (d, Inr ())) (\<lambda>d _.
       (d\<lparr>hd_out_assigned := declare_value (hd_out_assigned d) stamp MAX_ASSIGNED_BYTES\<rparr>, Inr ()))"

section \<open>Running a guest\<close>

text \<open>The host functions of the interface, and what they answer.\<close>

datatype host_fn =
    GetEnv
  | StateGet bytes
  | StateGetCommitted bytes
  | StatePrefetch "bytes list"
  | StateSet bytes bytes
  | StateDelete bytes
  | ModuleRoot string
  | QueryModule string bytes
  | ObjectStat bytes
  | ObjectGet bytes
  | ObjectPut byte bytes
  | GitObjectRead git_object_key
  | GitDiffRead git_diff_key
  | EmitMsg string bytes
  | EmitEvent string bytes
  | SetOutput bytes
  | SetAssigned bytes

datatype reply =
    ReplyEnv wit_env
  | ReplyUnit
  | ReplyOption "bytes option"
  | ReplyBytes bytes
  | ReplyQuery "wit_error + bytes"
  | ReplyStat "(byte \<times> u64) option"
  | ReplyGitObject "wit_error + git_object"
  | ReplyGitDiff "git_diff_error + git_diff"

text \<open>
  A guest that has spent some fuel returns, traps, or calls the host. The number at a node is the
  fuel spent before it; a call costs one more.
\<close>

codatatype 'r guest =
    GuestReturn nat 'r
  | GuestTrap nat string
  | GuestCall nat host_fn "reply \<Rightarrow> 'r guest"

datatype 'r run_end = Returned 'r | Trapped string | Unwound string

definition reply_as :: "('a \<Rightarrow> reply) \<Rightarrow> 'o host_data \<times> (string + 'a) \<Rightarrow> 'o host_data \<times> reply run_end" where
  "reply_as f p = (fst p, case snd p of Inl e \<Rightarrow> Trapped e | Inr a \<Rightarrow> Returned (f a))"

fun host_call ::
  "'o odb_ops \<Rightarrow> (bytes \<Rightarrow> bytes) \<Rightarrow> host_fn \<Rightarrow> 'o host_data \<Rightarrow> 'o host_data \<times> reply run_end" where
  "host_call B sha GetEnv d =
     (d, case hd_env d of None \<Rightarrow> Unwound ''env is set before every dispatch'' | Some e \<Rightarrow> Returned (ReplyEnv e))"
| "host_call B sha (StateGet key) d = reply_as ReplyOption (state_get key d)"
| "host_call B sha (StateGetCommitted key) d = reply_as ReplyOption (state_get_committed key d)"
| "host_call B sha (StatePrefetch keys) d = reply_as (\<lambda>_. ReplyUnit) (state_prefetch keys d)"
| "host_call B sha (StateSet key value) d = reply_as (\<lambda>_. ReplyUnit) (state_set key value d)"
| "host_call B sha (StateDelete key) d = reply_as (\<lambda>_. ReplyUnit) (state_delete key d)"
| "host_call B sha (ModuleRoot target) d = reply_as ReplyOption (guest_module_root target d)"
| "host_call B sha (QueryModule target req) d = reply_as ReplyQuery (query_module target req d)"
| "host_call B sha (ObjectStat i) d =
     (if map_of (hd_object_puts d) i = Some []
      then (d, Unwound ''index out of bounds: the len is 0 but the index is 0'')
      else reply_as ReplyStat (object_stat B i d))"
| "host_call B sha (ObjectGet i) d = reply_as ReplyOption (object_get B i d)"
| "host_call B sha (ObjectPut kind body) d = reply_as ReplyBytes (object_put sha kind body d)"
| "host_call B sha (GitObjectRead key) d = reply_as ReplyGitObject (git_object_read B key d)"
| "host_call B sha (GitDiffRead key) d = reply_as ReplyGitDiff (git_diff_read B key d)"
| "host_call B sha (EmitMsg target payload) d = reply_as (\<lambda>_. ReplyUnit) (emit_msg target payload d)"
| "host_call B sha (EmitEvent source payload) d = reply_as (\<lambda>_. ReplyUnit) (emit_event source payload d)"
| "host_call B sha (SetOutput bs) d = reply_as (\<lambda>_. ReplyUnit) (set_output bs d)"
| "host_call B sha (SetAssigned stamp) d = reply_as (\<lambda>_. ReplyUnit) (set_assigned stamp d)"

definition out_of_fuel :: string where
  "out_of_fuel = ''all fuel consumed by WebAssembly''"

text \<open>
  A run on \<open>fuel\<close> with the host functions \<open>call\<close>: how it ends, the fuel it leaves, the data it leaves.
\<close>

function guest_run ::
  "(host_fn \<Rightarrow> 'd \<Rightarrow> 'd \<times> reply run_end) \<Rightarrow> nat \<Rightarrow> 'r guest \<Rightarrow> 'd \<Rightarrow> 'r run_end \<times> nat \<times> 'd" where
  "guest_run call fuel g d =
     (case g of
        GuestReturn c r \<Rightarrow> if fuel < c then (Trapped out_of_fuel, 0, d) else (Returned r, fuel - c, d)
      | GuestTrap c e \<Rightarrow> if fuel < c then (Trapped out_of_fuel, 0, d) else (Trapped e, fuel - c, d)
      | GuestCall c f k \<Rightarrow>
          if fuel \<le> c then (Trapped out_of_fuel, 0, d)
          else case call f d of
            (d', Returned a) \<Rightarrow> guest_run call (fuel - Suc c) (k a) d'
          | (d', Trapped e) \<Rightarrow> (Trapped e, fuel - Suc c, d')
          | (d', Unwound e) \<Rightarrow> (Unwound e, fuel - Suc c, d'))"
  by pat_completeness auto

termination
  by (relation "measure (\<lambda>(_, fuel, _). fuel)") auto

declare guest_run.simps [simp del]

section \<open>What the imports keep\<close>

text \<open>
  The view of a run: what it reads and never writes. An import changes only the stage, the outputs, the
  meters and the object lane of the memo, and asks for a read only where the memo has no answer.
\<close>

definition run_view where
  "run_view d =
     (hd_local_reads d, hd_env d, hd_committed d, hd_sealed d, hd_store_backed d, hd_odb d,
      sm_roots (hd_memo d), sm_queries (hd_memo d), sm_states (hd_memo d))"

fun fresh_read :: "'o host_data \<Rightarrow> pending_read \<Rightarrow> bool" where
  "fresh_read d (PendingRoot target) \<longleftrightarrow> \<not> hd_sealed d \<and> map_of (sm_roots (hd_memo d)) target = None"
| "fresh_read d (PendingQuery target req) \<longleftrightarrow> \<not> hd_sealed d \<and> map_of (sm_queries (hd_memo d)) (target, req) = None"
| "fresh_read d (PendingStates keys) \<longleftrightarrow>
     hd_store_backed d \<and> keys \<noteq> [] \<and> (\<forall>key\<in>set keys. map_of (sm_states (hd_memo d)) key = None)"

lemma fresh_read_cong: "run_view d = run_view d' \<Longrightarrow> fresh_read d read = fresh_read d' read"
  by (cases read) (simp_all add: run_view_def)

definition import_keeps :: "'o host_data \<Rightarrow> 'o host_data \<times> (string + 'a) \<Rightarrow> bool" where
  "import_keeps d p \<longleftrightarrow>
     run_view (fst p) = run_view d \<and>
     (hd_pending (fst p) = hd_pending d \<or>
      (snd p = Inl PENDING_READ_TRAP \<and> (\<exists>read. hd_pending (fst p) = Some read \<and> fresh_read d read)))"

lemma import_keeps_refl [simp]: "import_keeps d (d, r)"
  by (simp add: import_keeps_def)

lemma import_keeps_bind:
  assumes "import_keeps d p" and "\<And>d' a. run_view d' = run_view d \<Longrightarrow> import_keeps d' (k d' a)"
  shows "import_keeps d (st_then p k)"
proof (cases p)
  case (Pair d1 r)
  show ?thesis
  proof (cases r)
    case (Inl e)
    then show ?thesis using assms(1) Pair by (simp add: import_keeps_def)
  next
    case (Inr a)
    then have v: "run_view d1 = run_view d" "hd_pending d1 = hd_pending d"
      using assms(1) Pair by (auto simp: import_keeps_def)
    then have "import_keeps d1 (k d1 a)" using assms(2) by simp
    then show ?thesis using v Pair Inr fresh_read_cong [OF v(1)] by (auto simp: import_keeps_def)
  qed
qed

lemma import_keeps_charge: "import_keeps d (hd_charge n d)"
  by (simp add: import_keeps_def hd_charge_def run_view_def Let_def)

lemma import_keeps_update:
  "run_view d' = run_view d \<Longrightarrow> hd_pending d' = hd_pending d \<Longrightarrow> import_keeps d (d', r)"
  by (simp add: import_keeps_def)

lemma import_keeps_retain: "import_keeps d (retain_object_read n d)"
  by (simp add: import_keeps_def retain_object_read_def run_view_def memo_charge_def split: sum.split)

lemma import_keeps_pause: "fresh_read d read \<Longrightarrow> import_keeps d (pause read d)"
  by (simp add: import_keeps_def pause_def run_view_def)

lemmas import_keeps_intros =
  import_keeps_refl import_keeps_bind import_keeps_charge import_keeps_retain import_keeps_pause

lemma state_get_committed_keeps: "import_keeps d (state_get_committed key d)"
  by (auto simp: state_get_committed_def intro!: import_keeps_pause split: option.split)

lemma state_get_keeps: "import_keeps d (state_get key d)"
  using state_get_committed_keeps by (auto simp: state_get_def split: option.split)

lemma state_prefetch_keeps: "import_keeps d (state_prefetch keys d)"
  unfolding state_prefetch_def
  by (rule import_keeps_bind [OF import_keeps_charge])
    (auto simp: Let_def intro!: import_keeps_pause)

lemma staging_keeps:
  "import_keeps d (state_set key value d)"
  "import_keeps d (state_delete key d)"
  "import_keeps d (object_put sha kind body d)"
  "import_keeps d (emit_msg target payload d)"
  "import_keeps d (emit_event source payload d)"
  unfolding state_set_def state_delete_def object_put_def emit_msg_def emit_event_def
  by (auto simp: run_view_def Let_def intro!: import_keeps_bind [OF import_keeps_charge] import_keeps_update)

lemma declaring_keeps:
  "import_keeps d (set_output bs d)"
  "import_keeps d (set_assigned bs d)"
  unfolding set_output_def set_assigned_def
  by (auto simp: run_view_def intro!: import_keeps_bind import_keeps_charge import_keeps_update)

lemma sibling_keeps:
  "import_keeps d (guest_module_root target d)"
  "import_keeps d (query_module target req d)"
  by (auto simp: guest_module_root_def query_module_def intro!: import_keeps_pause split: option.split)

lemma object_stat_keeps: "import_keeps d (object_stat B i d)"
  unfolding object_stat_def
  by (auto simp: run_view_def Let_def intro!: import_keeps_bind [OF import_keeps_retain] import_keeps_update
      split: option.split sum.split)

lemma object_get_keeps: "import_keeps d (object_get B i d)"
  unfolding object_get_def
  by (auto simp: run_view_def Let_def intro!: import_keeps_bind [OF import_keeps_retain] import_keeps_update
      split: option.split sum.split)

lemma git_reads_keep:
  "import_keeps d (git_object_read B gkey d)"
  "import_keeps d (git_diff_read B dkey d)"
  unfolding git_object_read_def git_diff_read_def
  by (auto simp: run_view_def Let_def intro!: import_keeps_bind [OF import_keeps_retain] import_keeps_update
      split: option.split sum.split prod.split)

lemmas import_keeps_all =
  state_get_keeps state_get_committed_keeps state_prefetch_keeps staging_keeps declaring_keeps sibling_keeps
  object_stat_keeps object_get_keeps git_reads_keep

definition call_keeps :: "'o host_data \<Rightarrow> 'o host_data \<times> reply run_end \<Rightarrow> bool" where
  "call_keeps d p \<longleftrightarrow>
     run_view (fst p) = run_view d \<and>
     (hd_pending (fst p) = hd_pending d \<or>
      (snd p = Trapped PENDING_READ_TRAP \<and> (\<exists>read. hd_pending (fst p) = Some read \<and> fresh_read d read)))"

lemma call_keeps_reply: "import_keeps d p \<Longrightarrow> call_keeps d (reply_as f p)"
  by (auto simp: import_keeps_def call_keeps_def reply_as_def split: sum.split)

lemma call_keeps_refl [simp]: "call_keeps d (d, r)"
  by (simp add: call_keeps_def)

lemma host_call_keeps: "call_keeps d (host_call B sha f d)"
  by (cases f) (simp_all add: call_keeps_reply import_keeps_all)

section \<open>What a run keeps\<close>

text \<open>A run keeps what its calls keep; a call that stops the run may break the invariant last.\<close>

lemma guest_run_rule:
  assumes "I d"
    and goes: "\<And>f d d' a. I d \<Longrightarrow> call f d = (d', Returned a) \<Longrightarrow> I d'"
    and stop: "\<And>f d d' e. I d \<Longrightarrow> call f d = (d', Trapped e) \<Longrightarrow> P (Trapped e) d'"
      "\<And>f d d' e. I d \<Longrightarrow> call f d = (d', Unwound e) \<Longrightarrow> P (Unwound e) d'"
    and "\<And>r d. I d \<Longrightarrow> P (Returned r) d" and "\<And>e d. I d \<Longrightarrow> P (Trapped e) d"
    and "guest_run call fuel g d = (r, left, d')"
  shows "P r d'"
  using assms(1,7)
proof (induction fuel arbitrary: g d rule: less_induct)
  case (less fuel)
  note I = less.prems(1) and run = less.prems(2)
  show ?case
  proof (cases g)
    case (GuestReturn c x)
    then show ?thesis using run I assms(5,6) by (auto simp: guest_run.simps split: if_splits)
  next
    case (GuestTrap c e)
    then show ?thesis using run I assms(6) by (auto simp: guest_run.simps split: if_splits)
  next
    case (GuestCall c f k)
    obtain d1 x where c: "call f d = (d1, x)" by fastforce
    show ?thesis
    proof (cases "fuel \<le> c")
      case True
      then show ?thesis using run I assms(6) [OF I, of out_of_fuel] GuestCall by (auto simp: guest_run.simps)
    next
      case False
      show ?thesis
      proof (cases x)
        case (Returned a)
        with False run c GuestCall have "guest_run call (fuel - Suc c) (k a) d1 = (r, left, d')"
          by (simp add: guest_run.simps [of call fuel])
        then show ?thesis using less.IH [of "fuel - Suc c"] False goes [OF I c [unfolded Returned]] by simp
      next
        case (Trapped e)
        then show ?thesis
          using False run c GuestCall stop(1) [OF I c [unfolded Trapped]] by (simp add: guest_run.simps [of call fuel])
      next
        case (Unwound e)
        then show ?thesis
          using False run c GuestCall stop(2) [OF I c [unfolded Unwound]] by (simp add: guest_run.simps [of call fuel])
      qed
    qed
  qed
qed

text \<open>
  A run of a guest over the host imports leaves the view as it is, and ends with a pending read only
  where the memo has no answer to it.
\<close>

lemma guest_run_view:
  assumes "guest_run (host_call B sha) fuel g d = (r, left, d')" and "hd_pending d = None"
  shows "run_view d' = run_view d"
    and "\<forall>read. hd_pending d' = Some read \<longrightarrow> fresh_read d read \<and> r = Trapped PENDING_READ_TRAP"
proof -
  let ?I = "\<lambda>x. run_view x = run_view d \<and> hd_pending x = None"
  let ?P = "\<lambda>r x. run_view x = run_view d \<and>
      (\<forall>read. hd_pending x = Some read \<longrightarrow> fresh_read d read \<and> r = Trapped PENDING_READ_TRAP)"
  have step: "run_view x' = run_view x \<and>
      (hd_pending x' = hd_pending x \<or> (y = Trapped PENDING_READ_TRAP \<and> (\<exists>read. hd_pending x' = Some read \<and> fresh_read x read)))"
    if "host_call B sha f x = (x', y)" for f x x' y
    using host_call_keeps [of x B sha f] that by (simp add: call_keeps_def)
  have "?P r d'"
  proof (rule guest_run_rule [where I = ?I and P = ?P, OF _ _ _ _ _ _ assms(1)])
    show "?I d" using assms(2) by simp
    show "?I x'" if "?I x" "host_call B sha f x = (x', Returned a)" for f x x' a
      using that(1) step [OF that(2)] by auto
    show "?P (Trapped e) x'" if "?I x" "host_call B sha f x = (x', Trapped e)" for f x x' e
    proof -
      have "fresh_read x = fresh_read d" using that(1) fresh_read_cong [of x d] by (intro ext) simp
      then show ?thesis using that(1) step [OF that(2)] by force
    qed
    show "?P (Unwound e) x'" if "?I x" "host_call B sha f x = (x', Unwound e)" for f x x' e
      using that(1) step [OF that(2)] by auto
  qed auto
  then show "run_view d' = run_view d"
    and "\<forall>read. hd_pending d' = Some read \<longrightarrow> fresh_read d read \<and> r = Trapped PENDING_READ_TRAP" by auto
qed

end
