(* ===== verification/Module_Artifact.thy ===== *)
theory Module_Artifact
  imports Code_Registry Codec
begin

text \<open>
  The frame of a deployable unit (\<^verbatim>\<open>crates/kernel/module-artifact/src/lib.rs\<close>): a module (component,
  optional index mapper, optional view, lanes) or a view alone, read by a strict parser that validates
  as it reads. \<^verbatim>\<open>ArtifactRef\<close> borrows what \<^verbatim>\<open>Artifact\<close> owns; both are the one type \<open>artifact\<close> here.

  Writing is borsh. The functions \<open>put_*\<close> are the borsh layout of the types, which the parser is
  measured against: it accepts exactly the frames of well-formed artifacts, each from exactly one byte
  string.
\<close>

section \<open>Constants and types\<close>

definition MAX_ARTIFACT_BYTES :: nat where
  "MAX_ARTIFACT_BYTES = 16 * 1024 * 1024"

definition MAX_VIEW_ASSETS :: nat where
  "MAX_VIEW_ASSETS = 4096"

definition MAX_ASSET_PATH_BYTES :: nat where
  "MAX_ASSET_PATH_BYTES = 1024"

definition MAX_ARTIFACT_LANES :: nat where
  "MAX_ARTIFACT_LANES = 8"

definition MODULE_TAG :: byte where
  "MODULE_TAG = 0"

definition VIEW_TAG :: byte where
  "VIEW_TAG = 1"

record view_artifact =
  va_component :: bytes
  va_assets :: "(string \<times> bytes) list"

record module_artifact =
  ma_component :: bytes
  ma_index :: "bytes option"
  ma_view :: "view_artifact option"
  ma_lanes :: "lane_decl list"

datatype artifact = ArtifactModule module_artifact | ArtifactView view_artifact

definition artifact_component :: "bytes \<Rightarrow> module_artifact" where
  "artifact_component component = \<lparr>ma_component = component, ma_index = None, ma_view = None, ma_lanes = []\<rparr>"

definition artifact_module :: "bytes \<Rightarrow> artifact" where
  "artifact_module component = ArtifactModule (artifact_component component)"

fun artifact_view :: "artifact \<Rightarrow> view_artifact option" where
  "artifact_view (ArtifactModule m) = ma_view m"
| "artifact_view (ArtifactView v) = Some v"

section \<open>Reading\<close>

text \<open>A reader takes a value off the front of the frame.\<close>

type_synonym 'a taker = "bytes \<Rightarrow> string + 'a \<times> bytes"

definition tk_then :: "'a taker \<Rightarrow> ('a \<Rightarrow> 'b taker) \<Rightarrow> 'b taker" where
  "tk_then t k bs = and_then (t bs) (\<lambda>(x, rest). k x rest)"

definition tk_return :: "'a \<Rightarrow> 'a taker" where
  "tk_return x bs = Inr (x, bs)"

definition tk_fail :: "string \<Rightarrow> 'a taker" where
  "tk_fail e bs = Inl e"

definition take_tag :: "byte taker" where
  "take_tag bs =
     (case bs of [] \<Rightarrow> Inl ''module artifact has a missing option tag'' | tag # tail \<Rightarrow> Inr (tag, tail))"

definition take_u32 :: "u32 taker" where
  "take_u32 bs =
     (if length bs < 4 then Inl ''module artifact has a truncated length''
      else Inr (u32_of_le (take 4 bs), drop 4 bs))"

definition take_u64 :: "u64 taker" where
  "take_u64 bs =
     (if length bs < 8 then Inl ''module artifact has a truncated lane budget''
      else Inr (u64_of_le (take 8 bs), drop 8 bs))"

definition take_length :: "nat taker" where
  "take_length = tk_then take_u32 (\<lambda>n. tk_return (unat n))"

definition take_bytes :: "bytes taker" where
  "take_bytes = tk_then take_length (\<lambda>len bs.
     if length bs < len then Inl ''module artifact has a truncated body''
     else Inr (take len bs, drop len bs))"

definition take_opt :: "string \<Rightarrow> 'a taker \<Rightarrow> 'a option taker" where
  "take_opt invalid t = tk_then take_tag (\<lambda>tag.
     if tag = 0 then tk_return None
     else if tag = 1 then tk_then t (\<lambda>x. tk_return (Some x))
     else tk_fail invalid)"

definition take_str :: "string \<Rightarrow> string taker" where
  "take_str invalid = tk_then take_bytes (\<lambda>raw rest.
     case from_utf8 raw of Inl _ \<Rightarrow> Inl invalid | Inr s \<Rightarrow> Inr (s, rest))"

subsection \<open>Lanes\<close>

definition take_lane_stream :: "lane_stream taker" where
  "take_lane_stream = tk_then take_tag (\<lambda>tag.
     tk_then
       (if tag = 0 then tk_return PacingShared
        else if tag = 1
        then tk_then take_u64 (\<lambda>rate. tk_then take_u64 (\<lambda>burst. tk_return (PacingLocal rate burst)))
        else tk_fail ''module artifact has an invalid lane pacing tag'') (\<lambda>pacing.
     tk_then take_u32 (\<lambda>backlog.
       tk_return \<lparr>ls_pacing = pacing, ls_accept_backlog = backlog\<rparr>)))"

definition take_lane :: "lane_decl taker" where
  "take_lane = tk_then
     (\<lambda>bs. case bs of [] \<Rightarrow> Inl ''module artifact has a truncated lane id'' | i # tail \<Rightarrow> Inr (i, tail)) (\<lambda>i.
     tk_then (take_str ''module artifact lane name is not UTF-8'') (\<lambda>name.
     tk_then (take_opt ''module artifact has an invalid lane stream tag'' take_lane_stream) (\<lambda>stream.
       tk_return \<lparr>ld_id = i, ld_name = name, ld_stream = stream\<rparr>)))"

fun take_many :: "nat \<Rightarrow> 'a taker \<Rightarrow> 'a list taker" where
  "take_many 0 t = tk_return []"
| "take_many (Suc n) t = tk_then t (\<lambda>x. tk_then (take_many n t) (\<lambda>xs. tk_return (x # xs)))"

definition too_many_lanes :: string where
  "too_many_lanes = ''module artifact declares more than '' @ show_nat MAX_ARTIFACT_LANES @ '' lanes''"

fun validate_lane_loop :: "lane_decl list \<Rightarrow> lane_decl list \<Rightarrow> string + unit" where
  "validate_lane_loop earlier [] = Inr ()"
| "validate_lane_loop earlier (lane # lanes) =
     (if \<not> lane_name_is_well_formed (ld_name lane)
      then Inl (''module artifact lane name '' @ debug_str (ld_name lane) @ '' is malformed: 1..='' @
             show_nat MAX_LANE_NAME_BYTES @ '' bytes of [a-z0-9_]'')
      else if earlier \<noteq> [] \<and> ld_id (last earlier) \<ge> ld_id lane
      then Inl ''module artifact lanes are duplicated or out of order''
      else if list_ex (\<lambda>other. ld_name other = ld_name lane) earlier
      then Inl (''module artifact declares two lanes named '' @ debug_str (ld_name lane))
      else validate_lane_loop (earlier @ [lane]) lanes)"

definition validate_lanes :: "lane_decl list \<Rightarrow> string + unit" where
  "validate_lanes lanes =
     (if length lanes > MAX_ARTIFACT_LANES then Inl too_many_lanes else validate_lane_loop [] lanes)"

definition take_lanes :: "lane_decl list taker" where
  "take_lanes = tk_then take_length (\<lambda>count.
     if count > MAX_ARTIFACT_LANES then tk_fail too_many_lanes
     else tk_then (take_many count take_lane) (\<lambda>lanes bs.
       and_then (validate_lanes lanes) (\<lambda>_. Inr (lanes, bs))))"

subsection \<open>Views\<close>

text \<open>
  \<^verbatim>\<open>char::is_control\<close> over UTF-8: the ASCII controls, and the two-byte sequences of U+0080 to
  U+009F.
\<close>

fun has_control :: "bytes \<Rightarrow> bool" where
  "has_control [] = False"
| "has_control (b # bs) =
     (unat b < 32 \<or> b = 127 \<or>
      (b = 194 \<and> (case bs of [] \<Rightarrow> False | c # _ \<Rightarrow> 128 \<le> unat c \<and> unat c < 160)) \<or> has_control bs)"

text \<open>\<^verbatim>\<open>str::split('/')\<close>.\<close>

fun split_slash :: "string \<Rightarrow> string list" where
  "split_slash [] = [[]]"
| "split_slash (c # cs) =
     (if c = CHR ''/'' then [] # split_slash cs
      else case split_slash cs of [] \<Rightarrow> [[c]] | part # parts \<Rightarrow> (c # part) # parts)"

definition validate_asset_path :: "string \<Rightarrow> string + unit" where
  "validate_asset_path path =
     (if path = [] \<or> length path > MAX_ASSET_PATH_BYTES
      then Inl ''module artifact asset path exceeds its length bounds''
      else if has_control (as_bytes path) \<or> CHR 0x5C \<in> set path \<or> CHR '':'' \<in> set path \<or>
              list_ex (\<lambda>part. part \<in> {[], ''.'', ''..''}) (split_slash path)
      then Inl ''module artifact asset path is not a bounded canonical relative path''
      else Inr ())"

text \<open>The prefixes of a path that end at a slash.\<close>

definition ancestors :: "string \<Rightarrow> string list" where
  "ancestors path = map (\<lambda>i. take i path) (filter (\<lambda>i. path ! i = CHR ''/'') [0..<length path])"

definition take_asset :: "(string \<times> bytes) list \<Rightarrow> string option \<Rightarrow> (string \<times> bytes) taker" where
  "take_asset assets previous = tk_then (take_str ''module artifact asset path is not UTF-8'') (\<lambda>path bs.
     and_then (validate_asset_path path) (\<lambda>_.
       if (case previous of None \<Rightarrow> False | Some p \<Rightarrow> p \<ge> path)
       then Inl ''module artifact asset paths are duplicated or out of order''
       else if list_ex (\<lambda>a. map_of assets a \<noteq> None) (ancestors path)
       then Inl ''module artifact asset path has a file ancestor''
       else tk_then take_bytes (\<lambda>payload. tk_return (path, payload)) bs))"

fun take_assets :: "nat \<Rightarrow> (string \<times> bytes) list \<Rightarrow> string option \<Rightarrow> (string \<times> bytes) list taker" where
  "take_assets 0 assets previous = tk_return assets"
| "take_assets (Suc n) assets previous = tk_then (take_asset assets previous) (\<lambda>(path, payload).
     take_assets n (bt_insert path payload assets) (Some path))"

definition take_view :: "view_artifact taker" where
  "take_view = tk_then take_bytes (\<lambda>component.
     tk_then take_length (\<lambda>count.
       if count > MAX_VIEW_ASSETS then tk_fail ''module artifact has more than 4096 view assets''
       else tk_then (take_assets count [] None) (\<lambda>assets.
         tk_return \<lparr>va_component = component, va_assets = assets\<rparr>)))"

subsection \<open>Frames\<close>

definition take_module :: "module_artifact taker" where
  "take_module = tk_then take_bytes (\<lambda>component.
     tk_then (take_opt ''module artifact has an invalid mapper tag'' take_bytes) (\<lambda>index.
     tk_then (take_opt ''module artifact has an invalid view tag'' take_view) (\<lambda>view.
     tk_then take_lanes (\<lambda>lanes.
       tk_return \<lparr>ma_component = component, ma_index = index, ma_view = view, ma_lanes = lanes\<rparr>))))"

definition artifact_decode :: "bytes \<Rightarrow> string + artifact" where
  "artifact_decode frame =
     (if length frame > MAX_ARTIFACT_BYTES then Inl ''module artifact exceeds the 16 MiB frame limit''
      else and_then (tk_then take_tag (\<lambda>tag.
             if tag = MODULE_TAG then tk_then take_module (\<lambda>m. tk_return (ArtifactModule m))
             else if tag = VIEW_TAG then tk_then take_view (\<lambda>v. tk_return (ArtifactView v))
             else tk_fail ''module artifact has an invalid kind tag'') frame) (\<lambda>(artifact, rest).
        if rest \<noteq> [] then Inl ''module artifact has trailing bytes'' else Inr artifact))"

section \<open>The borsh layout\<close>

definition u32_le :: "u32 \<Rightarrow> bytes" where
  "u32_le v = le_bytes 4 (unat v)"

definition put_bytes :: "bytes \<Rightarrow> bytes" where
  "put_bytes bs = u32_le (of_nat (length bs)) @ bs"

fun put_opt :: "('a \<Rightarrow> bytes) \<Rightarrow> 'a option \<Rightarrow> bytes" where
  "put_opt put None = [0]"
| "put_opt put (Some x) = 1 # put x"

fun put_pacing :: "lane_pacing \<Rightarrow> bytes" where
  "put_pacing PacingShared = [0]"
| "put_pacing (PacingLocal rate burst) = 1 # u64_le rate @ u64_le burst"

definition put_stream :: "lane_stream \<Rightarrow> bytes" where
  "put_stream s = put_pacing (ls_pacing s) @ u32_le (ls_accept_backlog s)"

definition put_lane :: "lane_decl \<Rightarrow> bytes" where
  "put_lane lane = ld_id lane # put_bytes (as_bytes (ld_name lane)) @ put_opt put_stream (ld_stream lane)"

definition put_lanes :: "lane_decl list \<Rightarrow> bytes" where
  "put_lanes lanes = u32_le (of_nat (length lanes)) @ concat (map put_lane lanes)"

definition put_asset :: "string \<times> bytes \<Rightarrow> bytes" where
  "put_asset a = put_bytes (as_bytes (fst a)) @ put_bytes (snd a)"

definition put_view :: "view_artifact \<Rightarrow> bytes" where
  "put_view v =
     put_bytes (va_component v) @ u32_le (of_nat (length (va_assets v))) @ concat (map put_asset (va_assets v))"

definition put_module :: "module_artifact \<Rightarrow> bytes" where
  "put_module m =
     put_bytes (ma_component m) @ put_opt put_bytes (ma_index m) @ put_opt put_view (ma_view m) @
     put_lanes (ma_lanes m)"

fun put_artifact :: "artifact \<Rightarrow> bytes" where
  "put_artifact (ArtifactModule m) = MODULE_TAG # put_module m"
| "put_artifact (ArtifactView v) = VIEW_TAG # put_view v"

text \<open>\<^verbatim>\<open>Artifact::hash\<close>.\<close>

definition artifact_hash :: "(bytes \<Rightarrow> bytes) \<Rightarrow> (artifact \<Rightarrow> bytes) \<Rightarrow> artifact \<Rightarrow> bytes" where
  "artifact_hash sha borsh a = sha (borsh a)"

section \<open>Well-formed artifacts\<close>

definition lanes_wf :: "lane_decl list \<Rightarrow> bool" where
  "lanes_wf lanes \<longleftrightarrow>
     length lanes \<le> MAX_ARTIFACT_LANES \<and> sorted_wrt (<) (map ld_id lanes) \<and> distinct (map ld_name lanes) \<and>
     (\<forall>lane\<in>set lanes. lane_name_is_well_formed (ld_name lane))"

definition assets_wf :: "(string \<times> bytes) list \<Rightarrow> bool" where
  "assets_wf assets \<longleftrightarrow>
     length assets \<le> MAX_VIEW_ASSETS \<and> sorted_wrt (<) (map fst assets) \<and>
     (\<forall>path\<in>fst ` set assets. validate_asset_path path = Inr () \<and> utf8_valid (as_bytes path) \<and>
        set (ancestors path) \<inter> fst ` set assets = {})"

fun artifact_wf :: "artifact \<Rightarrow> bool" where
  "artifact_wf (ArtifactModule m) \<longleftrightarrow>
     lanes_wf (ma_lanes m) \<and> (\<forall>v. ma_view m = Some v \<longrightarrow> assets_wf (va_assets v))"
| "artifact_wf (ArtifactView v) \<longleftrightarrow> assets_wf (va_assets v)"

section \<open>Exact readers\<close>

text \<open>
  The contract of a reader: it succeeds exactly on the layout of a value that fits, and leaves what
  follows.
\<close>

locale frame_codec =
  fixes put :: "'a \<Rightarrow> bytes" and tk :: "'a taker" and fits :: "'a \<Rightarrow> bool"
  assumes take_iff: "tk bs = Inr (x, rest) \<longleftrightarrow> fits x \<and> bs = put x @ rest"
begin

lemma take_put: "fits x \<Longrightarrow> tk (put x @ rest) = Inr (x, rest)"
  by (simp add: take_iff)

lemma put_prefix_inj: "fits x \<Longrightarrow> fits y \<Longrightarrow> put x @ r = put y @ r' \<Longrightarrow> x = y \<and> r = r'"
  by (metis take_put sum.inject(2) prod.inject)

lemma opt_iff:
  "take_opt e tk bs = Inr (v, rest) \<longleftrightarrow> (\<forall>x. v = Some x \<longrightarrow> fits x) \<and> bs = put_opt put v @ rest"
  by (cases bs; cases v)
    (auto simp: take_opt_def tk_then_def take_tag_def tk_return_def tk_fail_def and_then_eq_Inr take_iff)

lemma many_iff:
  "take_many n tk bs = Inr (xs, rest) \<longleftrightarrow>
   length xs = n \<and> (\<forall>x\<in>set xs. fits x) \<and> bs = concat (map put xs) @ rest"
proof (induction n arbitrary: bs xs)
  case 0
  then show ?case by (auto simp: tk_return_def)
next
  case (Suc n)
  show ?case
    by (cases xs) (auto simp: tk_then_def tk_return_def and_then_eq_Inr take_iff Suc.IH)
qed

end

lemma tk_then_Inr: "tk_then t k bs = Inr (y, rest) \<longleftrightarrow> (\<exists>x r. t bs = Inr (x, r) \<and> k x r = Inr (y, rest))"
  by (auto simp: tk_then_def and_then_eq_Inr)

lemma tk_return_Inr: "tk_return x bs = Inr (y, rest) \<longleftrightarrow> x = y \<and> bs = rest"
  by (auto simp: tk_return_def)

lemma tk_fail_Inr: "tk_fail e bs \<noteq> Inr p"
  by (simp add: tk_fail_def)

lemma tk_guard_Inr: "(if bad then tk_fail e else t) bs = Inr p \<longleftrightarrow> \<not> bad \<and> t bs = Inr p"
  by (simp add: tk_fail_Inr)

lemmas taker_iffs = tk_then_Inr tk_return_Inr tk_fail_Inr

lemma u32_le_u32_of_le: "length bs = 4 \<Longrightarrow> u32_le (u32_of_le bs) = bs"
  using le_value_less [of bs] le_bytes_le_value [of bs] by (simp add: u32_le_def u32_of_le_def unat_of_nat)

lemma u32_of_le_u32_le: "u32_of_le (u32_le v) = v"
  using unsigned_less [of v, where 'a = nat] by (simp add: u32_of_le_def u32_le_def le_value_le_bytes)

lemma length_u32_le [simp]: "length (u32_le v) = 4"
  by (simp add: u32_le_def)

interpretation u32_frame: frame_codec u32_le take_u32 "\<lambda>_. True"
proof
  fix bs rest :: bytes and x :: u32
  show "take_u32 bs = Inr (x, rest) \<longleftrightarrow> True \<and> bs = u32_le x @ rest"
    using u32_le_u32_of_le [of "take 4 bs"] append_take_drop_id [of 4 bs]
    by (auto simp: take_u32_def u32_of_le_u32_le)
qed

interpretation u64_frame: frame_codec u64_le take_u64 "\<lambda>_. True"
proof
  fix bs rest :: bytes and x :: u64
  show "take_u64 bs = Inr (x, rest) \<longleftrightarrow> True \<and> bs = u64_le x @ rest"
    using u64_le_u64_of_le [of "take 8 bs"] append_take_drop_id [of 8 bs]
    by (auto simp: take_u64_def)
qed

lemma unat_of_nat_u32: "n < 2 ^ 32 \<Longrightarrow> unat (of_nat n :: u32) = n"
  by (simp add: unat_of_nat take_bit_nat_eq_self)

interpretation length_frame: frame_codec "\<lambda>n. u32_le (of_nat n)" take_length "\<lambda>n. n < 2 ^ 32"
proof
  fix bs rest :: bytes and n :: nat
  show "take_length bs = Inr (n, rest) \<longleftrightarrow> n < 2 ^ 32 \<and> bs = u32_le (of_nat n) @ rest"
  proof
    assume "take_length bs = Inr (n, rest)"
    then obtain w where "bs = u32_le w @ rest" "n = unat w"
      by (auto simp: take_length_def taker_iffs u32_frame.take_iff)
    then show "n < 2 ^ 32 \<and> bs = u32_le (of_nat n) @ rest"
      using unsigned_less [of w, where 'a = nat] by simp
  next
    assume "n < 2 ^ 32 \<and> bs = u32_le (of_nat n) @ rest"
    then show "take_length bs = Inr (n, rest)"
      using unat_of_nat_u32 [of n] by (auto simp: take_length_def taker_iffs u32_frame.take_iff)
  qed
qed

interpretation bytes_frame: frame_codec put_bytes take_bytes "\<lambda>b. length b < 2 ^ 32"
proof
  fix bs rest x :: bytes
  show "take_bytes bs = Inr (x, rest) \<longleftrightarrow> length x < 2 ^ 32 \<and> bs = put_bytes x @ rest"
  proof
    assume "take_bytes bs = Inr (x, rest)"
    then obtain n r where "n < 2 ^ 32" "bs = u32_le (of_nat n) @ r" "n \<le> length r" "x = take n r" "rest = drop n r"
      by (auto simp: take_bytes_def tk_then_Inr length_frame.take_iff simp del: power_numeral split: if_splits)
    then show "length x < 2 ^ 32 \<and> bs = put_bytes x @ rest" by (simp add: put_bytes_def del: power_numeral)
  next
    assume "length x < 2 ^ 32 \<and> bs = put_bytes x @ rest"
    then have "take_length bs = Inr (length x, x @ rest)"
      using length_frame.take_put [of "length x" "x @ rest"] by (simp add: put_bytes_def del: power_numeral)
    then show "take_bytes bs = Inr (x, rest)" by (simp add: take_bytes_def tk_then_def)
  qed
qed

lemma from_utf8_case:
  "(case from_utf8 raw of Inl _ \<Rightarrow> Inl e | Inr s \<Rightarrow> Inr (s, r)) = Inr (t, rest) \<longleftrightarrow>
   raw = as_bytes t \<and> utf8_valid (as_bytes t) \<and> r = rest"
proof (cases "from_utf8 raw")
  case (Inl d)
  then show ?thesis using from_utf8_Inr [of raw t] by auto
next
  case (Inr a)
  moreover have "raw = as_bytes a \<and> utf8_valid (as_bytes a)" using Inr from_utf8_Inr [of raw a] by blast
  ultimately show ?thesis by (auto simp: as_bytes_inj)
qed

interpretation str_frame:
  frame_codec "\<lambda>s. put_bytes (as_bytes s)" "take_str e" "\<lambda>s. length s < 2 ^ 32 \<and> utf8_valid (as_bytes s)" for e
proof
  fix bs rest :: bytes and s
  show "take_str e bs = Inr (s, rest) \<longleftrightarrow>
      (length s < 2 ^ 32 \<and> utf8_valid (as_bytes s)) \<and> bs = put_bytes (as_bytes s) @ rest"
    by (auto simp: take_str_def taker_iffs bytes_frame.take_iff from_utf8_case)
qed

section \<open>Lanes and views\<close>

interpretation stream_frame: frame_codec put_stream take_lane_stream "\<lambda>_. True"
proof
  fix bs rest :: bytes and x :: lane_stream
  obtain p b where x: "x = \<lparr>ls_pacing = p, ls_accept_backlog = b\<rparr>" by (cases x) auto
  show "take_lane_stream bs = Inr (x, rest) \<longleftrightarrow> True \<and> bs = put_stream x @ rest"
    by (cases bs; cases p)
      (auto simp: x take_lane_stream_def taker_iffs take_tag_def u32_frame.take_iff u64_frame.take_iff
        put_stream_def split: if_splits)
qed

definition lane_fits :: "lane_decl \<Rightarrow> bool" where
  "lane_fits lane \<longleftrightarrow> length (ld_name lane) < 2 ^ 32 \<and> utf8_valid (as_bytes (ld_name lane))"

interpretation lane_frame: frame_codec put_lane take_lane lane_fits
proof
  fix bs rest :: bytes and x :: lane_decl
  obtain i n s where x: "x = \<lparr>ld_id = i, ld_name = n, ld_stream = s\<rparr>" by (cases x) auto
  show "take_lane bs = Inr (x, rest) \<longleftrightarrow> lane_fits x \<and> bs = put_lane x @ rest"
    by (cases bs)
      (auto simp: x take_lane_def taker_iffs str_frame.take_iff stream_frame.opt_iff put_lane_def lane_fits_def
        simp del: power_numeral)
qed

lemma sorted_snoc: "sorted_wrt (<) (xs @ [x :: 'a :: linorder]) \<longleftrightarrow> sorted_wrt (<) xs \<and> (xs = [] \<or> last xs < x)"
proof (induction xs)
  case (Cons a xs)
  then show ?case by (cases "xs = []") (auto simp: sorted_wrt_append intro: less_trans)
qed simp

lemma validate_lane_loop_iff:
  "sorted_wrt (<) (map ld_id earlier) \<Longrightarrow> distinct (map ld_name earlier) \<Longrightarrow>
   validate_lane_loop earlier lanes = Inr () \<longleftrightarrow>
     (\<forall>lane\<in>set lanes. lane_name_is_well_formed (ld_name lane)) \<and>
     sorted_wrt (<) (map ld_id (earlier @ lanes)) \<and> distinct (map ld_name (earlier @ lanes))"
proof (induction earlier lanes rule: validate_lane_loop.induct)
  case (1 earlier)
  then show ?case by simp
next
  case (2 earlier lane lanes)
  let ?ordered = "earlier = [] \<or> ld_id (last earlier) < ld_id lane"
  let ?new = "\<forall>other\<in>set earlier. ld_name other \<noteq> ld_name lane"
  have sorted: "sorted_wrt (<) (map ld_id (earlier @ [lane])) \<longleftrightarrow> ?ordered"
    using 2(2) sorted_snoc [of "map ld_id earlier" "ld_id lane"] by (cases "earlier = []") (auto simp: last_map)
  have step: "sorted_wrt (<) (map ld_id (earlier @ lane # lanes)) \<Longrightarrow> ?ordered"
    using sorted by (auto simp: sorted_wrt_append)
  show ?case
  proof (cases "lane_name_is_well_formed (ld_name lane) \<and> ?ordered \<and> ?new")
    case True
    then have "\<not> (earlier \<noteq> [] \<and> ld_id (last earlier) \<ge> ld_id lane)"
      "\<not> list_ex (\<lambda>other. ld_name other = ld_name lane) earlier"
      by (auto simp: list_ex_iff)
    moreover have "ld_name lane \<notin> ld_name ` set earlier" using True by force
    ultimately show ?thesis using 2(1) 2(3) True sorted by auto
  next
    case False
    then have "validate_lane_loop earlier (lane # lanes) \<noteq> Inr ()" by (auto simp: list_ex_iff)
    moreover have "ld_name lane \<notin> ld_name ` set earlier \<Longrightarrow> ?new" by (metis image_eqI)
    ultimately show ?thesis using False step by auto
  qed
qed

lemma utf8_head_ascii: "unat b < 128 \<Longrightarrow> utf8_head (b # bs) = None \<and> utf8_width b = 1"
  by (simp add: utf8_head_def utf8_width_def)

lemma utf8_ascii: "\<forall>b\<in>set bs. unat b < 128 \<Longrightarrow> utf8_check i bs = None"
proof (induction bs arbitrary: i)
  case Nil
  then show ?case by (simp add: utf8_check.simps)
next
  case (Cons b bs)
  then show ?case by (subst utf8_check.simps) (simp add: utf8_head_ascii Let_def)
qed

lemma lane_name_fits:
  assumes "lane_name_is_well_formed name"
  shows "length name < 2 ^ 32" and "utf8_valid (as_bytes name)"
proof -
  show "length name < 2 ^ 32" using assms by (simp add: lane_name_is_well_formed_def MAX_LANE_NAME_BYTES_def)
  have "of_char c < (128 :: nat)" if "c \<in> set name" for c
    using assms that by (auto simp: lane_name_is_well_formed_def list_all_iff)
  then show "utf8_valid (as_bytes name)"
    unfolding utf8_valid_def by (intro utf8_ascii) (auto simp: as_bytes_def)
qed

interpretation lanes_frame: frame_codec put_lanes take_lanes lanes_wf
proof
  fix bs rest :: bytes and x
  have wf: "lanes_wf x \<longleftrightarrow> length x \<le> MAX_ARTIFACT_LANES \<and> validate_lanes x = Inr ()"
    using validate_lane_loop_iff [of "[]" x] by (auto simp: lanes_wf_def validate_lanes_def)
  have fits: "\<forall>lane\<in>set x. lane_fits lane" if "lanes_wf x"
    using that lane_name_fits by (auto simp: lanes_wf_def lane_fits_def)
  show "take_lanes bs = Inr (x, rest) \<longleftrightarrow> lanes_wf x \<and> bs = put_lanes x @ rest"
  proof
    assume "take_lanes bs = Inr (x, rest)"
    then obtain n r where n: "bs = u32_le (of_nat n) @ r" "n \<le> MAX_ARTIFACT_LANES"
      "take_many n take_lane r = Inr (x, rest)" "validate_lanes x = Inr ()"
      by (auto simp: take_lanes_def tk_then_Inr tk_fail_Inr length_frame.take_iff and_then_eq_Inr
          simp del: power_numeral split: if_splits)
    then show "lanes_wf x \<and> bs = put_lanes x @ rest"
      using lane_frame.many_iff [of n r x rest] wf by (auto simp: put_lanes_def)
  next
    assume R: "lanes_wf x \<and> bs = put_lanes x @ rest"
    then have "length x \<le> MAX_ARTIFACT_LANES" using wf by simp
    then have "take_length bs = Inr (length x, concat (map put_lane x) @ rest)"
      using length_frame.take_put [of "length x"] R by (simp add: put_lanes_def MAX_ARTIFACT_LANES_def)
    then show "take_lanes bs = Inr (x, rest)"
      using R wf fits lane_frame.many_iff [of "length x" "concat (map put_lane x) @ rest" x rest]
      by (simp add: take_lanes_def tk_then_def)
  qed
qed

subsection \<open>Assets\<close>

lemma bt_insert_last: "\<forall>k\<in>fst ` set m. k < key \<Longrightarrow> bt_insert key v m = m @ [(key, v)]"
  by (induction m) (auto simp: cmp_def)

lemma prefix_less: "i < length p \<Longrightarrow> take i p < (p :: string)"
proof (induction p arbitrary: i)
  case (Cons c p)
  then show ?case by (cases i) auto
qed simp

lemma ancestors_less: "a \<in> set (ancestors p) \<Longrightarrow> a < p"
  by (auto simp: ancestors_def prefix_less)

lemma asset_path_length: "validate_asset_path p = Inr () \<Longrightarrow> length p < 2 ^ 32"
  by (simp add: validate_asset_path_def MAX_ASSET_PATH_BYTES_def split: if_splits)

text \<open>The assets after \<open>earlier\<close>.\<close>

definition assets_after :: "(string \<times> bytes) list \<Rightarrow> (string \<times> bytes) list \<Rightarrow> bool" where
  "assets_after earlier new \<longleftrightarrow>
     sorted_wrt (<) (map fst (earlier @ new)) \<and>
     (\<forall>(p, b)\<in>set new. validate_asset_path p = Inr () \<and> utf8_valid (as_bytes p) \<and> length b < 2 ^ 32 \<and>
        set (ancestors p) \<inter> fst ` set (earlier @ new) = {})"

lemma take_asset_iff:
  "take_asset assets previous bs = Inr ((p, b), rest) \<longleftrightarrow>
   validate_asset_path p = Inr () \<and> utf8_valid (as_bytes p) \<and> length b < 2 ^ 32 \<and>
   (\<forall>q. previous = Some q \<longrightarrow> q < p) \<and> set (ancestors p) \<inter> fst ` set assets = {} \<and>
   bs = put_asset (p, b) @ rest"
proof -
  have "list_ex (\<lambda>a. map_of assets a \<noteq> None) (ancestors p) \<longleftrightarrow> set (ancestors p) \<inter> fst ` set assets \<noteq> {}"
    by (auto simp: list_ex_iff map_of_eq_None_iff)
  moreover have "(case previous of None \<Rightarrow> False | Some q \<Rightarrow> q \<ge> p) \<longleftrightarrow> \<not> (\<forall>q. previous = Some q \<longrightarrow> q < p)"
    by (auto split: option.split)
  moreover have "take_asset assets previous bs = Inr ((p, b), rest) \<longleftrightarrow>
      (\<exists>r. take_str ''module artifact asset path is not UTF-8'' bs = Inr (p, r) \<and> validate_asset_path p = Inr () \<and>
         \<not> (case previous of None \<Rightarrow> False | Some q \<Rightarrow> q \<ge> p) \<and>
         \<not> list_ex (\<lambda>a. map_of assets a \<noteq> None) (ancestors p) \<and> take_bytes r = Inr (b, rest))"
    (is "_ \<longleftrightarrow> ?R")
  proof -
    have body: "and_then (validate_asset_path q) (\<lambda>_.
        if (case previous of None \<Rightarrow> False | Some p \<Rightarrow> p \<ge> q)
        then Inl ''module artifact asset paths are duplicated or out of order''
        else if list_ex (\<lambda>a. map_of assets a \<noteq> None) (ancestors q)
        then Inl ''module artifact asset path has a file ancestor''
        else tk_then take_bytes (\<lambda>payload. tk_return (q, payload)) r) = Inr ((p, b), rest) \<longleftrightarrow>
      validate_asset_path q = Inr () \<and> \<not> (case previous of None \<Rightarrow> False | Some p \<Rightarrow> p \<ge> q) \<and>
        \<not> list_ex (\<lambda>a. map_of assets a \<noteq> None) (ancestors q) \<and> q = p \<and> take_bytes r = Inr (b, rest)" for q r
      unfolding and_then_eq_Inr by (simp add: tk_then_Inr tk_return_Inr) blast
    show ?thesis unfolding take_asset_def tk_then_Inr body by blast
  qed
  ultimately show ?thesis
    unfolding str_frame.take_iff bytes_frame.take_iff put_asset_def using asset_path_length [of p] by auto
qed

lemma take_assets_iff:
  assumes "sorted_wrt (<) (map fst assets)" and "previous = (if assets = [] then None else Some (fst (last assets)))"
  shows "take_assets n assets previous bs = Inr (out, rest) \<longleftrightarrow>
    (\<exists>new. length new = n \<and> out = assets @ new \<and> assets_after assets new \<and>
       bs = concat (map put_asset new) @ rest)"
  using assms
proof (induction n arbitrary: assets previous bs)
  case 0
  then show ?case by (auto simp: tk_return_Inr assets_after_def)
next
  case (Suc n)
  have below: "\<forall>k\<in>fst ` set assets. k < p" if "\<forall>q. previous = Some q \<longrightarrow> q < p" for p
  proof -
    have "sorted_wrt (<) (map fst assets @ [p])"
      using sorted_snoc [of "map fst assets" p] that Suc.prems by (auto simp: last_map)
    then show ?thesis by (auto simp: sorted_wrt_append)
  qed
  show ?case
  proof
    assume "take_assets (Suc n) assets previous bs = Inr (out, rest)"
    then obtain p b r where h: "take_asset assets previous bs = Inr ((p, b), r)"
      and t: "take_assets n (bt_insert p b assets) (Some p) r = Inr (out, rest)"
      by (auto simp: tk_then_Inr)
    note a = iffD1 [OF take_asset_iff h]
    have prev: "\<forall>q. previous = Some q \<longrightarrow> q < p" using a by (elim conjE)
    have ins: "bt_insert p b assets = assets @ [(p, b)]" using below [OF prev] by (rule bt_insert_last)
    have sorted: "sorted_wrt (<) (map fst (assets @ [(p, b)]))"
      using below [OF prev] Suc.prems(1) by (simp add: sorted_wrt_append)
    have anc: "set (ancestors p) \<inter> fst ` set assets = {}" using a by (elim conjE)
    have fits: "validate_asset_path p = Inr ()" "utf8_valid (as_bytes p)" "length b < 2 ^ 32"
      "bs = put_asset (p, b) @ r" using a by blast+
    obtain new where new: "length new = n" "out = (assets @ [(p, b)]) @ new" "assets_after (assets @ [(p, b)]) new"
      "r = concat (map put_asset new) @ rest"
      using t Suc.IH [OF sorted, of "Some p" r] ins by auto
    have "set (ancestors p) \<inter> fst ` set new = {}"
      using new(3) ancestors_less [of _ p] by (fastforce simp: assets_after_def sorted_wrt_append)
    then have "assets_after assets ((p, b) # new)"
      using anc fits new(3) ancestors_less [of p p] by (auto simp: assets_after_def)
    then show "\<exists>new. length new = Suc n \<and> out = assets @ new \<and> assets_after assets new \<and>
        bs = concat (map put_asset new) @ rest"
      using new fits(4) by (intro exI [of _ "(p, b) # new"]) simp
  next
    assume "\<exists>new. length new = Suc n \<and> out = assets @ new \<and> assets_after assets new \<and>
        bs = concat (map put_asset new) @ rest"
    then obtain p b new where new: "length new = n" "out = assets @ (p, b) # new" "assets_after assets ((p, b) # new)"
      "bs = put_asset (p, b) @ concat (map put_asset new) @ rest"
      by (auto simp: length_Suc_conv)
    have sorted: "sorted_wrt (<) (map fst (assets @ [(p, b)]))"
      using new(3) by (auto simp: assets_after_def sorted_wrt_append)
    have "\<forall>q. previous = Some q \<longrightarrow> q < p"
      using sorted Suc.prems(2) sorted_snoc [of "map fst assets" p] by (auto simp: last_map)
    then have h: "take_asset assets previous bs = Inr ((p, b), concat (map put_asset new) @ rest)"
      unfolding take_asset_iff using new(3,4) by (auto simp: assets_after_def)
    have ins: "bt_insert p b assets = assets @ [(p, b)]"
      using sorted by (intro bt_insert_last) (auto simp: sorted_wrt_append)
    have "assets_after (assets @ [(p, b)]) new" using new(3) by (auto simp: assets_after_def)
    then show "take_assets (Suc n) assets previous bs = Inr (out, rest)"
      using h ins new Suc.IH [OF sorted, of "Some p"] by (auto simp: tk_then_Inr)
  qed
qed

subsection \<open>Views and modules\<close>

definition view_fits :: "view_artifact \<Rightarrow> bool" where
  "view_fits v \<longleftrightarrow>
     length (va_component v) < 2 ^ 32 \<and> assets_wf (va_assets v) \<and> (\<forall>b\<in>snd ` set (va_assets v). length b < 2 ^ 32)"

lemma view_assets:
  "take_assets n [] None bs = Inr (out, rest) \<and> n \<le> MAX_VIEW_ASSETS \<longleftrightarrow>
   length out = n \<and> assets_wf out \<and> (\<forall>b\<in>snd ` set out. length b < 2 ^ 32) \<and> bs = concat (map put_asset out) @ rest"
proof -
  have "length out \<le> MAX_VIEW_ASSETS \<and> assets_after [] out \<longleftrightarrow>
      assets_wf out \<and> (\<forall>b\<in>snd ` set out. length b < 2 ^ 32)"
    unfolding assets_after_def assets_wf_def case_prod_beta
    by (simp add: ball_conj_distrib conj_ac del: power_numeral)
  then show ?thesis using take_assets_iff [of "[]" None n bs out rest] by auto
qed

interpretation view_frame: frame_codec put_view take_view view_fits
proof
  fix bs rest :: bytes and x :: view_artifact
  obtain c a where x: "x = \<lparr>va_component = c, va_assets = a\<rparr>" by (cases x) auto
  have count: "length a < 2 ^ 32" if "assets_wf a"
    using that by (simp add: assets_wf_def MAX_VIEW_ASSETS_def)
  have "take_view bs = Inr (x, rest) \<longleftrightarrow>
      (\<exists>r n r'. take_bytes bs = Inr (c, r) \<and> take_length r = Inr (n, r') \<and>
         take_assets n [] None r' = Inr (a, rest) \<and> n \<le> MAX_VIEW_ASSETS)"
    unfolding take_view_def tk_then_Inr tk_guard_Inr tk_return_Inr x by (auto simp: not_less)
  also have "\<dots> \<longleftrightarrow> view_fits x \<and> bs = put_view x @ rest"
    unfolding view_assets bytes_frame.take_iff length_frame.take_iff
    using count by (auto simp: x view_fits_def put_view_def simp del: power_numeral)
  finally show "take_view bs = Inr (x, rest) \<longleftrightarrow> view_fits x \<and> bs = put_view x @ rest" .
qed

definition module_fits :: "module_artifact \<Rightarrow> bool" where
  "module_fits m \<longleftrightarrow>
     length (ma_component m) < 2 ^ 32 \<and> (\<forall>b. ma_index m = Some b \<longrightarrow> length b < 2 ^ 32) \<and>
     (\<forall>v. ma_view m = Some v \<longrightarrow> view_fits v) \<and> lanes_wf (ma_lanes m)"

interpretation module_frame: frame_codec put_module take_module module_fits
proof
  fix bs rest :: bytes and x :: module_artifact
  obtain c i v l where x: "x = \<lparr>ma_component = c, ma_index = i, ma_view = v, ma_lanes = l\<rparr>" by (cases x) auto
  show "take_module bs = Inr (x, rest) \<longleftrightarrow> module_fits x \<and> bs = put_module x @ rest"
    unfolding take_module_def taker_iffs bytes_frame.take_iff bytes_frame.opt_iff view_frame.opt_iff
      lanes_frame.take_iff x
    by (auto simp: module_fits_def put_module_def simp del: power_numeral)
qed

lemma asset_in_view: "(p, b) \<in> set assets \<Longrightarrow> length b \<le> length (concat (map put_asset assets))"
  by (induction assets) (auto simp: put_asset_def put_bytes_def)

lemma view_fits_bound:
  assumes "assets_wf (va_assets v)" and "length (put_view v) \<le> MAX_ARTIFACT_BYTES"
  shows "view_fits v"
proof -
  have "length b \<le> MAX_ARTIFACT_BYTES" if "(p, b) \<in> set (va_assets v)" for p b
    using asset_in_view [OF that] assms(2) by (simp add: put_view_def put_bytes_def)
  then show ?thesis
    using assms by (fastforce simp: view_fits_def put_view_def put_bytes_def MAX_ARTIFACT_BYTES_def)
qed

lemma module_fits_bound:
  assumes "artifact_wf (ArtifactModule m)" and "length (put_module m) \<le> MAX_ARTIFACT_BYTES"
  shows "module_fits m"
proof -
  have "view_fits v" if "ma_view m = Some v" for v
    using assms that by (intro view_fits_bound) (auto simp: put_module_def)
  then show ?thesis
    using assms by (auto simp: module_fits_def put_module_def put_bytes_def MAX_ARTIFACT_BYTES_def)
qed

lemma fits_wf:
  "module_fits m \<Longrightarrow> artifact_wf (ArtifactModule m)"
  "view_fits v \<Longrightarrow> artifact_wf (ArtifactView v)"
  by (auto simp: module_fits_def view_fits_def)

lemma decode_tagged:
  "artifact_decode frame = Inr a \<longleftrightarrow>
   length frame \<le> MAX_ARTIFACT_BYTES \<and>
   ((\<exists>m rest. frame = MODULE_TAG # rest \<and> take_module rest = Inr (m, []) \<and> a = ArtifactModule m) \<or>
    (\<exists>v rest. frame = VIEW_TAG # rest \<and> take_view rest = Inr (v, []) \<and> a = ArtifactView v))"
proof -
  let ?read = "tk_then take_tag (\<lambda>tag.
      if tag = MODULE_TAG then tk_then take_module (\<lambda>m. tk_return (ArtifactModule m))
      else if tag = VIEW_TAG then tk_then take_view (\<lambda>v. tk_return (ArtifactView v))
      else tk_fail ''module artifact has an invalid kind tag'')"
  have distinct: "VIEW_TAG \<noteq> MODULE_TAG" by (simp add: MODULE_TAG_def VIEW_TAG_def)
  have read: "?read frame = Inr (a, []) \<longleftrightarrow>
      (\<exists>m rest. frame = MODULE_TAG # rest \<and> take_module rest = Inr (m, []) \<and> a = ArtifactModule m) \<or>
      (\<exists>v rest. frame = VIEW_TAG # rest \<and> take_view rest = Inr (v, []) \<and> a = ArtifactView v)"
  proof (cases frame)
    case Nil
    then show ?thesis by (simp add: tk_then_Inr take_tag_def)
  next
    case (Cons tag rest)
    have "?read frame = (if tag = MODULE_TAG then tk_then take_module (\<lambda>m. tk_return (ArtifactModule m))
      else if tag = VIEW_TAG then tk_then take_view (\<lambda>v. tk_return (ArtifactView v))
      else tk_fail ''module artifact has an invalid kind tag'') rest"
      by (simp add: Cons tk_then_def take_tag_def)
    then show ?thesis
      using distinct by (cases "tag = MODULE_TAG"; cases "tag = VIEW_TAG") (auto simp: Cons taker_iffs)
  qed
  have trail: "and_then r (\<lambda>(artifact, rest). if rest \<noteq> [] then Inl e else Inr artifact) = Inr a \<longleftrightarrow> r = Inr (a, [])"
    for r :: "string + artifact \<times> bytes" and e
    by (cases r) (auto split: if_splits)
  show ?thesis
    unfolding read [symmetric] using trail [of "?read frame"] by (simp add: artifact_decode_def not_less)
qed

text \<open>
  C29: the frame parser (\<^verbatim>\<open>ArtifactRef::decode\<close>, through which \<^verbatim>\<open>Artifact::decode\<close> reads) accepts a byte
  string exactly when it is the borsh layout of a well-formed artifact of at most 16 MiB, and then returns
  that artifact. So every frame has one reading and every artifact one frame: lanes ascend by id and are
  unique by name, asset paths ascend, are canonical and none is a directory of another, and no byte is left
  over. The hash of a frame therefore names one artifact.
\<close>

lemma artifact_decode_exact:
  "artifact_decode frame = Inr a \<longleftrightarrow>
   artifact_wf a \<and> frame = put_artifact a \<and> length frame \<le> MAX_ARTIFACT_BYTES"
proof (cases a)
  case (ArtifactModule m)
  have "artifact_decode frame = Inr a \<longleftrightarrow>
      length frame \<le> MAX_ARTIFACT_BYTES \<and> module_fits m \<and> frame = MODULE_TAG # put_module m"
    unfolding decode_tagged module_frame.take_iff ArtifactModule by auto
  moreover have "module_fits m \<longleftrightarrow> artifact_wf a" if "length (put_module m) \<le> MAX_ARTIFACT_BYTES"
    using fits_wf(1) [of m] module_fits_bound [OF _ that] ArtifactModule by blast
  ultimately show ?thesis using ArtifactModule by auto
next
  case (ArtifactView v)
  have "artifact_decode frame = Inr a \<longleftrightarrow>
      length frame \<le> MAX_ARTIFACT_BYTES \<and> view_fits v \<and> frame = VIEW_TAG # put_view v"
    unfolding decode_tagged view_frame.take_iff ArtifactView by auto
  moreover have "view_fits v \<longleftrightarrow> artifact_wf a" if "length (put_view v) \<le> MAX_ARTIFACT_BYTES"
    using fits_wf(2) [of v] view_fits_bound [OF _ that] ArtifactView by auto
  ultimately show ?thesis using ArtifactView by auto
qed

end
