(* ===== verification/Wasm_Module.thy ===== *)
theory Wasm_Module
  imports Wasm_Guest Module_Artifact
begin

text \<open>
  A wasm module (\<^verbatim>\<open>crates/kernel/wasm-host/src/lib.rs\<close>, \<^verbatim>\<open>CompiledModule\<close> and \<^verbatim>\<open>WasmModule\<close>): a compiled
  component over a substrate, presented to the host as an ordinary module.

  A dispatch runs the guest on a copy of the stage. A read the memo cannot answer ends the run; the
  driver resolves it and runs the guest again from the start, with what is left of the fuel. The loops
  are total functions: every further round has one more resolved read, and the reads are bounded. The
  number of rounds of a call stands beside its result; it is what the source's diagnostic counter
  \<^verbatim>\<open>guest_runs\<close> grows by.

  The engine, the compiler and the linker of \<^verbatim>\<open>wasmtime\<close> are the fields \<open>wx_load\<close> (a component, or why
  it does not load) and \<open>wx_display\<close> (the text of a trap) of the record \<open>wasm_env\<close>. An export of a
  component stands for its instantiation followed by the call.
\<close>

section \<open>Components\<close>

record wasm_component =
  wc_shape :: "wit_shape guest"
  wc_initialize :: "bytes \<Rightarrow> (wit_error + unit) guest"
  wc_finalize_block :: "(wit_error + unit) guest"
  wc_execute :: "bytes \<Rightarrow> (wit_error + unit) guest"
  wc_query :: "bytes \<Rightarrow> (wit_error + bytes) guest"
  wc_pending_items :: "(wit_error + wit_pending_item list) guest"
  wc_acknowledge :: "wit_ack \<Rightarrow> (wit_error + unit) guest"

record ('s, 'o) wasm_env =
  wx_lib :: "'s store_lib"
  wx_odb :: "'o odb_ops"
  wx_load :: "bytes \<Rightarrow> string + wasm_component"
  wx_display :: "string \<Rightarrow> string"
  wx_borsh :: "artifact \<Rightarrow> bytes"

definition wx_sha256 :: "('s, 'o) wasm_env \<Rightarrow> bytes \<Rightarrow> bytes" where
  "wx_sha256 E bs = lib_sha256 (wx_lib E) bs"

definition wx_call :: "('s, 'o) wasm_env \<Rightarrow> host_fn \<Rightarrow> 'o host_data \<Rightarrow> 'o host_data \<times> reply run_end" where
  "wx_call E = host_call (wx_odb E) (wx_sha256 E)"

definition module_err :: "('s, 'o) wasm_env \<Rightarrow> string \<Rightarrow> error" where
  "module_err E e = ModuleError (wx_display E e)"

fun end_result :: "('s, 'o) wasm_env \<Rightarrow> (wit_error + 'r) run_end \<Rightarrow> error + 'r" where
  "end_result E (Returned r) = map_err wit_err r"
| "end_result E (Trapped e) = Inl (module_err E e)"
| "end_result E (Unwound e) = Inl (Panicked e)"

record compiled_module =
  cm_component :: wasm_component
  cm_code_hash :: bytes
  cm_index_guest :: "bytes option"
  cm_shape :: shape

definition read_shape :: "('s, 'o) wasm_env \<Rightarrow> wasm_component \<Rightarrow> error + shape" where
  "read_shape E component =
     (case fst (guest_run (wx_call E) DEFAULT_FUEL (wc_shape component) host_data_default) of
        Returned declared \<Rightarrow> Inr (shape_from_wit declared)
      | Trapped e \<Rightarrow> Inl (module_err E e)
      | Unwound e \<Rightarrow> Inl (Panicked e))"

definition compile :: "('s, 'o) wasm_env \<Rightarrow> bytes \<Rightarrow> error + compiled_module" where
  "compile E component_bytes =
     and_then (map_err (module_err E) (wx_load E component_bytes)) (\<lambda>component.
     and_then (read_shape E component) (\<lambda>shape.
       Inr \<lparr>cm_component = component,
            cm_code_hash = artifact_hash (wx_sha256 E) (wx_borsh E) (artifact_module component_bytes),
            cm_index_guest = None, cm_shape = shape\<rparr>))"

definition compile_artifact :: "('s, 'o) wasm_env \<Rightarrow> bytes \<Rightarrow> error + compiled_module" where
  "compile_artifact E bs =
     and_then (map_err ModuleError (artifact_decode bs)) (\<lambda>artifact.
       case artifact of
         ArtifactView _ \<Rightarrow>
           Inl (ModuleError ''view_artifact_has_no_component: a view-only artifact is not a module'')
       | ArtifactModule m \<Rightarrow>
           and_then (compile E (ma_component m)) (\<lambda>compiled.
             Inr (compiled\<lparr>cm_code_hash := wx_sha256 E bs, cm_index_guest := ma_index m\<rparr>)))"

section \<open>The module\<close>

datatype ('s, 'o) state_backing = MapBacking "(bytes \<times> bytes) list" | StoreBacking 's | OdbBacking 'o

fun backing_kind :: "('s, 'o) wasm_env \<Rightarrow> ('s, 'o) state_backing \<Rightarrow> backing" where
  "backing_kind E (MapBacking kvs) = BackingMap"
| "backing_kind E (StoreBacking store) = BackingStore"
| "backing_kind E (OdbBacking odb) = odb_kind (wx_odb E) odb"

record ('s, 'o) wasm_module =
  wm_id :: module_id
  wm_component :: wasm_component
  wm_code_hash :: bytes
  wm_index_guest :: "bytes option"
  wm_config_keys :: "string list"
  wm_backing :: "('s, 'o) state_backing"
  wm_odb_config :: "bytes option"
  wm_staged :: "(bytes \<times> bytes option) list"
  wm_staged_objects :: "(bytes \<times> bytes) list"
  wm_fuel :: nat
  wm_committed_queries :: bool
  wm_block_env :: "wit_env option"

definition long_dash :: string where
  "long_dash = [CHR 0xE2, CHR 0x80, CHR 0x94]"

definition require_declared_backing :: "module_id \<Rightarrow> shape \<Rightarrow> backing \<Rightarrow> error + unit" where
  "require_declared_backing mid shape offered =
     (if sh_backing shape = offered then Inr ()
      else Inl (ModuleError (''module '' @ mid @ '': the component declares a '' @
        debug_backing (sh_backing shape) @ '' backing but the host offered '' @ debug_backing offered @
        '' '' @ long_dash @ '' fail-closed'')))"

definition load ::
  "('s, 'o) wasm_env \<Rightarrow> module_id \<Rightarrow> compiled_module \<Rightarrow> ('s, 'o) state_backing \<Rightarrow> bytes option \<Rightarrow>
   error + ('s, 'o) wasm_module" where
  "load E mid compiled backing odb_config =
     and_then (require_declared_backing mid (cm_shape compiled) (backing_kind E backing)) (\<lambda>_.
       Inr \<lparr>wm_id = mid, wm_component = cm_component compiled, wm_code_hash = cm_code_hash compiled,
            wm_index_guest = cm_index_guest compiled, wm_config_keys = sh_config (cm_shape compiled),
            wm_backing = backing, wm_odb_config = odb_config, wm_staged = [], wm_staged_objects = [],
            wm_fuel = DEFAULT_FUEL, wm_committed_queries = sh_committed_queries (cm_shape compiled),
            wm_block_env = None\<rparr>)"

definition over_map :: "('s, 'o) wasm_env \<Rightarrow> compiled_module \<Rightarrow> module_id \<Rightarrow> error + ('s, 'o) wasm_module" where
  "over_map E compiled mid = load E mid compiled (MapBacking []) None"

definition over_store ::
  "('s, 'o) wasm_env \<Rightarrow> compiled_module \<Rightarrow> module_id \<Rightarrow> 's \<Rightarrow> error + ('s, 'o) wasm_module" where
  "over_store E compiled mid store = load E mid compiled (StoreBacking store) None"

definition over_odb ::
  "('s, 'o) wasm_env \<Rightarrow> compiled_module \<Rightarrow> module_id \<Rightarrow> 'o \<Rightarrow> bytes option \<Rightarrow>
   error + ('s, 'o) wasm_module" where
  "over_odb E compiled mid odb config = load E mid compiled (OdbBacking odb) config"

definition is_store_backed :: "('s, 'o) wasm_module \<Rightarrow> bool" where
  "is_store_backed m \<longleftrightarrow> (case wm_backing m of StoreBacking _ \<Rightarrow> True | _ \<Rightarrow> False)"

definition odb_committed :: "('s, 'o) wasm_env \<Rightarrow> 'o \<Rightarrow> bytes option \<Rightarrow> (bytes \<times> bytes) list" where
  "odb_committed E odb config =
     (let committed = [(REFS_KEY, odb_refs_bytes (wx_odb E) odb)] in
      case config of None \<Rightarrow> committed | Some c \<Rightarrow> bt_insert CONFIG_KEY c committed)"

definition committed_for_round :: "('s, 'o) wasm_env \<Rightarrow> ('s, 'o) wasm_module \<Rightarrow> (bytes \<times> bytes) list" where
  "committed_for_round E m =
     (case wm_backing m of
        MapBacking kvs \<Rightarrow> kvs
      | StoreBacking _ \<Rightarrow> []
      | OdbBacking odb \<Rightarrow> odb_committed E odb (wm_odb_config m))"

definition odb_for_round :: "('s, 'o) wasm_module \<Rightarrow> 'o option" where
  "odb_for_round m = (case wm_backing m of OdbBacking odb \<Rightarrow> Some odb | _ \<Rightarrow> None)"

subsection \<open>Resolving reads\<close>

definition digest_error :: "nat \<Rightarrow> error" where
  "digest_error n =
     ModuleError (''store-backed state keys must be '' @ show_nat ROOT_LEN @ ''-byte digests, got '' @ show_nat n)"

definition resolve_state_read ::
  "('s, 'o) wasm_env \<Rightarrow> ('s, 'o) wasm_module \<Rightarrow> bytes \<Rightarrow> error + bytes option" where
  "resolve_state_read E m key =
     (case wm_backing m of
        StoreBacking store \<Rightarrow>
          if length key \<noteq> ROOT_LEN then Inl (digest_error (length key)) else ms_get (wx_lib E) store key
      | _ \<Rightarrow> Inl (Panicked ''internal error: entered unreachable code: map-backed runs never pause on state reads''))"

fun resolve_state_reads ::
  "('s, 'o) wasm_env \<Rightarrow> ('s, 'o) wasm_module \<Rightarrow> bytes list \<Rightarrow> sibling_memo \<Rightarrow> sibling_memo \<times> (error + unit)" where
  "resolve_state_reads E m [] memo = (memo, Inr ())"
| "resolve_state_reads E m (key # keys) memo =
     (case check_capacity memo (length key) of
        Inl e \<Rightarrow> (memo, Inl e)
      | Inr _ \<Rightarrow>
          case resolve_state_read E m key of
            Inl e \<Rightarrow> (memo, Inl e)
          | Inr answer \<Rightarrow>
              st_then (memo_charge memo (length key + opt_length answer)) (\<lambda>memo _.
                resolve_state_reads E m keys (memo\<lparr>sm_states := bt_insert key answer (sm_states memo)\<rparr>)))"

text \<open>A paused run: its own store or the context answers the read.\<close>

definition resolve_read ::
  "('s, 'o) wasm_env \<Rightarrow> ('s, 'o) wasm_module \<Rightarrow> bool \<Rightarrow> string \<Rightarrow> sibling_memo \<Rightarrow> pending_read \<Rightarrow>
   (sibling_memo \<times> (error + unit)) ctx_m" where
  "resolve_read E m has_ctx no_ctx memo read =
     (case read of
        PendingStates keys \<Rightarrow> Done (resolve_state_reads E m keys memo)
      | _ \<Rightarrow> if has_ctx then resolve memo read else Done (memo, Inl (Panicked no_ctx)))"

subsection \<open>Termination of the replay\<close>

text \<open>The reads that are left to a dispatch.\<close>

definition reads_left :: "sibling_memo \<Rightarrow> nat" where
  "reads_left memo = (Suc MAX_SIBLING_READS - memo_len memo) + (Suc MAX_STORE_READS - length (sm_states memo))"

lemma length_bt_insert:
  "length (bt_insert k v m) \<ge> length m"
  "map_of m k = None \<Longrightarrow> length (bt_insert k v m) = Suc (length m)"
  by (induction m) (auto simp: cmp_def split: if_splits)

fun fresh_in :: "sibling_memo \<Rightarrow> pending_read \<Rightarrow> bool" where
  "fresh_in memo (PendingRoot target) \<longleftrightarrow> map_of (sm_roots memo) target = None"
| "fresh_in memo (PendingQuery target req) \<longleftrightarrow> map_of (sm_queries memo) (target, req) = None"
| "fresh_in memo (PendingStates keys) \<longleftrightarrow> keys \<noteq> [] \<and> (\<forall>key\<in>set keys. map_of (sm_states memo) key = None)"

lemma resolve_state_reads_lanes:
  "resolve_state_reads E m keys memo = (memo', r) \<Longrightarrow>
   sm_roots memo' = sm_roots memo \<and> sm_queries memo' = sm_queries memo \<and>
   length (sm_states memo) \<le> length (sm_states memo')"
proof (induction keys arbitrary: memo)
  case (Cons key keys)
  show ?case
  proof (cases "\<exists>a. check_capacity memo (length key) = Inr a \<and> (\<exists>answer. resolve_state_read E m key = Inr answer)")
    case True
    then obtain answer where a: "resolve_state_read E m key = Inr answer" by blast
    obtain memo1 s where c: "memo_charge memo (length key + opt_length answer) = (memo1, s)" by fastforce
    then have lanes: "sm_roots memo1 = sm_roots memo \<and> sm_queries memo1 = sm_queries memo \<and> sm_states memo1 = sm_states memo"
      by (auto simp: memo_charge_def split: sum.splits)
    show ?thesis
    proof (cases s)
      case (Inl e)
      then show ?thesis using Cons.prems True a c lanes by (auto simp: split: sum.splits)
    next
      case (Inr u)
      let ?memo = "memo1\<lparr>sm_states := bt_insert key answer (sm_states memo1)\<rparr>"
      have "resolve_state_reads E m keys ?memo = (memo', r)" using Cons.prems True a c Inr by (auto split: sum.splits)
      from Cons.IH [OF this] show ?thesis using lanes length_bt_insert(1) [of "sm_states memo1" key answer] by simp
    qed
  qed (use Cons.prems in \<open>auto split: sum.splits\<close>)
qed simp

lemma resolve_state_reads_progress:
  assumes "resolve_state_reads E m keys memo = (memo', Inr u)" and "fresh_in memo (PendingStates keys)"
  shows "length (sm_states memo) < length (sm_states memo')"
proof -
  obtain key rest where k: "keys = key # rest" using assms(2) by (cases keys) auto
  then obtain memo1 answer where
    c: "memo_charge memo (length key + opt_length answer) = (memo1, Inr ())"
      "resolve_state_reads E m rest (memo1\<lparr>sm_states := bt_insert key answer (sm_states memo1)\<rparr>) = (memo', Inr u)"
    using assms(1) by (auto simp: st_then_def split: sum.splits prod.splits)
  then have "sm_states memo1 = sm_states memo" by (auto simp: memo_charge_def split: sum.splits)
  then show ?thesis
    using resolve_state_reads_lanes [OF c(2)] length_bt_insert(2) [of "sm_states memo" key answer] assms(2) k by simp
qed

lemma resolve_leafE:
  assumes "ctx_leaf (resolve memo read) (memo', Inr u)"
  obtains (root) target answer where "read = PendingRoot target" "retain_root memo target answer = (memo', Inr u)"
  | (query) target req r where "read = PendingQuery target req" "retain_query memo target req r = (memo', Inr u)"
proof (cases read)
  case (PendingRoot target)
  then obtain answer where "(memo', Inr u) = retain_root memo target answer"
    using assms by (auto split: sum.splits)
  then show thesis using root PendingRoot by simp
next
  case (PendingQuery target req)
  then obtain r where "(memo', Inr u) = retain_query memo target req r"
    using assms by (auto split: sum.splits)
  then show thesis using query PendingQuery by simp
qed (use assms in simp)

lemma resolve_progress:
  assumes "ctx_leaf (resolve memo read) (memo', Inr u)" and "fresh_in memo read"
  shows "memo_len memo < memo_len memo' \<and> sm_states memo' = sm_states memo"
  using assms(1)
proof (cases rule: resolve_leafE)
  case (root target answer)
  then show ?thesis using assms(2) by (auto simp: memo_len_def retain_root_Inr length_bt_insert(2))
next
  case (query target req r)
  then show ?thesis using assms(2) by (auto simp: memo_len_def retain_query_Inr length_bt_insert(2))
qed

lemma resolve_read_progress:
  assumes "ctx_leaf (resolve_read E m has_ctx e memo read) (memo', Inr u)" and "fresh_in memo read" and "within_budgets memo"
  shows "reads_left memo' < reads_left memo"
proof (cases read)
  case (PendingStates keys)
  then have r: "resolve_state_reads E m keys memo = (memo', Inr u)" using assms(1) by (simp add: resolve_read_def)
  then show ?thesis
    using resolve_state_reads_progress [OF r] resolve_state_reads_lanes [OF r] assms(2,3) PendingStates
    by (auto simp: reads_left_def within_budgets_def memo_len_def)
next
  case (PendingRoot t)
  then show ?thesis
    using resolve_progress [of memo read memo' u] assms
    by (auto simp: resolve_read_def reads_left_def within_budgets_def split: if_splits)
next
  case (PendingQuery t q)
  then show ?thesis
    using resolve_progress [of memo read memo' u] assms
    by (auto simp: resolve_read_def reads_left_def within_budgets_def split: if_splits)
qed

lemma ctx_bind_cong [fundef_cong]:
  "t = t' \<Longrightarrow> (\<And>a. ctx_leaf t' a \<Longrightarrow> f a = g a) \<Longrightarrow> ctx_bind t f = ctx_bind t' g"
proof (induction t' arbitrary: t)
  case (Query target req k)
  then show ?case by (simp add: fun_eq_iff) blast
next
  case (AskRoot target k)
  then show ?case by (simp add: fun_eq_iff) blast
qed auto

section \<open>The replay loop\<close>

lemma round_fresh:
  assumes "guest_run (wx_call E) fuel g (d0\<lparr>hd_memo := memo, hd_pending := None\<rparr>) = (r, left, d)"
  shows "sm_roots (hd_memo d) = sm_roots memo" "sm_queries (hd_memo d) = sm_queries memo"
      "sm_states (hd_memo d) = sm_states memo"
    and "hd_pending d = Some read \<Longrightarrow> fresh_read (d0\<lparr>hd_memo := memo, hd_pending := None\<rparr>) read"
    and "hd_pending d = Some read \<Longrightarrow> fresh_in (hd_memo d) read"
proof -
  let ?d = "d0\<lparr>hd_memo := memo, hd_pending := None\<rparr>"
  have v: "run_view d = run_view ?d" and f: "\<forall>read. hd_pending d = Some read \<longrightarrow> fresh_read ?d read"
    using guest_run_view [of "wx_odb E" "wx_sha256 E" fuel g ?d r left d] assms by (auto simp: wx_call_def)
  from v show l: "sm_roots (hd_memo d) = sm_roots memo" "sm_queries (hd_memo d) = sm_queries memo"
      "sm_states (hd_memo d) = sm_states memo"
    by (auto simp: run_view_def)
  show "fresh_read ?d read" if "hd_pending d = Some read" using f that by blast
  then show "fresh_in (hd_memo d) read" if "hd_pending d = Some read" using that l by (cases read) auto
qed

lemma same_lanes:
  "sm_roots a = sm_roots b \<Longrightarrow> sm_queries a = sm_queries b \<Longrightarrow> sm_states a = sm_states b \<Longrightarrow>
   reads_left a = reads_left b \<and> within_budgets a = within_budgets b"
  by (simp add: reads_left_def within_budgets_def memo_len_def)

text \<open>
  The loop of \<^verbatim>\<open>run_mutation\<close>, \<^verbatim>\<open>query\<close>, \<^verbatim>\<open>query_with\<close> and \<^verbatim>\<open>pending_items\<close>: run the export \<open>g\<close> on the data
  \<open>d0\<close> with the memo; settle when the run did not pause; otherwise resolve the read and go round again
  with the fuel that is left. It returns the number of rounds with the outcome.
\<close>

function guest_rounds ::
  "('s, 'o) wasm_env \<Rightarrow> ('s, 'o) wasm_module \<Rightarrow> bool \<Rightarrow> string \<Rightarrow> 'r guest \<Rightarrow> 'o host_data \<Rightarrow>
   ('r run_end \<Rightarrow> 'o host_data \<Rightarrow> 'a) \<Rightarrow> (error \<Rightarrow> 'a) \<Rightarrow> sibling_memo \<Rightarrow> nat \<Rightarrow> nat \<Rightarrow> (nat \<times> 'a) ctx_m" where
  "guest_rounds E m has_ctx no_ctx g d0 settle refuse memo fuel runs =
     (if \<not> within_budgets memo then Done (runs, refuse (budget_error memo))
      else case guest_run (wx_call E) fuel g (d0\<lparr>hd_memo := memo, hd_pending := None\<rparr>) of
        (r, left, d) \<Rightarrow>
          case hd_pending d of
            None \<Rightarrow> Done (Suc runs, settle r d)
          | Some read \<Rightarrow>
              ctx_bind (resolve_read E m has_ctx no_ctx (hd_memo d) read) (\<lambda>(memo', resolved).
                case resolved of
                  Inl e \<Rightarrow> Done (Suc runs, refuse e)
                | Inr _ \<Rightarrow> guest_rounds E m has_ctx no_ctx g d0 settle refuse memo' left (Suc runs)))"
  by pat_completeness auto

termination
proof (relation "measure (\<lambda>(E, m, has_ctx, no_ctx, g, d0, settle, refuse, memo, fuel, runs). reads_left memo)",
    goal_cases)
  case (2 E m has_ctx no_ctx g d0 settle refuse memo fuel runs r y left d read a memo' resolved u)
  have run: "guest_run (wx_call E) fuel g (d0\<lparr>hd_memo := memo, hd_pending := None\<rparr>) = (r, left, d)"
    using 2 by simp
  note f = round_fresh [OF run]
  have "reads_left memo' < reads_left (hd_memo d)"
    using 2 f(5) same_lanes [OF f(1-3)] by (intro resolve_read_progress [where u = u]) auto
  then show ?case using same_lanes [OF f(1-3)] by simp
qed simp

declare guest_rounds.simps [simp del]

section \<open>Mutations\<close>

datatype mutation = Execute bytes | Acknowledge wit_ack | Initialize bytes | Finalize

fun invoke :: "mutation \<Rightarrow> wasm_component \<Rightarrow> (wit_error + unit) guest" where
  "invoke (Execute payload) component = wc_execute component payload"
| "invoke (Acknowledge a) component = wc_acknowledge component a"
| "invoke (Initialize params) component = wc_initialize component params"
| "invoke Finalize component = wc_finalize_block component"

record declarations =
  de_output :: "bytes option"
  de_assigned :: "bytes option"

fun declare_all :: "mutation \<Rightarrow> module_id \<Rightarrow> nat \<Rightarrow> declared \<Rightarrow> declared \<Rightarrow> error + declarations" where
  "declare_all (Execute payload) mid messages output assigned =
     and_then (into_value output ''op output'') (\<lambda>out.
     and_then (into_value assigned ''op assigned stamp'') (\<lambda>stamp.
       Inr \<lparr>de_output = out, de_assigned = stamp\<rparr>))"
| "declare_all (Acknowledge a) mid messages output assigned =
     (if messages \<noteq> 0
      then Inl (ModuleError (mid @ '': an acknowledgment emitted '' @ show_nat messages @
        '' follow-up intents; none are allowed''))
      else and_then (into_value assigned ''acknowledgment assigned stamp'') (\<lambda>stamp.
        Inr \<lparr>de_output = None, de_assigned = stamp\<rparr>))"
| "declare_all _ mid messages output assigned = Inr \<lparr>de_output = None, de_assigned = None\<rparr>"

definition lifecycle_env :: "('s, 'o) wasm_module \<Rightarrow> wit_env" where
  "lifecycle_env m =
     (let env = (case wm_block_env m of Some e \<Rightarrow> e
        | None \<Rightarrow> \<lparr>we_height = 0, we_consensus_time = 0, we_me = wm_id m, we_origin = WitSystem,
                   we_cause = to_wit_cause Direct\<rparr>)
      in env\<lparr>we_origin := WitSystem\<rparr>)"

text \<open>The data a round of a mutation starts with, but for the memo, which grows from round to round.\<close>

definition mutation_data ::
  "('s, 'o) wasm_env \<Rightarrow> ('s, 'o) wasm_module \<Rightarrow> wit_env \<Rightarrow> bool \<Rightarrow> 'o host_data" where
  "mutation_data E m env has_ctx =
     \<lparr>hd_local_reads = False, hd_env = Some env, hd_committed = committed_for_round E m,
      hd_staged = wm_staged m, hd_memo = memo_default, hd_pending = None, hd_sealed = \<not> has_ctx,
      hd_store_backed = is_store_backed m, hd_object_puts = wm_staged_objects m, hd_odb = odb_for_round m,
      hd_out_msgs = [], hd_out_events = [], hd_out_output = Nothing, hd_out_assigned = Nothing,
      hd_host_bytes = staged_bytes (wm_staged m) + object_bytes (wm_staged_objects m)\<rparr>"

definition has_dispatch_outputs :: "'o host_data \<Rightarrow> bool" where
  "has_dispatch_outputs d \<longleftrightarrow>
     hd_out_msgs d \<noteq> [] \<or> hd_out_events d \<noteq> [] \<or> hd_out_output d \<noteq> Nothing \<or> hd_out_assigned d \<noteq> Nothing"

text \<open>What a round that did not pause makes of the module. A rejected op stages and emits nothing.\<close>

definition settle_mutation ::
  "('s, 'o) wasm_env \<Rightarrow> ('s, 'o) wasm_module \<Rightarrow> mutation \<Rightarrow> bool \<Rightarrow>
   (wit_error + unit) run_end \<Rightarrow> 'o host_data \<Rightarrow> ('s, 'o) wasm_module dispatch_out" where
  "settle_mutation E m call has_ctx r d =
     (case end_result E r of
        Inl e \<Rightarrow> quiet_out m (Inl e)
      | Inr _ \<Rightarrow>
          if \<not> has_ctx \<and> has_dispatch_outputs d
          then quiet_out m (Inl (ModuleError ''module lifecycle cannot emit dispatch outputs''))
          else case declare_all call (wm_id m) (length (hd_out_msgs d)) (hd_out_output d) (hd_out_assigned d) of
            Inl e \<Rightarrow> quiet_out m (Inl e)
          | Inr declared \<Rightarrow>
              let m' = m\<lparr>wm_staged := hd_staged d, wm_staged_objects := hd_object_puts d\<rparr> in
              if \<not> has_ctx then quiet_out m' (Inr ())
              else \<lparr>out_module = m', out_result = Inr (),
                    out_msgs = map (\<lambda>(target, payload). \<lparr>msg_target = target, msg_payload = payload\<rparr>) (hd_out_msgs d),
                    out_events = map (\<lambda>(source, payload). \<lparr>ev_source = source, ev_payload = payload\<rparr>) (hd_out_events d),
                    out_output = (case de_output declared of None \<Rightarrow> Nothing
                      | Some bs \<Rightarrow> declare_value Nothing bs MAX_OUTPUT_BYTES),
                    out_assigned = (case de_assigned declared of None \<Rightarrow> Nothing
                      | Some bs \<Rightarrow> declare_value Nothing bs MAX_ASSIGNED_BYTES)\<rparr>)"

definition no_mutation_ctx :: string where
  "no_mutation_ctx = ''unsealed mutation has a context''"

text \<open>
  \<^verbatim>\<open>run_mutation\<close>: every round starts from the stage the dispatch found, which is also what a refused
  dispatch leaves.
\<close>

definition run_mutation ::
  "('s, 'o) wasm_env \<Rightarrow> ('s, 'o) wasm_module \<Rightarrow> mutation \<Rightarrow> wit_env \<Rightarrow> bool \<Rightarrow>
   (nat \<times> ('s, 'o) wasm_module dispatch_out) ctx_m" where
  "run_mutation E m call env has_ctx =
     (let m = m\<lparr>wm_block_env := Some env\<rparr> in
      guest_rounds E m has_ctx no_mutation_ctx (invoke call (wm_component m)) (mutation_data E m env has_ctx)
        (settle_mutation E m call has_ctx) (\<lambda>e. quiet_out m (Inl e)) memo_default (wm_fuel m) 0)"

text \<open>A lifecycle run has no context, so its tree asks nothing.\<close>

definition run_lifecycle ::
  "('s, 'o) wasm_env \<Rightarrow> ('s, 'o) wasm_module \<Rightarrow> mutation \<Rightarrow> ('s, 'o) wasm_module \<times> (error + unit)" where
  "run_lifecycle E m call =
     (case run_mutation E m call (lifecycle_env m) False of
        Done (_, out) \<Rightarrow> (out_module out, out_result out)
      | _ \<Rightarrow> (m, Inl (Panicked no_mutation_ctx)))"

section \<open>Publishing\<close>

fun publish_map :: "(bytes \<times> bytes option) list \<Rightarrow> (bytes \<times> bytes) list \<Rightarrow> (bytes \<times> bytes) list" where
  "publish_map [] kvs = kvs"
| "publish_map ((key, Some value) # staged) kvs = publish_map staged (bt_insert key value kvs)"
| "publish_map ((key, None) # staged) kvs = publish_map staged (bt_remove key kvs)"

fun stage_puts :: "'o odb_ops \<Rightarrow> bytes list \<Rightarrow> 'o \<Rightarrow> 'o \<times> (error + unit)" where
  "stage_puts B [] odb = (odb, Inr ())"
| "stage_puts B ([] # objects) odb = (odb, Inl (Panicked ''a staged object always carries its kind tag''))"
| "stage_puts B ((kind # body) # objects) odb = stage_puts B objects (odb_stage_put B odb kind body)"

fun digest_writes :: "(bytes \<times> bytes option) list \<Rightarrow> error + (bytes \<times> bytes option) list" where
  "digest_writes [] = Inr []"
| "digest_writes ((key, value) # staged) =
     (if length key \<noteq> ROOT_LEN then Inl (digest_error (length key))
      else and_then (digest_writes staged) (\<lambda>writes. Inr ((key, value) # writes)))"

definition publish_odb ::
  "('s, 'o) wasm_env \<Rightarrow> u64 \<Rightarrow> 'o \<Rightarrow> ('s, 'o) wasm_module \<Rightarrow> ('s, 'o) wasm_module \<times> (error + unit)" where
  "publish_odb E height odb m =
     (let B = wx_odb E; objects = map snd (wm_staged_objects m); m = m\<lparr>wm_staged_objects := []\<rparr> in
      case stage_puts B objects odb of
        (odb, Inl e) \<Rightarrow> (m\<lparr>wm_backing := OdbBacking odb\<rparr>, Inl e)
      | (odb, Inr _) \<Rightarrow>
          case odb_publish_block B odb height of
            (odb, Inl e) \<Rightarrow> (m\<lparr>wm_backing := OdbBacking odb\<rparr>, Inl e)
          | (odb, Inr _) \<Rightarrow>
              case map_of (wm_staged m) REFS_KEY of
                None \<Rightarrow> (m\<lparr>wm_backing := OdbBacking odb, wm_staged := []\<rparr>, Inr ())
              | Some overlay \<Rightarrow>
                  let m = m\<lparr>wm_backing := OdbBacking odb, wm_staged := bt_remove REFS_KEY (wm_staged m)\<rparr> in
                  case overlay of
                    None \<Rightarrow> (m, Inl (ModuleError ''files: refs lane staged a delete, never valid''))
                  | Some refs \<Rightarrow>
                      case odb_adopt_refs B odb refs of
                        (odb, Inl e) \<Rightarrow> (m\<lparr>wm_backing := OdbBacking odb\<rparr>, Inl e)
                      | (odb, Inr _) \<Rightarrow> (m\<lparr>wm_backing := OdbBacking odb, wm_staged := []\<rparr>, Inr ()))"

definition publish_store ::
  "('s, 'o) wasm_env \<Rightarrow> 's \<Rightarrow> ('s, 'o) wasm_module \<Rightarrow> ('s, 'o) wasm_module \<times> (error + unit)" where
  "publish_store E store m =
     (let m = m\<lparr>wm_staged_objects := []\<rparr> in
      if wm_staged m = [] then (m, Inr ())
      else case digest_writes (wm_staged m) of
        Inl e \<Rightarrow> (m, Inl e)
      | Inr writes \<Rightarrow>
          case ms_commit_batch (wx_lib E) store writes of
            (store, Inl e) \<Rightarrow> (m\<lparr>wm_backing := StoreBacking store\<rparr>, Inl e)
          | (store, Inr _) \<Rightarrow> (m\<lparr>wm_backing := StoreBacking store, wm_staged := []\<rparr>, Inr ()))"

definition publish_state ::
  "('s, 'o) wasm_env \<Rightarrow> ('s, 'o) wasm_module \<Rightarrow> ('s, 'o) wasm_module \<times> (error + unit)" where
  "publish_state E m =
     (let height = (case wm_block_env m of None \<Rightarrow> 0 | Some env \<Rightarrow> we_height env);
          m = m\<lparr>wm_block_env := None\<rparr> in
      case wm_backing m of
        MapBacking kvs \<Rightarrow>
          (m\<lparr>wm_staged_objects := [], wm_backing := MapBacking (publish_map (wm_staged m) kvs), wm_staged := []\<rparr>, Inr ())
      | OdbBacking odb \<Rightarrow> publish_odb E height odb m
      | StoreBacking store \<Rightarrow> publish_store E store m)"

section \<open>Reads\<close>

definition read_data ::
  "('s, 'o) wasm_env \<Rightarrow> ('s, 'o) wasm_module \<Rightarrow> wit_env \<Rightarrow> bool \<Rightarrow> bool \<Rightarrow> bool \<Rightarrow> 'o host_data" where
  "read_data E m env sealed committed_only local_reads =
     (let staged = (if committed_only then [] else wm_staged m) in
      \<lparr>hd_local_reads = local_reads, hd_env = Some env, hd_committed = committed_for_round E m,
       hd_staged = staged, hd_memo = memo_default, hd_pending = None, hd_sealed = sealed,
       hd_store_backed = is_store_backed m, hd_object_puts = [], hd_odb = odb_for_round m,
       hd_out_msgs = [], hd_out_events = [], hd_out_output = Nothing, hd_out_assigned = Nothing,
       hd_host_bytes = staged_bytes staged\<rparr>)"

definition no_read_ctx :: string where
  "no_read_ctx = ''internal error: entered unreachable code: sealed runs never pause on sibling reads''"

text \<open>The read surfaces: a query, or the queue, of the guest.\<close>

definition read_rounds ::
  "('s, 'o) wasm_env \<Rightarrow> ('s, 'o) wasm_module \<Rightarrow> wit_env \<Rightarrow> bool \<Rightarrow> bool \<Rightarrow> bool \<Rightarrow> (wit_error + 'r) guest \<Rightarrow>
   (nat \<times> (error + 'r)) ctx_m" where
  "read_rounds E m env sealed committed_only local_reads g =
     guest_rounds E m (\<not> sealed) no_read_ctx g (read_data E m env sealed committed_only local_reads)
       (\<lambda>r d. end_result E r) Inl memo_default (wm_fuel m) 0"

definition wasm_query_with ::
  "('s, 'o) wasm_env \<Rightarrow> ('s, 'o) wasm_module \<Rightarrow> env \<Rightarrow> bytes \<Rightarrow> (nat \<times> (error + bytes)) ctx_m" where
  "wasm_query_with E m env req =
     read_rounds E m (to_wit_env env) False (wm_committed_queries m) True (wc_query (wm_component m) req)"

text \<open>The sealed reads ask nothing of a context.\<close>

definition sealed_result :: "(nat \<times> (error + 'r)) ctx_m \<Rightarrow> nat \<times> (error + 'r)" where
  "sealed_result t = (case t of Done p \<Rightarrow> p | _ \<Rightarrow> (0, Inl (Panicked no_read_ctx)))"

definition wasm_query :: "('s, 'o) wasm_env \<Rightarrow> ('s, 'o) wasm_module \<Rightarrow> bytes \<Rightarrow> nat \<times> (error + bytes)" where
  "wasm_query E m req = sealed_result
     (read_rounds E m (sealed_env (wm_id m)) True (wm_committed_queries m) True (wc_query (wm_component m) req))"

definition wasm_pending_items :: "('s, 'o) wasm_env \<Rightarrow> ('s, 'o) wasm_module \<Rightarrow> error + pending_item list" where
  "wasm_pending_items E m =
     and_then (snd (sealed_result
       (read_rounds E m (sealed_env (wm_id m)) True True False (wc_pending_items (wm_component m))))) (\<lambda>items. Inr (map pending_item_from_wit items))"

section \<open>The module trait\<close>

definition root_of :: "('s, 'o) wasm_env \<Rightarrow> (bytes \<times> bytes) list \<Rightarrow> state_root" where
  "root_of E kvs = wx_sha256 E (encode_pairs kvs)"

definition wasm_root :: "('s, 'o) wasm_env \<Rightarrow> ('s, 'o) wasm_module \<Rightarrow> state_root" where
  "wasm_root E m =
     (case wm_backing m of
        MapBacking kvs \<Rightarrow> root_of E kvs
      | StoreBacking store \<Rightarrow> ms_root (wx_lib E) store
      | OdbBacking odb \<Rightarrow> odb_root (wx_odb E) odb)"

definition wasm_execute ::
  "('s, 'o) wasm_env \<Rightarrow> ('s, 'o) wasm_module \<Rightarrow> env \<Rightarrow> msg \<Rightarrow> (nat \<times> ('s, 'o) wasm_module dispatch_out) ctx_m" where
  "wasm_execute E m env msg = run_mutation E m (Execute (msg_payload msg)) (to_wit_env env) True"

definition wasm_acknowledge ::
  "('s, 'o) wasm_env \<Rightarrow> ('s, 'o) wasm_module \<Rightarrow> env \<Rightarrow> ack \<Rightarrow> (nat \<times> ('s, 'o) wasm_module dispatch_out) ctx_m" where
  "wasm_acknowledge E m env a = run_mutation E m (Acknowledge (to_wit_ack a)) (to_wit_env env) True"

definition wasm_initialize ::
  "('s, 'o) wasm_env \<Rightarrow> ('s, 'o) wasm_module \<Rightarrow> bytes \<Rightarrow> ('s, 'o) wasm_module \<times> (error + unit)" where
  "wasm_initialize E m params = st_then (run_lifecycle E m (Initialize params)) (\<lambda>m _. publish_state E m)"

definition wasm_commit_block ::
  "('s, 'o) wasm_env \<Rightarrow> ('s, 'o) wasm_module \<Rightarrow> ('s, 'o) wasm_module \<times> (error + unit)" where
  "wasm_commit_block E m = st_then (run_lifecycle E m Finalize) (\<lambda>m _. publish_state E m)"

definition wasm_abort_block ::
  "('s, 'o) wasm_env \<Rightarrow> ('s, 'o) wasm_module \<Rightarrow> ('s, 'o) wasm_module \<times> (error + unit)" where
  "wasm_abort_block E m =
     (m\<lparr>wm_staged := [], wm_staged_objects := [], wm_block_env := None,
        wm_backing := (case wm_backing m of
           OdbBacking odb \<Rightarrow> OdbBacking (odb_discard_block (wx_odb E) odb)
         | other \<Rightarrow> other)\<rparr>, Inr ())"

definition wasm_prepare_swap ::
  "('s, 'o) wasm_env \<Rightarrow> ('s, 'o) wasm_module \<Rightarrow> bytes \<Rightarrow> error + ('s, 'o) wasm_module" where
  "wasm_prepare_swap E m artifact_bytes =
     and_then (compile_artifact E artifact_bytes) (\<lambda>compiled.
     and_then (require_declared_backing (wm_id m) (cm_shape compiled) (backing_kind E (wm_backing m))) (\<lambda>_.
       if set (wm_config_keys m) \<noteq> set (sh_config (cm_shape compiled))
       then Inl (ModuleError (wm_id m @ '' replacement changes initialized configuration keys''))
       else Inr (m\<lparr>wm_component := cm_component compiled, wm_code_hash := cm_code_hash compiled,
                   wm_index_guest := cm_index_guest compiled,
                   wm_committed_queries := sh_committed_queries (cm_shape compiled),
                   wm_staged := [], wm_staged_objects := [], wm_block_env := None\<rparr>)))"

definition wasm_ops :: "('s, 'o) wasm_env \<Rightarrow> ('s, 'o) wasm_module module_ops" where
  "wasm_ops E =
     \<lparr>mod_id = wm_id, mod_root = wasm_root E,
      mod_execute = (\<lambda>m env msg. map_ctx_m snd (wasm_execute E m env msg)),
      mod_acknowledge = (\<lambda>m env a. map_ctx_m snd (wasm_acknowledge E m env a)),
      mod_query = (\<lambda>m env req. map_ctx_m snd (wasm_query_with E m env req)),
      mod_pending_items = wasm_pending_items E, mod_commit_block = wasm_commit_block E,
      mod_abort_block = wasm_abort_block E, mod_code_hash = (\<lambda>m. Some (wm_code_hash m)),
      mod_prepare_swap = wasm_prepare_swap E\<rparr>"

section \<open>Snapshots\<close>

definition snapshot :: "('s, 'o) wasm_env \<Rightarrow> ('s, 'o) wasm_module \<Rightarrow> error + bytes" where
  "snapshot E m =
     (case wm_backing m of
        MapBacking kvs \<Rightarrow> Inr (encode_pairs kvs)
      | StoreBacking _ \<Rightarrow>
          Inl (Panicked (''a store-backed wasm module has no byte snapshot '' @ long_dash @ '' sync the store''))
      | OdbBacking odb \<Rightarrow> Inr (odb_refs_bytes (wx_odb E) odb))"

definition snap_take_u64 :: "bytes \<Rightarrow> error + u64 \<times> bytes" where
  "snap_take_u64 buf =
     (if length buf < 8 then Inl (ModuleError ''snapshot truncated'')
      else Inr (u64_of_le (take 8 buf), drop 8 buf))"

definition snap_take_vec :: "bytes \<Rightarrow> error + bytes \<times> bytes" where
  "snap_take_vec buf =
     and_then (snap_take_u64 buf) (\<lambda>(len, buf).
       if unat len > length buf then Inl (ModuleError ''snapshot length exceeds buffer'')
       else Inr (take (unat len) buf, drop (unat len) buf))"

fun decode_entries ::
  "nat \<Rightarrow> bytes option \<Rightarrow> (bytes \<times> bytes) list \<Rightarrow> bytes \<Rightarrow> error + (bytes \<times> bytes) list \<times> bytes" where
  "decode_entries 0 prev kvs buf = Inr (kvs, buf)"
| "decode_entries (Suc n) prev kvs buf =
     and_then (snap_take_vec buf) (\<lambda>(key, buf).
       if (case prev of None \<Rightarrow> False | Some p \<Rightarrow> p \<ge> key)
       then Inl (ModuleError ''snapshot keys must be strictly increasing'')
       else and_then (snap_take_vec buf) (\<lambda>(value, buf).
         decode_entries n (Some key) (bt_insert key value kvs) buf))"

definition decode_state :: "bytes \<Rightarrow> error + (bytes \<times> bytes) list" where
  "decode_state bs =
     and_then (snap_take_u64 bs) (\<lambda>(count, buf).
       if unat count > length buf div 16 then Inl (ModuleError ''snapshot entry count exceeds buffer'')
       else and_then (decode_entries (unat count) None [] buf) (\<lambda>(kvs, buf).
         if buf \<noteq> [] then Inl (ModuleError ''snapshot carries trailing bytes'') else Inr kvs))"

definition install ::
  "('s, 'o) wasm_env \<Rightarrow> ('s, 'o) wasm_module \<Rightarrow> bytes \<Rightarrow> state_root \<Rightarrow> ('s, 'o) wasm_module \<times> (error + unit)" where
  "install E m bs expected =
     (case wm_backing m of
        MapBacking _ \<Rightarrow>
          (case decode_state bs of
             Inl e \<Rightarrow> (m, Inl e)
           | Inr decoded \<Rightarrow>
               if root_of E decoded \<noteq> expected then (m, Inl (ModuleError ''snapshot root mismatch''))
               else (m\<lparr>wm_backing := MapBacking decoded, wm_staged := []\<rparr>, Inr ()))
      | StoreBacking _ \<Rightarrow>
          (m, Inl (ModuleError ''a store-backed wasm module adopts state through its injected store, not install''))
      | OdbBacking odb \<Rightarrow>
          (case odb_install (wx_odb E) odb bs expected of
             (odb, Inl e) \<Rightarrow> (m\<lparr>wm_backing := OdbBacking odb\<rparr>, Inl e)
           | (odb, Inr _) \<Rightarrow> (m\<lparr>wm_backing := OdbBacking odb, wm_staged := []\<rparr>, Inr ())))"

fun initial_entries :: "(bytes \<times> bytes) list \<Rightarrow> (bytes \<times> bytes) list \<Rightarrow> error + (bytes \<times> bytes) list" where
  "initial_entries [] kvs = Inr kvs"
| "initial_entries ((key, value) # entries) kvs =
     (if map_of kvs key \<noteq> None then Inl (Panicked ''initial_state entries must have unique keys'')
      else initial_entries entries (bt_insert key value kvs))"

definition initial_state :: "('s, 'o) wasm_env \<Rightarrow> (bytes \<times> bytes) list \<Rightarrow> error + bytes \<times> state_root" where
  "initial_state E entries =
     and_then (initial_entries entries []) (\<lambda>kvs. Inr (encode_pairs kvs, root_of E kvs))"

end
