(* ===== verification/Wasm_Laws.thy ===== *)
theory Wasm_Laws
  imports Wasm_Module Host_Swaps
begin

text \<open>
  What a wasm module promises, whatever its guest does: a dispatch ends after a bounded number of
  rounds and either leaves the stage alone or stages what its last round staged; nothing but the stage
  changes between commits, so that wasm modules satisfy the contracts of a host (\<open>module_laws\<close>,
  \<open>swap_contract\<close>); the stage stays within the byte budget, and no place that panics is reached.
\<close>

section \<open>Runs of a tree\<close>

text \<open>The runs of a tree whose answers are among the admitted ones.\<close>

inductive ctx_run ::
  "(module_id \<Rightarrow> bytes \<Rightarrow> error + bytes \<Rightarrow> bool) \<Rightarrow> (module_id \<Rightarrow> state_root option \<Rightarrow> bool) \<Rightarrow> 'a ctx_m \<Rightarrow> 'a \<Rightarrow> bool"
  for A R where
  run_done: "ctx_run A R (Done a) a"
| run_query: "A target req r \<Longrightarrow> ctx_run A R (k r) a \<Longrightarrow> ctx_run A R (Query target req k) a"
| run_root: "R target r \<Longrightarrow> ctx_run A R (k r) a \<Longrightarrow> ctx_run A R (AskRoot target k) a"

inductive_simps ctx_run_simps [simp]:
  "ctx_run A R (Done a) b"
  "ctx_run A R (Query target req k) b"
  "ctx_run A R (AskRoot target k) b"

lemma ctx_leaf_run: "ctx_leaf t a \<longleftrightarrow> ctx_run (\<lambda>_ _ _. True) (\<lambda>_ _. True) t a"
  by (induction t) auto

lemma ctx_run_leaf: "ctx_run A R t a \<Longrightarrow> ctx_leaf t a"
  by (induction rule: ctx_run.induct) auto

lemma ctx_run_bind: "ctx_run A R (ctx_bind t f) b \<longleftrightarrow> (\<exists>a. ctx_run A R t a \<and> ctx_run A R (f a) b)"
  by (induction t) auto

lemma ctx_run_map: "ctx_run A R (map_ctx_m f t) b \<longleftrightarrow> (\<exists>a. ctx_run A R t a \<and> b = f a)"
  by (induction t) auto

lemma ctx_answer_run: "ctx_run (\<lambda>t q r. r = ask t q) (\<lambda>t r. r = root t) tree (ctx_answer ask root tree)"
  by (induction tree) auto

section \<open>The replay loop\<close>

lemma guest_run_fuel: "guest_run call fuel g d = (r, left, d') \<Longrightarrow> left \<le> fuel"
proof (induction call fuel g d rule: guest_run.induct)
  case (1 call fuel g d)
  show ?case
  proof (cases g)
    case (GuestCall c f k)
    obtain d1 x where c: "call f d = (d1, x)" by fastforce
    show ?thesis
    proof (cases "fuel \<le> c")
      case False
      have "left \<le> fuel - Suc c" if "x = Returned a" for a
        using "1.IH" [OF GuestCall False c [symmetric] that] "1.prems" GuestCall False c that
        by (simp add: guest_run.simps [of call fuel])
      then show ?thesis
        using "1.prems" GuestCall False c by (cases x) (fastforce simp: guest_run.simps [of call fuel])+
    qed (use "1.prems" GuestCall in \<open>simp add: guest_run.simps\<close>)
  qed (use "1.prems" in \<open>auto simp: guest_run.simps split: if_splits\<close>)
qed

text \<open>One round of the loop.\<close>

definition round_of where
  "round_of E g d0 memo fuel r left d \<longleftrightarrow>
     guest_run (wx_call E) fuel g (d0\<lparr>hd_memo := memo, hd_pending := None\<rparr>) = (r, left, d)"

text \<open>
  An outcome of the loop is the refusal of a budget, the refusal of a read, or what a round settled that
  did not pause. The memo of every round satisfies what resolving a read keeps, and every round but the
  last resolved a read.
\<close>

lemma guest_rounds_run:
  assumes "ctx_run A R (guest_rounds E m has_ctx no_ctx g d0 finish refuse memo fuel runs) (n, out)" and "M memo"
    and step: "\<And>memo fuel r left d read memo' u. M memo \<Longrightarrow> round_of E g d0 memo fuel r left d \<Longrightarrow> hd_pending d = Some read \<Longrightarrow>
      ctx_run A R (resolve_read E m has_ctx no_ctx (hd_memo d) read) (memo', Inr u) \<Longrightarrow> M memo'"
  shows "((\<exists>memo. out = refuse (budget_error memo)) \<or>
      (\<exists>memo fuel' r left d read memo' e. M memo \<and> round_of E g d0 memo fuel' r left d \<and> hd_pending d = Some read \<and>
         ctx_run A R (resolve_read E m has_ctx no_ctx (hd_memo d) read) (memo', Inl e) \<and> out = refuse e) \<or>
      (\<exists>memo fuel' r left d. M memo \<and> fuel' \<le> fuel \<and> round_of E g d0 memo fuel' r left d \<and> hd_pending d = None \<and>
         out = finish r d)) \<and> n \<le> runs + (reads_left memo - 1)"
    (is "?S fuel \<and> ?N memo runs")
  using assms(1,2)
proof (induction "reads_left memo" arbitrary: memo fuel runs rule: less_induct)
  case less
  obtain r left d where run: "round_of E g d0 memo fuel r left d"
    unfolding round_of_def by (metis prod_cases3)
  note leaf = less.prems(1) [unfolded guest_rounds.simps [of E m has_ctx no_ctx g d0 finish refuse memo fuel runs]
      run [unfolded round_of_def] prod.case]
  show ?case
  proof (cases "within_budgets memo")
    case False
    then have "out = refuse (budget_error memo)" "n = runs" using leaf by auto
    then show ?thesis by auto
  next
    case True
    then have left2: "2 \<le> reads_left memo" by (auto simp: within_budgets_def reads_left_def)
    show ?thesis
    proof (cases "hd_pending d")
      case None
      then have "out = finish r d" "n = Suc runs" using leaf True by auto
      then have "?S fuel" using run less.prems(2) None by blast
      moreover have "?N memo runs" using \<open>n = Suc runs\<close> left2 by simp
      ultimately show ?thesis by blast
    next
      case (Some read)
      note f = round_fresh [OF run [unfolded round_of_def]]
      obtain memo' resolved where
        a: "ctx_run A R (resolve_read E m has_ctx no_ctx (hd_memo d) read) (memo', resolved)"
          "ctx_run A R (case resolved of Inl e \<Rightarrow> Done (Suc runs, refuse e)
             | Inr _ \<Rightarrow> guest_rounds E m has_ctx no_ctx g d0 finish refuse memo' left (Suc runs)) (n, out)"
        using leaf True Some by (auto simp: ctx_run_bind)
      show ?thesis
      proof (cases resolved)
        case (Inl e)
        then have "out = refuse e" "n = Suc runs" using a(2) by auto
        then have "?S fuel" using a(1) [unfolded Inl] run Some less.prems(2) by blast
        moreover have "?N memo runs" using \<open>n = Suc runs\<close> left2 by simp
        ultimately show ?thesis by blast
      next
        case (Inr u)
        have less': "reads_left memo' < reads_left memo"
          using resolve_read_progress [OF ctx_run_leaf [OF a(1) [unfolded Inr]] f(5) [OF Some]] True
            same_lanes [OF f(1-3)] by simp
        have "ctx_run A R (guest_rounds E m has_ctx no_ctx g d0 finish refuse memo' left (Suc runs)) (n, out)"
          using a(2) Inr by simp
        note ih = less.hyps [OF less' this step [OF less.prems(2) run Some a(1) [unfolded Inr]]]
        have le: "f \<le> fuel" if "f \<le> left" for f
          using that guest_run_fuel [OF run [unfolded round_of_def]] by simp
        have "?S fuel"
          using ih [THEN conjunct1] by (elim disjE) (blast, blast, use le in blast)
        moreover have "?N memo runs" using ih [THEN conjunct2] less' left2 by simp
        ultimately show ?thesis by blast
      qed
    qed
  qed
qed

lemma reads_left_default [simp]: "reads_left memo_default = MAX_SIBLING_READS + MAX_STORE_READS + 2"
  by (simp add: reads_left_def memo_default_def memo_len_def)

lemma guest_rounds_leaf:
  assumes "ctx_leaf (guest_rounds E m has_ctx no_ctx g d0 finish refuse memo fuel runs) (n, out)"
  shows "(\<exists>e. out = refuse e) \<or> (\<exists>memo fuel' r left d. round_of E g d0 memo fuel' r left d \<and> out = finish r d)"
    and "n \<le> runs + (reads_left memo - 1)"
  using guest_rounds_run [OF assms [unfolded ctx_leaf_run], of "\<lambda>_. True"] by blast+

text \<open>Without a context the loop asks nothing.\<close>

lemma guest_rounds_quiet: "\<exists>p. guest_rounds E m False no_ctx g d0 finish refuse memo fuel runs = Done p"
proof (induction "reads_left memo" arbitrary: memo fuel runs rule: less_induct)
  case less
  obtain r left d where run: "guest_run (wx_call E) fuel g (d0\<lparr>hd_memo := memo, hd_pending := None\<rparr>) = (r, left, d)"
    by (metis prod_cases3)
  show ?case
  proof (cases "within_budgets memo \<and> hd_pending d \<noteq> None")
    case False
    then show ?thesis using run by (subst guest_rounds.simps) auto
  next
    case True
    then obtain read where read: "hd_pending d = Some read" by auto
    note f = round_fresh [OF run]
    obtain memo' x where p: "resolve_read E m False no_ctx (hd_memo d) read = Done (memo', x)"
      by (cases read) (auto simp: resolve_read_def intro: prod.exhaust)
    show ?thesis
    proof (cases x)
      case (Inl e)
      then show ?thesis using True run read p by (subst guest_rounds.simps) simp
    next
      case (Inr u)
      have "reads_left memo' < reads_left memo"
        using resolve_read_progress [of E m False no_ctx "hd_memo d" read memo' u] f(5) [OF read] True
          same_lanes [OF f(1-3)] p Inr by simp
      from less [OF this] show ?thesis using True run read p Inr by (subst guest_rounds.simps) simp
    qed
  qed
qed

lemma run_lifecycle_Done:
  obtains n out where "run_mutation E m call (lifecycle_env m) False = Done (n, out)"
    "run_lifecycle E m call = (out_module out, out_result out)"
proof -
  obtain n out where "run_mutation E m call (lifecycle_env m) False = Done (n, out)"
    unfolding run_mutation_def Let_def by (metis prod.exhaust guest_rounds_quiet)
  with that show thesis by (simp add: run_lifecycle_def)
qed

section \<open>The staging contract\<close>

text \<open>The substrate as of the last commit.\<close>

definition odb_laws :: "'o odb_ops \<Rightarrow> bool" where
  "odb_laws B \<longleftrightarrow>
     (\<forall>odb. odb_discard_block B (odb_discard_block B odb) = odb_discard_block B odb \<and>
        odb_root B (odb_discard_block B odb) = odb_root B odb)"

definition wasm_base :: "('s, 'o) wasm_env \<Rightarrow> ('s, 'o) wasm_module \<Rightarrow> ('s, 'o) wasm_module" where
  "wasm_base E m = fst (wasm_abort_block E m)"

lemma settle_stages:
  "\<exists>staged objects. out_module (settle_mutation E m call has_ctx r d) =
     m\<lparr>wm_staged := staged, wm_staged_objects := objects\<rparr>"
proof -
  have "out_module (settle_mutation E m call has_ctx r d) = m \<or>
      out_module (settle_mutation E m call has_ctx r d) =
        m\<lparr>wm_staged := hd_staged d, wm_staged_objects := hd_object_puts d\<rparr>"
    unfolding settle_mutation_def quiet_out_def Let_def
    by (cases "end_result E r"; cases "declare_all call (wm_id m) (length (hd_out_msgs d)) (hd_out_output d) (hd_out_assigned d)")
      simp_all
  then show ?thesis
  proof
    assume "out_module (settle_mutation E m call has_ctx r d) = m"
    then show ?thesis by (intro exI [of _ "wm_staged m"] exI [of _ "wm_staged_objects m"]) simp
  qed blast
qed

lemma run_mutation_leaf:
  assumes "ctx_leaf (run_mutation E m call env has_ctx) (n, out)"
  shows "(\<exists>e. out = quiet_out (m\<lparr>wm_block_env := Some env\<rparr>) (Inl e)) \<or>
    (\<exists>r d. out = settle_mutation E (m\<lparr>wm_block_env := Some env\<rparr>) call has_ctx r d)"
  using guest_rounds_leaf(1) [OF assms [unfolded run_mutation_def Let_def]] by blast

lemma run_mutation_stages:
  assumes "ctx_leaf (run_mutation E m call env has_ctx) (n, out)"
  shows "\<exists>staged objects. out_module out =
      m\<lparr>wm_block_env := Some env, wm_staged := staged, wm_staged_objects := objects\<rparr>"
  using run_mutation_leaf [OF assms]
proof
  assume "\<exists>e. out = quiet_out (m\<lparr>wm_block_env := Some env\<rparr>) (Inl e)"
  then have "out_module out = m\<lparr>wm_block_env := Some env, wm_staged := wm_staged m, wm_staged_objects := wm_staged_objects m\<rparr>"
    by (auto simp: quiet_out_def)
  then show ?thesis by blast
next
  assume "\<exists>r d. out = settle_mutation E (m\<lparr>wm_block_env := Some env\<rparr>) call has_ctx r d"
  then show ?thesis using settle_stages [of E "m\<lparr>wm_block_env := Some env\<rparr>" call has_ctx] by fastforce
qed

lemma run_mutation_base:
  assumes "ctx_leaf (run_mutation E m call env has_ctx) (n, out)"
  shows "wasm_base E (out_module out) = wasm_base E m"
  using run_mutation_stages [OF assms] by (auto simp: wasm_base_def wasm_abort_block_def)

lemma wasm_module_laws:
  assumes "odb_laws (wx_odb E)"
  shows "module_laws (wasm_ops E) (wasm_base E)"
proof
  fix m env msg ack
  show "mod_abort_block (wasm_ops E) m = (wasm_base E m, Inr ())"
    by (simp add: wasm_ops_def wasm_base_def wasm_abort_block_def)
  show "wasm_base E (wasm_base E m) = wasm_base E m"
    using assms by (cases "wm_backing m") (simp_all add: wasm_base_def wasm_abort_block_def odb_laws_def)
  show "mod_root (wasm_ops E) (wasm_base E m) = mod_root (wasm_ops E) m"
    using assms
    by (cases "wm_backing m") (simp_all add: wasm_ops_def wasm_root_def wasm_base_def wasm_abort_block_def odb_laws_def)
  show "ctx_all (\<lambda>out. wasm_base E (out_module out) = wasm_base E m) (mod_execute (wasm_ops E) m env msg)"
    using run_mutation_base by (fastforce simp: ctx_all_leaf wasm_ops_def wasm_execute_def ctx_leaf_map)
  show "ctx_all (\<lambda>out. wasm_base E (out_module out) = wasm_base E m) (mod_acknowledge (wasm_ops E) m env ack)"
    using run_mutation_base by (fastforce simp: ctx_all_leaf wasm_ops_def wasm_acknowledge_def ctx_leaf_map)
qed

section \<open>Code swaps\<close>

lemma compile_artifact_hash: "compile_artifact E bs = Inr compiled \<Longrightarrow> cm_code_hash compiled = wx_sha256 E bs"
  unfolding compile_artifact_def and_then_eq_Inr
proof (elim exE conjE)
  fix a
  assume "(case a of ArtifactModule m \<Rightarrow> and_then (compile E (ma_component m)) (\<lambda>compiled.
        Inr (compiled\<lparr>cm_code_hash := wx_sha256 E bs, cm_index_guest := ma_index m\<rparr>))
      | ArtifactView _ \<Rightarrow> Inl (ModuleError ''view_artifact_has_no_component: a view-only artifact is not a module'')) =
      Inr compiled"
  then show "cm_code_hash compiled = wx_sha256 E bs" by (cases a) (auto simp: and_then_eq_Inr)
qed

lemma wasm_swap_contract: "swap_contract (wasm_ops E) (wx_sha256 E)"
  by (auto simp: swap_contract_def wasm_ops_def wasm_prepare_swap_def wasm_root_def and_then_eq_Inr
      compile_artifact_hash split: if_splits)

section \<open>The stage of a run\<close>

text \<open>
  What a run holds is metered: the stage, the staged objects and the outputs never cost more than the
  counter says, which stays within the budget; and a staged object sits under the hash of its tagged
  body.
\<close>

definition emitted_bytes :: "(string \<times> bytes) list \<Rightarrow> nat" where
  "emitted_bytes xs = sum_list (map (\<lambda>(s, p). HOST_ENTRY_BYTES + length s + length p) xs)"

definition objects_ok :: "(bytes \<Rightarrow> bytes) \<Rightarrow> (bytes \<times> bytes) list \<Rightarrow> bool" where
  "objects_ok sha objects \<longleftrightarrow> bt_inv objects \<and> (\<forall>(i, tagged)\<in>set objects. tagged \<noteq> [] \<and> i = sha tagged)"

definition run_ok :: "(bytes \<Rightarrow> bytes) \<Rightarrow> 'o host_data \<Rightarrow> bool" where
  "run_ok sha d \<longleftrightarrow>
     staged_bytes (hd_staged d) + object_bytes (hd_object_puts d) + emitted_bytes (hd_out_msgs d) +
       emitted_bytes (hd_out_events d) \<le> hd_host_bytes d \<and>
     hd_host_bytes d \<le> MAX_HOST_BYTES \<and> bt_inv (hd_staged d) \<and> objects_ok sha (hd_object_puts d)"

lemma hd_charge_Inr:
  "hd_charge n d = (d', Inr u) \<longleftrightarrow>
   hd_host_bytes d + HOST_ENTRY_BYTES + n \<le> MAX_HOST_BYTES \<and>
   d' = d\<lparr>hd_host_bytes := hd_host_bytes d + HOST_ENTRY_BYTES + n\<rparr>"
  by (auto simp: hd_charge_def Let_def usize_add_def MAX_HOST_BYTES_def usize_max_def min_def)

lemma sum_list_bt_insert:
  fixes f :: "'k :: linorder \<times> 'v \<Rightarrow> nat"
  shows "sum_list (map f (bt_insert k v m)) \<le> sum_list (map f m) + f (k, v)"
  by (induction m) (auto simp: cmp_def)

lemma staged_bytes_insert: "staged_bytes (bt_insert k v m) \<le> staged_bytes m + (HOST_ENTRY_BYTES + length k + opt_length v)"
  using sum_list_bt_insert [of "\<lambda>(key, value). HOST_ENTRY_BYTES + length key + opt_length value" k v m]
  by (simp add: staged_bytes_def)

lemma object_bytes_insert: "object_bytes (bt_insert k v m) \<le> object_bytes m + (HOST_ENTRY_BYTES + length k + length v)"
  using sum_list_bt_insert [of "\<lambda>(i, tagged). HOST_ENTRY_BYTES + length i + length tagged" k v m]
  by (simp add: object_bytes_def)

lemma emitted_bytes_snoc [simp]:
  "emitted_bytes (xs @ [(s, p)]) = emitted_bytes xs + (HOST_ENTRY_BYTES + length s + length p)"
  by (simp add: emitted_bytes_def)

lemma objects_ok_insert: "objects_ok sha m \<Longrightarrow> objects_ok sha (bt_insert (sha (k # b)) (k # b) m)"
  using set_bt_insert [of "sha (k # b)" "k # b" m] by (fastforce simp: objects_ok_def)

lemma state_writes_ok:
  assumes "run_ok sha d"
  shows "state_set key value d = (d', Inr u) \<Longrightarrow> run_ok sha d'" and "state_delete key d = (d', Inr u) \<Longrightarrow> run_ok sha d'"
  using assms staged_bytes_insert [of key "Some value" "hd_staged d"] staged_bytes_insert [of key None "hd_staged d"]
  by (auto simp: state_set_def state_delete_def st_then_Inr hd_charge_Inr run_ok_def opt_length_def)

lemma object_put_ok:
  assumes "run_ok sha d" and "object_put sha kind body d = (d', Inr i)" and "length (sha (kind # body)) = ROOT_LEN"
  shows "run_ok sha d'"
  using assms object_bytes_insert [of "sha (kind # body)" "kind # body" "hd_object_puts d"]
  by (auto simp: object_put_def st_then_Inr hd_charge_Inr run_ok_def Let_def objects_ok_insert)

lemma emits_ok:
  assumes "run_ok sha d"
  shows "emit_msg s p d = (d', Inr u) \<Longrightarrow> run_ok sha d'" and "emit_event s p d = (d', Inr u) \<Longrightarrow> run_ok sha d'"
  using assms by (auto simp: emit_msg_def emit_event_def st_then_Inr hd_charge_Inr run_ok_def)

text \<open>The other imports leave stage and outputs, and the counter only grows within the budget.\<close>

definition stage_view where
  "stage_view d = (hd_staged d, hd_object_puts d, hd_out_msgs d, hd_out_events d)"

lemma run_ok_view:
  "run_ok sha d \<Longrightarrow> stage_view d' = stage_view d \<Longrightarrow> hd_host_bytes d \<le> hd_host_bytes d' \<Longrightarrow>
   hd_host_bytes d' \<le> MAX_HOST_BYTES \<Longrightarrow> run_ok sha d'"
  by (auto simp: run_ok_def stage_view_def)

definition reads_only :: "'o host_data \<Rightarrow> 'o host_data \<times> (string + 'a) \<Rightarrow> bool" where
  "reads_only d p \<longleftrightarrow> stage_view (fst p) = stage_view d \<and> hd_host_bytes (fst p) = hd_host_bytes d"

lemma reads_only_refl [simp]: "reads_only d (d, r)"
  by (simp add: reads_only_def)

lemma reads_only_bind:
  "reads_only d p \<Longrightarrow> (\<And>d' a. stage_view d' = stage_view d \<Longrightarrow> hd_host_bytes d' = hd_host_bytes d \<Longrightarrow> reads_only d' (k d' a)) \<Longrightarrow>
   reads_only d (st_then p k)"
  by (auto simp: reads_only_def st_then_def split: prod.splits sum.splits)

lemma reads_only_retain: "reads_only d (retain_object_read n d)"
  by (simp add: reads_only_def retain_object_read_def stage_view_def split: prod.split)

lemma reads_only_update: "stage_view d' = stage_view d \<Longrightarrow> hd_host_bytes d' = hd_host_bytes d \<Longrightarrow> reads_only d (d', r)"
  by (simp add: reads_only_def)

lemma reads_only_pause [simp]: "reads_only d (pause read d)"
  by (simp add: reads_only_def pause_def stage_view_def)

lemma state_reads_only:
  "reads_only d (state_get_committed key d)" "reads_only d (state_get key d)"
  "reads_only d (guest_module_root target d)" "reads_only d (query_module target req d)"
  by (auto simp: state_get_def state_get_committed_def guest_module_root_def query_module_def split: option.split)

lemma object_reads_only:
  "reads_only d (object_stat B i d)" "reads_only d (object_get B i d)"
  "reads_only d (git_object_read B gkey d)" "reads_only d (git_diff_read B dkey d)"
  unfolding object_stat_def object_get_def git_object_read_def git_diff_read_def
  by (auto simp: stage_view_def Let_def intro!: reads_only_bind [OF reads_only_retain] reads_only_update
      split: option.split sum.split prod.split)

lemma reads_only_ok: "reads_only d (d', r) \<Longrightarrow> run_ok sha d \<Longrightarrow> run_ok sha d'"
  by (rule run_ok_view) (auto simp: reads_only_def run_ok_def)

lemma prefetch_ok: "run_ok sha d \<Longrightarrow> state_prefetch keys d = (d', Inr u) \<Longrightarrow> run_ok sha d'"
  by (rule run_ok_view [of sha d])
    (auto simp: state_prefetch_def st_then_Inr hd_charge_Inr stage_view_def Let_def pause_def split: if_splits)

lemma declarations_ok:
  assumes "run_ok sha d"
  shows "set_output bs d = (d', Inr u) \<Longrightarrow> run_ok sha d'" and "set_assigned bs d = (d', Inr u) \<Longrightarrow> run_ok sha d'"
  using assms by (auto simp: set_output_def set_assigned_def st_then_Inr hd_charge_Inr run_ok_def split: if_splits)

definition import_ok :: "(bytes \<Rightarrow> bytes) \<Rightarrow> 'o host_data \<Rightarrow> 'o host_data \<times> (string + 'a) \<Rightarrow> bool" where
  "import_ok sha d p \<longleftrightarrow> (\<forall>d' a. p = (d', Inr a) \<longrightarrow> run_ok sha d \<longrightarrow> run_ok sha d')"

lemma reads_only_import_ok: "reads_only d p \<Longrightarrow> import_ok sha d p"
  unfolding import_ok_def using reads_only_ok by blast

lemma import_okI: "(\<And>d' a. run_ok sha d \<Longrightarrow> p = (d', Inr a) \<Longrightarrow> run_ok sha d') \<Longrightarrow> import_ok sha d p"
  unfolding import_ok_def by blast

lemma imports_ok:
  "import_ok sha d (state_set key value d)" "import_ok sha d (state_delete key d)"
  "import_ok sha d (emit_msg t p d)" "import_ok sha d (emit_event t p d)"
  "import_ok sha d (state_prefetch keys d)" "import_ok sha d (set_output bs d)" "import_ok sha d (set_assigned bs d)"
  "length (sha (kind # body)) = ROOT_LEN \<Longrightarrow> import_ok sha d (object_put sha kind body d)"
  by (rule import_okI, erule (1) state_writes_ok emits_ok prefetch_ok declarations_ok object_put_ok, assumption?)+

lemmas reads_ok = state_reads_only [THEN reads_only_import_ok] object_reads_only [THEN reads_only_import_ok]

definition call_ok :: "(bytes \<Rightarrow> bytes) \<Rightarrow> 'o host_data \<Rightarrow> 'o host_data \<times> reply run_end \<Rightarrow> bool" where
  "call_ok sha d p \<longleftrightarrow> (\<forall>d' a. p = (d', Returned a) \<longrightarrow> run_ok sha d \<longrightarrow> run_ok sha d')"

lemma reply_as_Returned: "reply_as f p = (d', Returned a) \<longleftrightarrow> (\<exists>x. p = (d', Inr x) \<and> a = f x)"
  by (cases p; cases "snd p") (auto simp: reply_as_def)

lemma call_ok_reply: "import_ok sha d p \<Longrightarrow> call_ok sha d (reply_as f p)"
  by (auto simp: import_ok_def call_ok_def reply_as_Returned)

lemma call_ok_refl [simp]: "call_ok sha d (d, r)"
  by (simp add: call_ok_def)

lemma host_call_ok:
  assumes "\<And>x. length (sha x) = ROOT_LEN"
  shows "call_ok sha d (host_call B sha f d)"
  by (cases f) (simp_all add: call_ok_reply imports_ok reads_ok assms)

text \<open>The only places of the imports that panic: no environment, or an object without its tag.\<close>

lemma reply_as_not_Unwound [simp]: "reply_as f p \<noteq> (d', Unwound e)"
  by (cases p; cases "snd p") (auto simp: reply_as_def)

lemma host_call_Unwound:
  "host_call B sha f d = (d', Unwound e) \<Longrightarrow> hd_env d = None \<or> (\<exists>i. map_of (hd_object_puts d) i = Some [])"
  by (cases f) (auto split: option.splits if_splits)

lemma objects_ok_tagged: "objects_ok sha m \<Longrightarrow> map_of m i \<noteq> Some []"
  by (auto simp: objects_ok_def dest: map_of_SomeD)

text \<open>A run keeps the meter and never panics.\<close>

lemma guest_run_ok:
  assumes "guest_run (host_call B sha) fuel g d = (r, left, d')" and "run_ok sha d" and "hd_env d \<noteq> None"
    and "\<And>x. length (sha x) = ROOT_LEN"
  shows "(\<forall>e. r \<noteq> Unwound e) \<and> (\<forall>x. r = Returned x \<longrightarrow> run_ok sha d')"
proof -
  let ?I = "\<lambda>d. run_ok sha d \<and> hd_env d \<noteq> None"
  let ?P = "\<lambda>r d'. (\<forall>e. r \<noteq> Unwound e) \<and> (\<forall>x. r = Returned x \<longrightarrow> run_ok sha d')"
  have env: "hd_env x' = hd_env x" if "host_call B sha f x = (x', y)" for f x x' y
    using host_call_keeps [of x B sha f] that by (simp add: call_keeps_def run_view_def)
  show ?thesis
  proof (rule guest_run_rule [where I = ?I and P = ?P, OF _ _ _ _ _ _ assms(1)])
    show "?I d" using assms by simp
    show "?I x'" if "?I x" "host_call B sha f x = (x', Returned a)" for f x x' a
      using that env [OF that(2)] host_call_ok [where d = x and B = B and f = f, OF assms(4)] by (simp add: call_ok_def)
    show "?P (Unwound e) x'" if "?I x" "host_call B sha f x = (x', Unwound e)" for f x x' e
      using host_call_Unwound [OF that(2)] that(1) objects_ok_tagged [of sha "hd_object_puts x"]
      by (auto simp: run_ok_def)
  qed auto
qed

section \<open>Well-formed modules\<close>

definition wasm_ok :: "('s, 'o) wasm_env \<Rightarrow> ('s, 'o) wasm_module \<Rightarrow> bool" where
  "wasm_ok E m \<longleftrightarrow>
     staged_bytes (wm_staged m) + object_bytes (wm_staged_objects m) \<le> MAX_HOST_BYTES \<and>
     bt_inv (wm_staged m) \<and> objects_ok (wx_sha256 E) (wm_staged_objects m) \<and>
     (\<forall>kvs. wm_backing m = MapBacking kvs \<longrightarrow> bt_inv kvs)"

definition digests_ok :: "('s, 'o) wasm_env \<Rightarrow> bool" where
  "digests_ok E \<longleftrightarrow> (\<forall>x. length (wx_sha256 E x) = ROOT_LEN)"

lemma staged_bytes_Nil [simp]: "staged_bytes [] = 0" "object_bytes [] = 0" "emitted_bytes [] = 0"
  by (simp_all add: staged_bytes_def object_bytes_def emitted_bytes_def)

lemma objects_ok_Nil [simp]: "objects_ok sha []"
  by (simp add: objects_ok_def)

lemma run_ok_memo [simp]: "run_ok sha (d\<lparr>hd_memo := memo, hd_pending := p\<rparr>) = run_ok sha d"
  by (simp add: run_ok_def)

lemma mutation_data_ok: "wasm_ok E m \<Longrightarrow> run_ok (wx_sha256 E) (mutation_data E m env has_ctx)"
  by (simp add: wasm_ok_def run_ok_def mutation_data_def)

lemma read_data_ok: "wasm_ok E m \<Longrightarrow> run_ok (wx_sha256 E) (read_data E m env sealed committed_only local_reads)"
  by (auto simp: wasm_ok_def run_ok_def read_data_def Let_def)

lemma round_ok:
  assumes "round_of E g d0 memo fuel r left d" and "run_ok (wx_sha256 E) d0" and "hd_env d0 \<noteq> None" and "digests_ok E"
  shows "(\<forall>e. r \<noteq> Unwound e) \<and> (\<forall>x. r = Returned x \<longrightarrow> run_ok (wx_sha256 E) d)"
  using guest_run_ok [OF assms(1) [unfolded round_of_def wx_call_def]] assms(2-4) by (simp add: digests_ok_def)

lemma settle_cases:
  obtains (rejected) e where "settle_mutation E m call has_ctx r d = quiet_out m (Inl e)"
    "(\<exists>w. r = Returned (Inl w) \<and> e = wit_err w) \<or> (\<exists>t. r = Trapped t \<and> e = module_err E t) \<or>
     (\<exists>t. r = Unwound t \<and> e = Panicked t) \<or> (\<exists>t. e = ModuleError t)"
  | (staged) "r = Returned (Inr ())" "out_result (settle_mutation E m call has_ctx r d) = Inr ()"
    "out_module (settle_mutation E m call has_ctx r d) = m\<lparr>wm_staged := hd_staged d, wm_staged_objects := hd_object_puts d\<rparr>"
proof (cases "end_result E r")
  case (Inl e)
  then show thesis using rejected [of e] by (cases r; cases "\<exists>x. r = Returned (Inl x)") (auto simp: settle_mutation_def map_err_def split: sum.splits)
next
  case (Inr u)
  then have r: "r = Returned (Inr ())" by (cases r) auto
  show thesis
  proof (cases "\<not> has_ctx \<and> has_dispatch_outputs d")
    case True
    then show thesis using rejected [of "ModuleError ''module lifecycle cannot emit dispatch outputs''"] Inr
      by (simp add: settle_mutation_def)
  next
    case False
    note F = this
    show thesis
    proof (cases "declare_all call (wm_id m) (length (hd_out_msgs d)) (hd_out_output d) (hd_out_assigned d)")
      case (Inl e)
      have "\<exists>t. e = ModuleError t"
        using Inl
        by (cases call; cases "hd_out_output d"; cases "hd_out_assigned d") (auto split: if_splits)
      then show thesis using rejected [of e] Inl Inr F by (auto simp: settle_mutation_def)
    next
      case (Inr declared)
      then show thesis using staged r F by (auto simp: settle_mutation_def Let_def quiet_out_def)
    qed
  qed
qed

lemma settle_ok:
  assumes "wasm_ok E m" and "digests_ok E"
    and "round_of E g (mutation_data E m env has_ctx) memo fuel r left d"
  shows "wasm_ok E (out_module (settle_mutation E m call has_ctx r d))"
    and "out_result (settle_mutation E m call has_ctx r d) \<noteq> Inl (Panicked e)"
proof -
  have ok: "(\<forall>e. r \<noteq> Unwound e) \<and> (\<forall>x. r = Returned x \<longrightarrow> run_ok (wx_sha256 E) d)"
    using round_ok [OF assms(3)] mutation_data_ok [OF assms(1)] assms(2) by (simp add: mutation_data_def)
  show "wasm_ok E (out_module (settle_mutation E m call has_ctx r d))"
    by (cases rule: settle_cases [of E m call has_ctx r d])
      (use ok assms(1) in \<open>auto simp: quiet_out_def wasm_ok_def run_ok_def\<close>)
  show "out_result (settle_mutation E m call has_ctx r d) \<noteq> Inl (Panicked e)"
    by (cases rule: settle_cases [of E m call has_ctx r d])
      (use ok wit_err_not_panicked [symmetric] in \<open>auto simp: quiet_out_def module_err_def\<close>)
qed

lemma wasm_ok_env [simp]: "wasm_ok E (m\<lparr>wm_block_env := e\<rparr>) = wasm_ok E m"
  by (simp add: wasm_ok_def)

lemma run_mutation_ok:
  assumes "ctx_leaf (run_mutation E m call env has_ctx) (n, out)" and "wasm_ok E m" and "digests_ok E"
  shows "wasm_ok E (out_module out)"
proof -
  let ?m = "m\<lparr>wm_block_env := Some env\<rparr>"
  have "(\<exists>e. out = quiet_out ?m (Inl e)) \<or>
      (\<exists>memo fuel' r left d. round_of E (invoke call (wm_component ?m)) (mutation_data E ?m env has_ctx) memo fuel' r left d \<and>
         out = settle_mutation E ?m call has_ctx r d)"
    using guest_rounds_leaf(1) [OF assms(1) [unfolded run_mutation_def Let_def]] .
  then show ?thesis
    using settle_ok(1) [of E ?m] assms(2,3) by (auto simp: quiet_out_def)
qed

subsection \<open>Publishing\<close>

lemma publish_map_inv: "bt_inv kvs \<Longrightarrow> bt_inv (publish_map staged kvs)"
  by (induction staged kvs rule: publish_map.induct) auto

lemma staged_bytes_remove: "staged_bytes (bt_remove k m) \<le> staged_bytes m"
  unfolding staged_bytes_def bt_remove_def by (induction m) auto

lemma stage_puts_tagged: "\<forall>x\<in>set xs. x \<noteq> [] \<Longrightarrow> \<exists>odb'. stage_puts B xs odb = (odb', Inr ())"
  by (induction xs arbitrary: odb) (auto simp: neq_Nil_conv)

lemma stage_puts_tame:
  assumes "objects_ok sha objects"
  shows "\<exists>odb'. stage_puts B (map snd objects) odb = (odb', Inr ())"
proof (rule stage_puts_tagged)
  show "\<forall>x\<in>set (map snd objects). x \<noteq> []" using assms by (auto simp: objects_ok_def)
qed

text \<open>The store and the substrate never panic.\<close>

definition backing_tame :: "('s, 'o) wasm_env \<Rightarrow> bool" where
  "backing_tame E \<longleftrightarrow>
     (\<forall>s k. panic_of (ms_get (wx_lib E) s k) = None) \<and>
     (\<forall>s ws. panic_of (snd (ms_commit_batch (wx_lib E) s ws)) = None) \<and>
     (\<forall>odb height. panic_of (snd (odb_publish_block (wx_odb E) odb height)) = None) \<and>
     (\<forall>odb refs. panic_of (snd (odb_adopt_refs (wx_odb E) odb refs)) = None)"

lemma panic_of_None: "panic_of r = None \<longleftrightarrow> (\<forall>e. r \<noteq> Inl (Panicked e))"
  by (cases r rule: panic_of.cases) auto

lemma digest_writes_tame: "panic_of (digest_writes staged) = None"
  by (induction staged rule: digest_writes.induct)
    (auto simp: panic_of_None digest_error_def and_then_def split: sum.splits)

lemma publish_odb_ok:
  assumes "wasm_ok E m" and "publish_odb E height odb m = (m', r)"
  shows "wasm_ok E m' \<and> (backing_tame E \<longrightarrow> panic_of r = None)"
proof -
  obtain odb1 where p: "stage_puts (wx_odb E) (map snd (wm_staged_objects m)) odb = (odb1, Inr ())"
    using stage_puts_tame assms(1) by (metis wasm_ok_def)
  obtain odb2 r2 where pub: "odb_publish_block (wx_odb E) odb1 height = (odb2, r2)" by fastforce
  have rest: "staged_bytes (bt_remove REFS_KEY (wm_staged m)) \<le> MAX_HOST_BYTES"
    "staged_bytes (wm_staged m) \<le> MAX_HOST_BYTES" "bt_inv (wm_staged m)"
    using staged_bytes_remove [of REFS_KEY "wm_staged m"] assms(1) by (auto simp: wasm_ok_def)
  have tame2: "backing_tame E \<longrightarrow> panic_of r2 = None" using pub unfolding backing_tame_def by (metis snd_conv)
  show ?thesis
  proof (cases r2)
    case (Inl e)
    then have "m' = m\<lparr>wm_staged_objects := [], wm_backing := OdbBacking odb2\<rparr>" "r = Inl e"
      using assms(2) by (simp_all add: publish_odb_def p pub)
    then show ?thesis using rest tame2 Inl by (simp add: wasm_ok_def panic_of_None)
  next
    case (Inr u)
    show ?thesis
    proof (cases "map_of (wm_staged m) REFS_KEY")
      case None
      then show ?thesis using assms(2) Inr by (auto simp: publish_odb_def p pub wasm_ok_def)
    next
      case (Some overlay)
      show ?thesis
      proof (cases overlay)
        case None
        then show ?thesis using assms(2) Inr Some rest by (auto simp: publish_odb_def p pub wasm_ok_def)
      next
        case (Some refs)
        obtain odb3 r3 where ad: "odb_adopt_refs (wx_odb E) odb2 refs = (odb3, r3)" by fastforce
        have "backing_tame E \<longrightarrow> panic_of r3 = None" using ad unfolding backing_tame_def by (metis snd_conv)
        then show ?thesis
          using assms(2) Inr \<open>map_of (wm_staged m) REFS_KEY = Some overlay\<close> Some rest ad
          by (cases r3) (auto simp: publish_odb_def p pub wasm_ok_def panic_of_None)
      qed
    qed
  qed
qed

lemma publish_store_ok:
  assumes "wasm_ok E m" and "publish_store E store m = (m', r)" and "\<forall>kvs. wm_backing m \<noteq> MapBacking kvs"
  shows "wasm_ok E m' \<and> (backing_tame E \<longrightarrow> panic_of r = None)"
proof (cases "wm_staged m = []")
  case True
  then show ?thesis using assms by (auto simp: publish_store_def wasm_ok_def)
next
  case False
  have ok: "staged_bytes (wm_staged m) \<le> MAX_HOST_BYTES" "bt_inv (wm_staged m)" using assms(1) by (auto simp: wasm_ok_def)
  show ?thesis
  proof (cases "digest_writes (wm_staged m)")
    case (Inl e)
    then show ?thesis
      using assms False ok digest_writes_tame [of "wm_staged m"] by (auto simp: publish_store_def wasm_ok_def panic_of_None)
  next
    case (Inr writes)
    obtain s1 r1 where b: "ms_commit_batch (wx_lib E) store writes = (s1, r1)" by fastforce
    have "backing_tame E \<longrightarrow> panic_of r1 = None" using b unfolding backing_tame_def by (metis snd_conv)
    then show ?thesis
      using assms False ok Inr b by (cases r1) (auto simp: publish_store_def wasm_ok_def panic_of_None)
  qed
qed

lemma publish_state_ok:
  assumes "wasm_ok E m" and "publish_state E m = (m', r)"
  shows "wasm_ok E m' \<and> (backing_tame E \<longrightarrow> panic_of r = None)"
proof (cases "wm_backing m")
  case (MapBacking kvs)
  then show ?thesis using assms publish_map_inv by (auto simp: publish_state_def Let_def wasm_ok_def)
next
  case (StoreBacking s)
  then show ?thesis
    using assms publish_store_ok [of E "m\<lparr>wm_block_env := None\<rparr>" s m' r] by (simp add: publish_state_def Let_def)
next
  case (OdbBacking odb)
  then show ?thesis
    using assms publish_odb_ok [of E "m\<lparr>wm_block_env := None\<rparr>" _ odb m' r] by (simp add: publish_state_def Let_def)
qed

subsection \<open>The life of a module\<close>

lemma run_lifecycle_ok:
  assumes "wasm_ok E m" and "digests_ok E"
  shows "wasm_ok E (fst (run_lifecycle E m call))"
proof -
  obtain n out where "run_mutation E m call (lifecycle_env m) False = Done (n, out)"
    "run_lifecycle E m call = (out_module out, out_result out)"
    by (rule run_lifecycle_Done)
  then show ?thesis using run_mutation_ok [of E m call "lifecycle_env m" False n out] assms by simp
qed

lemma st_then_publish_ok:
  assumes "wasm_ok E (fst p)"
  shows "wasm_ok E (fst (st_then p (\<lambda>m _. publish_state E m)))"
  using assms publish_state_ok [of E "fst p" "fst (publish_state E (fst p))" "snd (publish_state E (fst p))"]
  by (cases p; cases "snd p") auto

lemma wasm_step_ok:
  assumes "wasm_ok E m" and "digests_ok E" and "mod_step (wasm_ops E) m m'"
  shows "wasm_ok E m'"
  using assms(3)
proof (cases rule: mod_step.cases)
  case (step_execute env msg out)
  then show ?thesis
    using run_mutation_ok assms(1,2) by (fastforce simp: wasm_ops_def wasm_execute_def ctx_leaf_map)
next
  case (step_acknowledge env ack out)
  then show ?thesis
    using run_mutation_ok assms(1,2) by (fastforce simp: wasm_ops_def wasm_acknowledge_def ctx_leaf_map)
next
  case step_commit
  then show ?thesis
    using st_then_publish_ok [OF run_lifecycle_ok [OF assms(1,2)], of Finalize]
    by (simp add: wasm_ops_def wasm_commit_block_def)
next
  case step_abort
  then show ?thesis
    using assms(1) by (auto simp: wasm_ops_def wasm_abort_block_def wasm_ok_def split: state_backing.splits)
qed

lemma wasm_reach_ok:
  assumes "(mod_step (wasm_ops E))\<^sup>*\<^sup>* m m'" and "wasm_ok E m" and "digests_ok E"
  shows "wasm_ok E m'"
  using mod_reach_invariant [OF assms(1), of "wasm_ok E"] assms(2,3) wasm_step_ok by blast

lemma load_ok:
  assumes "load E mid compiled backing config = Inr m" and "\<forall>kvs. backing = MapBacking kvs \<longrightarrow> bt_inv kvs"
  shows "wasm_ok E m"
  using assms by (auto simp: load_def and_then_eq_Inr wasm_ok_def)

end
