(* ===== verification/Wasm_Replay.thy ===== *)
theory Wasm_Replay
  imports Wasm_Laws
begin

text \<open>
  Memoized replay against its meaning. The guest of a dispatch is run several times, each time with more
  answers in the memo; what an accepted dispatch stages and emits is what one uninterrupted run of the
  guest does whose every read is answered on the spot, by the store, the siblings and the object
  substrate themselves.
\<close>

section \<open>The live run\<close>

definition live_committed ::
  "('s, 'o) wasm_env \<Rightarrow> ('s, 'o) wasm_module \<Rightarrow> bytes \<Rightarrow> ('o, bytes option) import_m" where
  "live_committed E m key d =
     (if hd_store_backed d then (d, map_err error_to_string (resolve_state_read E m key))
      else (d, Inr (map_of (hd_committed d) key)))"

definition odb_answer :: "('o \<Rightarrow> bytes \<Rightarrow> 'a option) \<Rightarrow> 'o host_data \<Rightarrow> bytes \<Rightarrow> 'a option" where
  "odb_answer f d i = (case hd_odb d of None \<Rightarrow> None | Some odb \<Rightarrow> f odb i)"

fun live_call ::
  "('s, 'o) wasm_env \<Rightarrow> ('s, 'o) wasm_module \<Rightarrow> (module_id \<Rightarrow> bytes \<Rightarrow> error + bytes) \<Rightarrow>
   (module_id \<Rightarrow> state_root option) \<Rightarrow> host_fn \<Rightarrow> 'o host_data \<Rightarrow> 'o host_data \<times> reply run_end" where
  "live_call E m ask root (StateGet key) d =
     reply_as ReplyOption
       (case map_of (hd_staged d) key of Some overlay \<Rightarrow> (d, Inr overlay) | None \<Rightarrow> live_committed E m key d)"
| "live_call E m ask root (StateGetCommitted key) d = reply_as ReplyOption (live_committed E m key d)"
| "live_call E m ask root (StatePrefetch keys) d =
     reply_as (\<lambda>_. ReplyUnit) (hd_charge (sum_list (map (\<lambda>key. HOST_ENTRY_BYTES + length key) keys)) d)"
| "live_call E m ask root (ModuleRoot target) d = (d, Returned (ReplyOption (root target)))"
| "live_call E m ask root (QueryModule target req) d =
     (d, Returned (ReplyQuery (map_err to_wit_error (ask target req))))"
| "live_call E m ask root (ObjectStat i) d =
     (d, Returned (ReplyStat (case map_of (hd_object_puts d) i of
        Some tagged \<Rightarrow> Some (hd tagged, of_nat (length tagged - 1))
      | None \<Rightarrow> odb_answer (odb_stat (wx_odb E)) d i)))"
| "live_call E m ask root (ObjectGet i) d =
     (d, Returned (ReplyOption (case map_of (hd_object_puts d) i of
        Some tagged \<Rightarrow> Some tagged
      | None \<Rightarrow> odb_answer (odb_get (wx_odb E)) d i)))"
| "live_call E m ask root f d = wx_call E f d"

lemma odb_answer_memo [simp]: "odb_answer f (d\<lparr>hd_memo := M\<rparr>) i = odb_answer f d i"
  by (simp add: odb_answer_def)

section \<open>True memos\<close>

text \<open>Every answer of the memo is the answer the source of the read gives.\<close>

definition lanes_true ::
  "('s, 'o) wasm_env \<Rightarrow> ('s, 'o) wasm_module \<Rightarrow> (module_id \<Rightarrow> bytes \<Rightarrow> error + bytes) \<Rightarrow>
   (module_id \<Rightarrow> state_root option) \<Rightarrow> sibling_memo \<Rightarrow> bool" where
  "lanes_true E m ask root memo \<longleftrightarrow>
     (\<forall>t a. map_of (sm_roots memo) t = Some a \<longrightarrow> a = root t) \<and>
     (\<forall>t q a. map_of (sm_queries memo) (t, q) = Some a \<longrightarrow> a = map_err to_wit_error (ask t q)) \<and>
     (\<forall>k v. map_of (sm_states memo) k = Some v \<longrightarrow> resolve_state_read E m k = Inr v)"

definition objects_true :: "'o odb_ops \<Rightarrow> 'o host_data \<Rightarrow> sibling_memo \<Rightarrow> bool" where
  "objects_true B d memo \<longleftrightarrow>
     (\<forall>i a. map_of (sm_object_stats memo) i = Some a \<longrightarrow> a = odb_answer (odb_stat B) d i) \<and>
     (\<forall>i a. map_of (sm_object_gets memo) i = Some a \<longrightarrow> a = odb_answer (odb_get B) d i)"

lemma lanes_true_default: "lanes_true E m ask root memo_default"
  by (simp add: lanes_true_def memo_default_def)

lemma objects_true_default: "objects_true B d memo_default"
  by (simp add: objects_true_def memo_default_def)

lemma lanes_true_cong:
  "sm_roots a = sm_roots b \<Longrightarrow> sm_queries a = sm_queries b \<Longrightarrow> sm_states a = sm_states b \<Longrightarrow>
   lanes_true E m ask root a = lanes_true E m ask root b"
  by (simp add: lanes_true_def)

lemma objects_true_cong:
  "sm_object_stats a = sm_object_stats b \<Longrightarrow> sm_object_gets a = sm_object_gets b \<Longrightarrow> hd_odb d = hd_odb d' \<Longrightarrow>
   objects_true B d a = objects_true B d' b"
  by (simp add: objects_true_def odb_answer_def)

subsection \<open>Imports keep the object lanes true\<close>

definition import_true :: "'o odb_ops \<Rightarrow> 'o host_data \<Rightarrow> 'o host_data \<times> (string + 'a) \<Rightarrow> bool" where
  "import_true B d p \<longleftrightarrow> hd_odb (fst p) = hd_odb d \<and> (objects_true B d (hd_memo d) \<longrightarrow> objects_true B d (hd_memo (fst p)))"

lemma import_true_same: "hd_memo (fst p) = hd_memo d \<Longrightarrow> hd_odb (fst p) = hd_odb d \<Longrightarrow> import_true B d p"
  by (simp add: import_true_def)

lemma hd_charge_memo [simp]: "hd_memo (fst (hd_charge n d)) = hd_memo d" "hd_odb (fst (hd_charge n d)) = hd_odb d"
  by (simp_all add: hd_charge_def Let_def)

lemma st_then_fst:
  "(\<And>m a. P (fst (k m a)) = P m) \<Longrightarrow> P (fst (st_then p k)) = P (fst p)"
  by (cases p; cases "snd p") auto

lemma pause_memo [simp]: "hd_memo (fst (pause read d)) = hd_memo d" "hd_odb (fst (pause read d)) = hd_odb d"
  by (simp_all add: pause_def)

lemma staging_memo:
  "hd_memo (fst (state_set key value d)) = hd_memo d" "hd_odb (fst (state_set key value d)) = hd_odb d"
  "hd_memo (fst (state_delete key d)) = hd_memo d" "hd_odb (fst (state_delete key d)) = hd_odb d"
  "hd_memo (fst (object_put sha kind body d)) = hd_memo d" "hd_odb (fst (object_put sha kind body d)) = hd_odb d"
  "hd_memo (fst (emit_msg t p d)) = hd_memo d" "hd_odb (fst (emit_msg t p d)) = hd_odb d"
  "hd_memo (fst (emit_event t p d)) = hd_memo d" "hd_odb (fst (emit_event t p d)) = hd_odb d"
  "hd_memo (fst (set_output bs d)) = hd_memo d" "hd_odb (fst (set_output bs d)) = hd_odb d"
  "hd_memo (fst (set_assigned bs d)) = hd_memo d" "hd_odb (fst (set_assigned bs d)) = hd_odb d"
  "hd_memo (fst (state_prefetch keys d)) = hd_memo d" "hd_odb (fst (state_prefetch keys d)) = hd_odb d"
  unfolding state_set_def state_delete_def object_put_def emit_msg_def emit_event_def set_output_def
    set_assigned_def state_prefetch_def
  by (subst st_then_fst; simp add: Let_def)+

lemma reading_memo:
  "hd_memo (fst (state_get key d)) = hd_memo d" "hd_odb (fst (state_get key d)) = hd_odb d"
  "hd_memo (fst (state_get_committed key d)) = hd_memo d" "hd_odb (fst (state_get_committed key d)) = hd_odb d"
  "hd_memo (fst (guest_module_root target d)) = hd_memo d" "hd_odb (fst (guest_module_root target d)) = hd_odb d"
  "hd_memo (fst (query_module target req d)) = hd_memo d" "hd_odb (fst (query_module target req d)) = hd_odb d"
  by (auto simp: state_get_def state_get_committed_def guest_module_root_def query_module_def split: option.split)

lemma retain_true:
  assumes "import_true B d p"
    and "\<And>d'. hd_odb d' = hd_odb d \<Longrightarrow> objects_true B d (hd_memo d') \<Longrightarrow> objects_true B d (hd_memo (fst (k d')))"
    and "\<And>d'. hd_odb (fst (k d')) = hd_odb d'"
  shows "import_true B d (st_then p (\<lambda>d' _. k d'))"
  using assms by (cases p; cases "snd p") (auto simp: import_true_def)

lemma retain_object_true: "import_true B d (retain_object_read n d)"
  by (auto simp: import_true_def retain_object_read_def memo_charge_def objects_true_def split: sum.split)

lemma object_stat_true: "import_true B d (object_stat B i d)"
  unfolding object_stat_def Let_def
  by (auto simp: import_true_same objects_true_def odb_answer_def
      intro!: retain_true [OF retain_object_true] split: option.split sum.split)

lemma object_get_true: "import_true B d (object_get B i d)"
  unfolding object_get_def Let_def
  by (auto simp: import_true_same objects_true_def odb_answer_def
      intro!: retain_true [OF retain_object_true] split: option.split sum.split)

lemma git_reads_true: "\<not> hd_local_reads d \<Longrightarrow> import_true B d (git_object_read B gkey d) \<and> import_true B d (git_diff_read B dkey d)"
  by (simp add: git_object_read_def git_diff_read_def import_true_same split: prod.split)

lemma fst_reply_as [simp]: "fst (reply_as f p) = fst p"
  by (simp add: reply_as_def)

lemma host_call_true:
  assumes "\<not> hd_local_reads d" and "objects_true B d (hd_memo d)"
  shows "objects_true B d (hd_memo (fst (host_call B sha f d)))"
  using assms(2) object_stat_true [of B d] object_get_true [of B d] git_reads_true [OF assms(1), of B]
  by (cases f) (auto simp: staging_memo reading_memo import_true_def)

section \<open>The replayed run is the live run\<close>

text \<open>An import that answers from a true memo answers as the source does, whatever memo the live run has.\<close>

lemma staging_answers:
  "state_set key value d = (d', Inr a) \<Longrightarrow> state_set key value (d\<lparr>hd_memo := M\<rparr>) = (d'\<lparr>hd_memo := M\<rparr>, Inr a)"
  "state_delete key d = (d', Inr a) \<Longrightarrow> state_delete key (d\<lparr>hd_memo := M\<rparr>) = (d'\<lparr>hd_memo := M\<rparr>, Inr a)"
  "object_put sha kind body d = (d', Inr i) \<Longrightarrow> object_put sha kind body (d\<lparr>hd_memo := M\<rparr>) = (d'\<lparr>hd_memo := M\<rparr>, Inr i)"
  "emit_msg t p d = (d', Inr a) \<Longrightarrow> emit_msg t p (d\<lparr>hd_memo := M\<rparr>) = (d'\<lparr>hd_memo := M\<rparr>, Inr a)"
  "emit_event t p d = (d', Inr a) \<Longrightarrow> emit_event t p (d\<lparr>hd_memo := M\<rparr>) = (d'\<lparr>hd_memo := M\<rparr>, Inr a)"
  "set_output bs d = (d', Inr a) \<Longrightarrow> set_output bs (d\<lparr>hd_memo := M\<rparr>) = (d'\<lparr>hd_memo := M\<rparr>, Inr a)"
  "set_assigned bs d = (d', Inr a) \<Longrightarrow> set_assigned bs (d\<lparr>hd_memo := M\<rparr>) = (d'\<lparr>hd_memo := M\<rparr>, Inr a)"
  by (auto simp: state_set_def state_delete_def object_put_def emit_msg_def emit_event_def set_output_def
      set_assigned_def st_then_Inr hd_charge_Inr Let_def split: if_splits)

lemma prefetch_answers:
  "state_prefetch keys d = (d', Inr a) \<Longrightarrow>
   hd_charge (sum_list (map (\<lambda>key. HOST_ENTRY_BYTES + length key) keys)) (d\<lparr>hd_memo := M\<rparr>) = (d'\<lparr>hd_memo := M\<rparr>, Inr a)"
  by (auto simp: state_prefetch_def st_then_Inr hd_charge_Inr Let_def pause_def split: if_splits)

lemma committed_answers:
  assumes "state_get_committed key d = (d', Inr a)" and "lanes_true E m ask root (hd_memo d)"
  shows "live_committed E m key (d\<lparr>hd_memo := M\<rparr>) = (d'\<lparr>hd_memo := M\<rparr>, Inr a)"
  using assms
  by (auto simp: state_get_committed_def live_committed_def lanes_true_def pause_def split: if_splits option.splits)

lemma state_get_answers:
  assumes "state_get key d = (d', Inr a)" and "lanes_true E m ask root (hd_memo d)"
  shows "(case map_of (hd_staged (d\<lparr>hd_memo := M\<rparr>)) key of Some overlay \<Rightarrow> (d\<lparr>hd_memo := M\<rparr>, Inr overlay)
      | None \<Rightarrow> live_committed E m key (d\<lparr>hd_memo := M\<rparr>)) = (d'\<lparr>hd_memo := M\<rparr>, Inr a)"
  using assms committed_answers [of key d d' a E m ask root M]
  by (auto simp: state_get_def split: option.splits)

lemma sibling_answers:
  assumes "lanes_true E m ask root (hd_memo d)" and "\<not> hd_sealed d"
  shows "guest_module_root target d = (d', Inr a) \<Longrightarrow> d' = d \<and> a = root target"
    and "query_module target req d = (d', Inr r) \<Longrightarrow> d' = d \<and> r = map_err to_wit_error (ask target req)"
  using assms
  by (auto simp: guest_module_root_def query_module_def lanes_true_def pause_def split: option.splits)

lemma object_stat_answers:
  assumes "object_stat B i d = (d', Inr a)" and "objects_true B d (hd_memo d)"
  shows "d'\<lparr>hd_memo := M\<rparr> = d\<lparr>hd_memo := M\<rparr>"
    and "a = (case map_of (hd_object_puts d) i of Some tagged \<Rightarrow> Some (hd tagged, of_nat (length tagged - 1))
      | None \<Rightarrow> odb_answer (odb_stat B) d i)"
  using assms unfolding object_stat_def odb_answer_def [symmetric] objects_true_def
  by (auto simp: st_then_Inr retain_object_read_def Let_def split: option.splits sum.splits prod.splits)

lemma object_get_answers:
  assumes "object_get B i d = (d', Inr a)" and "objects_true B d (hd_memo d)"
  shows "d'\<lparr>hd_memo := M\<rparr> = d\<lparr>hd_memo := M\<rparr>"
    and "a = (case map_of (hd_object_puts d) i of Some tagged \<Rightarrow> Some tagged | None \<Rightarrow> odb_answer (odb_get B) d i)"
  using assms unfolding object_get_def odb_answer_def [symmetric] objects_true_def
  by (auto simp: st_then_Inr retain_object_read_def Let_def split: option.splits sum.splits prod.splits)

lemma git_answers:
  assumes "\<not> hd_local_reads d"
  shows "git_object_read B gkey d = (d', Inr a) \<Longrightarrow> git_object_read B gkey (d\<lparr>hd_memo := M\<rparr>) = (d'\<lparr>hd_memo := M\<rparr>, Inr a)"
    and "git_diff_read B dkey d = (d', Inr b) \<Longrightarrow> git_diff_read B dkey (d\<lparr>hd_memo := M\<rparr>) = (d'\<lparr>hd_memo := M\<rparr>, Inr b)"
  using assms by (auto simp: git_object_read_def git_diff_read_def split: prod.splits)

definition run_true where
  "run_true E m ask root d \<longleftrightarrow>
     \<not> hd_sealed d \<and> \<not> hd_local_reads d \<and> lanes_true E m ask root (hd_memo d) \<and> objects_true (wx_odb E) d (hd_memo d)"

lemma run_true_call:
  assumes "run_true E m ask root d" and "wx_call E f d = (d', r)"
  shows "run_true E m ask root d'"
proof -
  have v: "run_view d' = run_view d"
    using host_call_keeps [of d "wx_odb E" "wx_sha256 E" f] assms(2) by (simp add: call_keeps_def wx_call_def)
  then have odb: "hd_odb d' = hd_odb d" by (simp add: run_view_def)
  have "objects_true (wx_odb E) d (hd_memo d')"
    using host_call_true [of d "wx_odb E" "wx_sha256 E" f] assms by (simp add: run_true_def wx_call_def)
  then have "objects_true (wx_odb E) d' (hd_memo d')" using objects_true_cong [OF refl refl odb [symmetric]] by blast
  moreover have "lanes_true E m ask root (hd_memo d')"
    using v assms(1) lanes_true_cong [of "hd_memo d'" "hd_memo d"] by (auto simp: run_view_def run_true_def)
  ultimately show ?thesis using v assms(1) by (simp add: run_true_def run_view_def)
qed

lemma live_call_answers:
  assumes "run_true E m ask root d" and "wx_call E f d = (d', Returned a)"
  shows "live_call E m ask root f (d\<lparr>hd_memo := M\<rparr>) = (d'\<lparr>hd_memo := M\<rparr>, Returned a)"
proof -
  have t: "\<not> hd_sealed d" "\<not> hd_local_reads d" "lanes_true E m ask root (hd_memo d)"
    "objects_true (wx_odb E) d (hd_memo d)" using assms(1) by (simp_all add: run_true_def)
  show ?thesis
  proof (cases f)
    case (StateGet key)
    then obtain x where x: "state_get key d = (d', Inr x)" "a = ReplyOption x"
      using assms(2) by (auto simp: wx_call_def reply_as_Returned)
    show ?thesis using state_get_answers [OF x(1) t(3), of M] x(2) StateGet by (simp add: reply_as_def)
  next
    case (StateGetCommitted key)
    then obtain x where x: "state_get_committed key d = (d', Inr x)" "a = ReplyOption x"
      using assms(2) by (auto simp: wx_call_def reply_as_Returned)
    show ?thesis using committed_answers [OF x(1) t(3), of M] x(2) StateGetCommitted by (simp add: reply_as_def)
  next
    case (StatePrefetch keys)
    then obtain x where x: "state_prefetch keys d = (d', Inr x)" "a = ReplyUnit"
      using assms(2) by (auto simp: wx_call_def reply_as_Returned)
    show ?thesis using prefetch_answers [OF x(1), of M] x(2) StatePrefetch by (simp add: reply_as_def)
  next
    case (ModuleRoot target)
    then show ?thesis
      using assms(2) sibling_answers(1) [OF t(3,1)] by (auto simp: wx_call_def reply_as_Returned)
  next
    case (QueryModule target req)
    then show ?thesis
      using assms(2) sibling_answers(2) [OF t(3,1)] by (auto simp: wx_call_def reply_as_Returned)
  next
    case (ObjectStat i)
    then obtain x where x: "object_stat (wx_odb E) i d = (d', Inr x)" "a = ReplyStat x"
      using assms(2) by (auto simp: wx_call_def reply_as_Returned split: if_splits)
    show ?thesis using object_stat_answers [OF x(1) t(4)] x(2) ObjectStat by (simp split: option.split)
  next
    case (ObjectGet i)
    then obtain x where x: "object_get (wx_odb E) i d = (d', Inr x)" "a = ReplyOption x"
      using assms(2) by (auto simp: wx_call_def reply_as_Returned)
    show ?thesis using object_get_answers [OF x(1) t(4)] x(2) ObjectGet by (simp split: option.split)
  next
    case GetEnv
    then show ?thesis using assms(2) by (auto simp: wx_call_def split: option.splits)
  qed (use assms(2) staging_answers git_answers [OF t(2)] in \<open>auto simp: wx_call_def reply_as_Returned\<close>)
qed

lemma live_run:
  assumes "guest_run (wx_call E) fuel g d = (Returned x, left, d')" and "run_true E m ask root d"
  shows "guest_run (live_call E m ask root) fuel g (d\<lparr>hd_memo := M\<rparr>) = (Returned x, left, d'\<lparr>hd_memo := M\<rparr>)"
  using assms
proof (induction fuel arbitrary: g d rule: less_induct)
  case (less fuel)
  show ?case
  proof (cases g)
    case (GuestCall c f k)
    obtain d1 y where c: "wx_call E f d = (d1, y)" by fastforce
    have fuel: "\<not> fuel \<le> c" using less.prems(1) GuestCall by (auto simp: guest_run.simps [of _ fuel] split: if_splits)
    then obtain a where y: "y = Returned a"
      using less.prems(1) GuestCall c by (cases y) (auto simp: guest_run.simps [of _ fuel])
    have rest: "guest_run (wx_call E) (fuel - Suc c) (k a) d1 = (Returned x, left, d')"
      using less.prems(1) GuestCall c y fuel by (simp add: guest_run.simps [of _ fuel])
    have "guest_run (live_call E m ask root) (fuel - Suc c) (k a) (d1\<lparr>hd_memo := M\<rparr>) = (Returned x, left, d'\<lparr>hd_memo := M\<rparr>)"
      using less.IH [OF _ rest run_true_call [OF less.prems(2) c]] fuel by simp
    then show ?thesis
      using live_call_answers [OF less.prems(2) c [unfolded y], of M] GuestCall fuel by (simp add: guest_run.simps [of _ fuel])
  qed (use less.prems(1) in \<open>auto simp: guest_run.simps split: if_splits\<close>)
qed

lemma guest_run_more_fuel:
  assumes "guest_run call fuel g d = (Returned x, left, d')" and "fuel \<le> fuel'"
  shows "\<exists>left'. guest_run call fuel' g d = (Returned x, left', d')"
  using assms
proof (induction fuel arbitrary: fuel' g d rule: less_induct)
  case (less fuel)
  show ?case
  proof (cases g)
    case (GuestCall c f k)
    obtain d1 y where c: "call f d = (d1, y)" by fastforce
    have fuel: "\<not> fuel \<le> c" using less.prems(1) GuestCall by (auto simp: guest_run.simps [of _ fuel] split: if_splits)
    then obtain a where y: "y = Returned a"
      using less.prems(1) GuestCall c by (cases y) (auto simp: guest_run.simps [of _ fuel])
    have rest: "guest_run call (fuel - Suc c) (k a) d1 = (Returned x, left, d')"
      using less.prems(1) GuestCall c y fuel by (simp add: guest_run.simps [of _ fuel])
    have "\<exists>left'. guest_run call (fuel' - Suc c) (k a) d1 = (Returned x, left', d')"
      using less.IH [OF _ rest, of "fuel' - Suc c"] fuel less.prems(2) by simp
    then show ?thesis using GuestCall c y fuel less.prems(2) by (simp add: guest_run.simps [of _ fuel'])
  qed (use less.prems in \<open>auto simp: guest_run.simps split: if_splits\<close>)
qed

section \<open>The rounds of a dispatch\<close>

text \<open>Resolving a read against the sources keeps the memo true.\<close>

lemma check_capacity_lanes:
  "lanes_true E m ask root (memo\<lparr>sm_bytes := n\<rparr>) = lanes_true E m ask root memo"
  "objects_true B d (memo\<lparr>sm_bytes := n\<rparr>) = objects_true B d memo"
  by (simp_all add: lanes_true_def objects_true_def)

lemma resolve_state_reads_true:
  assumes "resolve_state_reads E m keys memo = (memo', Inr u)" and "lanes_true E m ask root memo" and "objects_true B d memo"
  shows "lanes_true E m ask root memo' \<and> objects_true B d memo'"
  using assms
proof (induction keys arbitrary: memo)
  case (Cons key keys)
  then obtain answer memo1 where a: "resolve_state_read E m key = Inr answer"
    "memo_charge memo (length key + opt_length answer) = (memo1, Inr ())"
    "resolve_state_reads E m keys (memo1\<lparr>sm_states := bt_insert key answer (sm_states memo1)\<rparr>) = (memo', Inr u)"
    by (auto simp: st_then_def split: sum.splits prod.splits)
  show ?case
  proof (rule Cons.IH [OF a(3)])
    show "lanes_true E m ask root (memo1\<lparr>sm_states := bt_insert key answer (sm_states memo1)\<rparr>)"
      using a(1,2) Cons.prems(2) by (auto simp: memo_charge_simps lanes_true_def)
    show "objects_true B d (memo1\<lparr>sm_states := bt_insert key answer (sm_states memo1)\<rparr>)"
      using a(2) Cons.prems(3) by (auto simp: memo_charge_simps objects_true_def)
  qed
qed simp

lemma resolve_read_true:
  assumes "ctx_run (\<lambda>t q r. r = ask t q) (\<lambda>t r. r = root t) (resolve_read E m has_ctx no_ctx memo read) (memo', Inr u)"
    and "lanes_true E m ask root memo" and "objects_true B d memo"
  shows "lanes_true E m ask root memo' \<and> objects_true B d memo'"
proof (cases read)
  case (PendingStates keys)
  then have "resolve_state_reads E m keys memo = (memo', Inr u)" using assms(1) by (simp add: resolve_read_def)
  then show ?thesis using resolve_state_reads_true assms(2,3) by blast
next
  case (PendingRoot target)
  then have "retain_root memo target (root target) = (memo', Inr u)"
    using assms(1) by (auto simp: resolve_read_def split: if_splits sum.splits)
  then show ?thesis using assms(2,3) by (auto simp: retain_root_Inr lanes_true_def objects_true_def)
next
  case (PendingQuery target req)
  then have "retain_query memo target req (ask target req) = (memo', Inr u)"
    using assms(1) by (auto simp: resolve_read_def split: if_splits sum.splits)
  then show ?thesis using assms(2,3) by (auto simp: retain_query_Inr lanes_true_def objects_true_def)
qed

lemma run_true_run:
  assumes "guest_run (wx_call E) fuel g d = (r, left, d')" and "run_true E m ask root d"
  shows "run_true E m ask root d'"
  using guest_run_rule [where I = "run_true E m ask root" and P = "\<lambda>_. run_true E m ask root", OF assms(2) _ _ _ _ _ assms(1)]
    run_true_call by blast

lemma has_dispatch_outputs_memo [simp]: "has_dispatch_outputs (d\<lparr>hd_memo := M\<rparr>) = has_dispatch_outputs d"
  by (simp add: has_dispatch_outputs_def)

lemma settle_memo: "settle_mutation E m call has_ctx r (d\<lparr>hd_memo := M\<rparr>) = settle_mutation E m call has_ctx r d"
  by (cases "end_result E r"; cases "declare_all call (wm_id m) (length (hd_out_msgs d)) (hd_out_output d) (hd_out_assigned d)"; cases has_ctx)
    (simp_all add: settle_mutation_def Let_def)

theorem mutation_live:
  assumes "ctx_answer ask root (run_mutation E m call env True) = (n, out)" and "out_result out = Inr ()"
  shows "\<exists>left d. guest_run (live_call E m ask root) (wm_fuel m) (invoke call (wm_component m)) (mutation_data E m env True) =
      (Returned (Inr ()), left, d) \<and>
    out = settle_mutation E (m\<lparr>wm_block_env := Some env\<rparr>) call True (Returned (Inr ())) d"
proof -
  let ?m = "m\<lparr>wm_block_env := Some env\<rparr>" and ?g = "invoke call (wm_component m)"
  let ?d0 = "mutation_data E ?m env True" and ?B = "wx_odb E"
  let ?M = "\<lambda>memo. lanes_true E ?m ask root memo \<and> objects_true ?B ?d0 memo"
  let ?A = "\<lambda>t q r. r = ask t q" and ?R = "\<lambda>t r. r = root t"
  have start: "run_true E ?m ask root (?d0\<lparr>hd_memo := memo, hd_pending := None\<rparr>)" if "?M memo" for memo
    using that objects_true_cong [of memo memo ?d0 "?d0\<lparr>hd_memo := memo, hd_pending := None\<rparr>"]
    by (simp add: run_true_def mutation_data_def)
  have "ctx_run ?A ?R (guest_rounds E ?m True no_mutation_ctx ?g ?d0 (settle_mutation E ?m call True)
      (\<lambda>e. quiet_out ?m (Inl e)) memo_default (wm_fuel m) 0) (n, out)"
    using ctx_answer_run [of ask root "run_mutation E m call env True"] assms(1) by (simp add: run_mutation_def Let_def)
  from guest_rounds_run [OF this, of ?M]
  have "(\<exists>e. out = quiet_out ?m (Inl e)) \<or>
      (\<exists>memo fuel r left d. ?M memo \<and> fuel \<le> wm_fuel m \<and> round_of E ?g ?d0 memo fuel r left d \<and> out = settle_mutation E ?m call True r d)"
  proof -
    have "?M memo'" if "?M memo" "round_of E ?g ?d0 memo fuel r left d" "hd_pending d = Some read"
      "ctx_run ?A ?R (resolve_read E ?m True no_mutation_ctx (hd_memo d) read) (memo', Inr u)"
      for memo fuel r left d read memo' u
    proof -
      have "run_true E ?m ask root d" and v: "run_view d = run_view (?d0\<lparr>hd_memo := memo, hd_pending := None\<rparr>)"
        using run_true_run [OF that(2) [unfolded round_of_def] start [OF that(1)]]
          guest_run_view(1) [OF that(2) [unfolded round_of_def wx_call_def]] by simp_all
      then have "lanes_true E ?m ask root (hd_memo d)" "objects_true ?B ?d0 (hd_memo d)"
        using objects_true_cong [of "hd_memo d" "hd_memo d" d ?d0] by (simp_all add: run_true_def run_view_def)
      then show ?thesis using resolve_read_true [OF that(4)] by blast
    qed
    with guest_rounds_run [OF \<open>ctx_run ?A ?R _ (n, out)\<close>, of ?M] lanes_true_default objects_true_default show ?thesis by blast
  qed
  then obtain memo fuel r left d where r: "?M memo" "fuel \<le> wm_fuel m" "round_of E ?g ?d0 memo fuel r left d"
    "out = settle_mutation E ?m call True r d"
    using assms(2) by (auto simp: quiet_out_def)
  have ret: "r = Returned (Inr ())"
    using assms(2) r(4) by (cases rule: settle_cases [of E ?m call True r d]) (auto simp: quiet_out_def)
  have "guest_run (live_call E ?m ask root) fuel ?g (?d0\<lparr>hd_memo := memo, hd_pending := None, hd_memo := memo_default\<rparr>) =
      (Returned (Inr ()), left, d\<lparr>hd_memo := memo_default\<rparr>)"
    using live_run [OF r(3) [unfolded round_of_def ret] start [OF r(1)], of memo_default] by simp
  moreover have "?d0\<lparr>hd_memo := memo, hd_pending := None, hd_memo := memo_default\<rparr> = mutation_data E m env True"
    by (simp add: mutation_data_def committed_for_round_def is_store_backed_def odb_for_round_def split: state_backing.split)
  moreover have "live_call E ?m ask root = live_call E m ask root"
  proof (intro ext)
    fix f d
    show "live_call E ?m ask root f d = live_call E m ask root f d"
      by (cases f) (simp_all add: live_committed_def resolve_state_read_def split: option.split)
  qed
  ultimately have "guest_run (live_call E m ask root) fuel ?g (mutation_data E m env True) =
      (Returned (Inr ()), left, d\<lparr>hd_memo := memo_default\<rparr>)" by simp
  from guest_run_more_fuel [OF this r(2)] show ?thesis using r(4) ret settle_memo by metis
qed

end
