(* ===== verification/Wasm_Life.thy ===== *)
theory Wasm_Life
  imports Wasm_Replay
begin

text \<open>
  The life of a wasm module: loaded over a substrate, initialized, driven through blocks, replaced by
  new code, or handed a snapshot. The snapshot codec is exact; the well-formedness of the module is
  kept by everything that can happen to it; and no call of a well-formed module panics.
\<close>

section \<open>Snapshots\<close>

lemma snap_take_u64_Inr: "snap_take_u64 bs = Inr (n, rest) \<longleftrightarrow> bs = u64_le n @ rest"
proof
  assume "snap_take_u64 bs = Inr (n, rest)"
  then have "\<not> length bs < 8" "n = u64_of_le (take 8 bs)" "rest = drop 8 bs"
    by (auto simp: snap_take_u64_def split: if_splits)
  then show "bs = u64_le n @ rest" by (simp add: u64_le_u64_of_le)
qed (simp add: snap_take_u64_def u64_of_le_u64_le)

lemma snap_take_vec_Inr: "snap_take_vec bs = Inr (v, rest) \<longleftrightarrow> length v < 2 ^ 64 \<and> bs = field_bytes v @ rest"
proof
  assume "snap_take_vec bs = Inr (v, rest)"
  then obtain n buf where "bs = u64_le n @ buf" "unat n \<le> length buf" "v = take (unat n) buf" "rest = drop (unat n) buf"
    by (auto simp: snap_take_vec_def and_then_eq_Inr snap_take_u64_Inr split: if_splits)
  then show "length v < 2 ^ 64 \<and> bs = field_bytes v @ rest"
    using unsigned_less [of n] by (simp add: field_bytes_def push_bytes_def)
next
  assume "length v < 2 ^ 64 \<and> bs = field_bytes v @ rest"
  then have "snap_take_u64 bs = Inr (of_nat (length v), v @ rest)" "unat (of_nat (length v) :: u64) = length v"
    by (simp_all add: snap_take_u64_Inr field_bytes_def push_bytes_def unat_of_nat_u64)
  then show "snap_take_vec bs = Inr (v, rest)" by (simp add: snap_take_vec_def)
qed

definition above :: "bytes option \<Rightarrow> (bytes \<times> bytes) list \<Rightarrow> bool" where
  "above prev kvs \<longleftrightarrow> (case prev of None \<Rightarrow> True | Some p \<Rightarrow> \<forall>k\<in>fst ` set kvs. p < k)"

definition entry_fits :: "bytes \<times> bytes \<Rightarrow> bool" where
  "entry_fits = (\<lambda>(k, v). length k < 2 ^ 64 \<and> length v < 2 ^ 64)"

lemma decode_entries_Inr:
  assumes "\<forall>k\<in>fst ` set acc. \<exists>p. prev = Some p \<and> k \<le> p"
  shows "decode_entries n prev acc bs = Inr (kvs, rest) \<longleftrightarrow>
    (\<exists>new. kvs = acc @ new \<and> length new = n \<and> bt_inv new \<and> above prev new \<and> list_all entry_fits new \<and>
       bs = concat (map (\<lambda>(k, v). field_bytes k @ field_bytes v) new) @ rest)"
  using assms
proof (induction n arbitrary: prev acc bs)
  case 0
  then show ?case by (auto simp: above_def split: option.split)
next
  case (Suc n)
  have step: "decode_entries (Suc n) prev acc bs = Inr (kvs, rest) \<longleftrightarrow>
      (\<exists>k v buf. length k < 2 ^ 64 \<and> length v < 2 ^ 64 \<and> bs = field_bytes k @ field_bytes v @ buf \<and>
         (case prev of None \<Rightarrow> True | Some p \<Rightarrow> p < k) \<and> decode_entries n (Some k) (bt_insert k v acc) buf = Inr (kvs, rest))"
    by (cases prev) (auto simp: and_then_eq_Inr snap_take_vec_Inr not_le)
  have ins: "bt_insert k v acc = acc @ [(k, v)]" "\<forall>x\<in>fst ` set (bt_insert k v acc). \<exists>p. Some k = Some p \<and> x \<le> p"
    if "case prev of None \<Rightarrow> True | Some p \<Rightarrow> p < k" for k v
  proof -
    have "\<forall>x\<in>fst ` set acc. x < k" using Suc.prems that by (auto split: option.splits)
    then show "bt_insert k v acc = acc @ [(k, v)]" "\<forall>x\<in>fst ` set (bt_insert k v acc). \<exists>p. Some k = Some p \<and> x \<le> p"
      by (auto simp: bt_insert_last)
  qed
  have cons: "bt_inv ((k, v) # new) \<and> above prev ((k, v) # new) \<longleftrightarrow>
      (case prev of None \<Rightarrow> True | Some p \<Rightarrow> p < k) \<and> bt_inv new \<and> above (Some k) new" for k v new
    by (auto simp: bt_inv_def above_def split: option.split)
  show ?case
  proof
    assume "decode_entries (Suc n) prev acc bs = Inr (kvs, rest)"
    then obtain k v buf where a: "length k < 2 ^ 64" "length v < 2 ^ 64" "bs = field_bytes k @ field_bytes v @ buf"
      "case prev of None \<Rightarrow> True | Some p \<Rightarrow> p < k" "decode_entries n (Some k) (bt_insert k v acc) buf = Inr (kvs, rest)"
      unfolding step by blast
    from a(5) obtain new where n: "kvs = bt_insert k v acc @ new" "length new = n" "bt_inv new" "above (Some k) new" "list_all entry_fits new"
       "buf = concat (map (\<lambda>(k, v). field_bytes k @ field_bytes v) new) @ rest"
      unfolding Suc.IH [OF ins(2) [OF a(4)]] by blast
    show "\<exists>new. kvs = acc @ new \<and> length new = Suc n \<and> bt_inv new \<and> above prev new \<and> list_all entry_fits new \<and>
       bs = concat (map (\<lambda>(k, v). field_bytes k @ field_bytes v) new) @ rest"
      using a n ins(1) [OF a(4)] cons [of k v new] by (intro exI [of _ "(k, v) # new"]) (simp add: entry_fits_def)
  next
    assume "\<exists>new. kvs = acc @ new \<and> length new = Suc n \<and> bt_inv new \<and> above prev new \<and> list_all entry_fits new \<and>
       bs = concat (map (\<lambda>(k, v). field_bytes k @ field_bytes v) new) @ rest"
    then obtain k v new where a: "kvs = acc @ (k, v) # new" "length new = n" "bt_inv ((k, v) # new) \<and> above prev ((k, v) # new)"
      "entry_fits (k, v)" "list_all entry_fits new"
      "bs = field_bytes k @ field_bytes v @ concat (map (\<lambda>(k, v). field_bytes k @ field_bytes v) new) @ rest"
      by (auto simp: length_Suc_conv)
    have p: "case prev of None \<Rightarrow> True | Some p \<Rightarrow> p < k" and q: "bt_inv new" "above (Some k) new"
      using a(3) unfolding cons by auto
    have "decode_entries n (Some k) (bt_insert k v acc) (concat (map (\<lambda>(k, v). field_bytes k @ field_bytes v) new) @ rest) = Inr (kvs, rest)"
      unfolding Suc.IH [OF ins(2) [OF p]] using a q ins(1) [OF p] by (intro exI [of _ new]) simp
    then show "decode_entries (Suc n) prev acc bs = Inr (kvs, rest)"
      unfolding step using a p by (intro exI [of _ k] exI [of _ v] exI) (auto simp: entry_fits_def)
  qed
qed

lemma length_pairs: "16 * length kvs \<le> length (concat (map (\<lambda>(k, v). field_bytes k @ field_bytes v) kvs))"
  by (induction kvs) (auto simp: field_bytes_def push_bytes_def)

lemma decode_state_Inr: "decode_state bs = Inr kvs \<longleftrightarrow> map_fits kvs \<and> bt_inv kvs \<and> bs = encode_pairs kvs"
proof
  assume "decode_state bs = Inr kvs"
  then obtain n buf where a: "bs = u64_le n @ buf" "decode_entries (unat n) None [] buf = Inr (kvs, [])"
    by (auto simp: decode_state_def and_then_eq_Inr snap_take_u64_Inr split: if_splits)
  then have b: "length kvs = unat n" "bt_inv kvs" "list_all entry_fits kvs"
    "buf = concat (map (\<lambda>(k, v). field_bytes k @ field_bytes v) kvs)"
    by (auto simp: decode_entries_Inr)
  then have "n = of_nat (length kvs)" "length kvs < 2 ^ 64" using unsigned_less [of n] by simp_all
  then show "map_fits kvs \<and> bt_inv kvs \<and> bs = encode_pairs kvs"
    using a b by (simp add: map_fits_def entry_fits_def encode_pairs_eq)
next
  assume r: "map_fits kvs \<and> bt_inv kvs \<and> bs = encode_pairs kvs"
  let ?buf = "concat (map (\<lambda>(k, v). field_bytes k @ field_bytes v) kvs)"
  have "snap_take_u64 bs = Inr (of_nat (length kvs), ?buf)" using r by (simp add: snap_take_u64_Inr encode_pairs_eq)
  moreover have "unat (of_nat (length kvs) :: u64) = length kvs" using r by (simp add: map_fits_def unat_of_nat_u64)
  moreover have "decode_entries (length kvs) None [] ?buf = Inr (kvs, [])"
    using r by (simp add: decode_entries_Inr map_fits_def entry_fits_def above_def)
  moreover have "length kvs \<le> length ?buf div 16" using length_pairs [of kvs] by simp
  ultimately show "decode_state bs = Inr kvs" by (simp add: decode_state_def)
qed

lemma install_map:
  assumes "wm_backing m = MapBacking old"
  shows "install E m bs expected = (m', Inr ()) \<longleftrightarrow>
    (\<exists>kvs. map_fits kvs \<and> bt_inv kvs \<and> bs = encode_pairs kvs \<and> expected = root_of E kvs \<and>
       m' = m\<lparr>wm_backing := MapBacking kvs, wm_staged := []\<rparr>)"
proof (cases "decode_state bs")
  case (Inl e)
  then have "\<not> (map_fits kvs \<and> bt_inv kvs \<and> bs = encode_pairs kvs)" for kvs
    using decode_state_Inr [of bs kvs] by simp
  then show ?thesis using assms Inl by (auto simp: install_def)
next
  case (Inr decoded)
  then have only: "map_fits kvs \<and> bt_inv kvs \<and> bs = encode_pairs kvs \<longleftrightarrow> kvs = decoded" for kvs
    unfolding decode_state_Inr [symmetric] by auto
  have "(\<exists>kvs. (map_fits kvs \<and> bt_inv kvs \<and> bs = encode_pairs kvs) \<and> expected = root_of E kvs \<and>
       m' = m\<lparr>wm_backing := MapBacking kvs, wm_staged := []\<rparr>) \<longleftrightarrow>
      expected = root_of E decoded \<and> m' = m\<lparr>wm_backing := MapBacking decoded, wm_staged := []\<rparr>"
    unfolding only by simp
  moreover have "install E m bs expected = (m', Inr ()) \<longleftrightarrow>
      expected = root_of E decoded \<and> m' = m\<lparr>wm_backing := MapBacking decoded, wm_staged := []\<rparr>"
    using assms Inr by (auto simp: install_def)
  ultimately show ?thesis by simp
qed

lemma initial_entries_Inr:
  assumes "bt_inv acc"
  shows "initial_entries entries acc = Inr kvs \<Longrightarrow>
    bt_inv kvs \<and> (\<forall>k. map_of kvs k = (case map_of entries k of None \<Rightarrow> map_of acc k | Some v \<Rightarrow> Some v))"
    and "(\<exists>kvs. initial_entries entries acc = Inr kvs) \<longleftrightarrow>
      distinct (map fst entries) \<and> (\<forall>k\<in>fst ` set entries. map_of acc k = None)"
  using assms
proof (induction entries arbitrary: acc)
  case (Cons e entries)
  obtain k v where e: "e = (k, v)" by fastforce
  {
    case 1
    then have fresh: "map_of acc k = None" and rest: "initial_entries entries (bt_insert k v acc) = Inr kvs"
      using e by (auto split: if_splits)
    have dist: "map_of entries k = None"
      using Cons.IH(2) [of "bt_insert k v acc"] rest 1(2) by (auto simp: map_of_eq_None_iff map_of_bt_insert)
    show ?case using Cons.IH(1) [OF rest] 1(2) e dist by (auto simp: map_of_bt_insert split: option.split)
  next
    case 2
    show ?case using Cons.IH(2) [of "bt_insert k v acc"] 2 e by (auto simp: map_of_bt_insert)
  }
qed auto

section \<open>Panics\<close>

definition tame :: "error \<Rightarrow> bool" where
  "tame e \<longleftrightarrow> (\<forall>t. e \<noteq> Panicked t)"

lemma tame_simps [simp]: "tame (ModuleError t)" "\<not> tame (Panicked t)"
  by (simp_all add: tame_def)

lemma panic_of_Inl: "panic_of (Inl e) = None \<longleftrightarrow> tame e"
  by (simp add: panic_of_None tame_def)

lemma memo_tame:
  "check_capacity memo n = Inl e \<Longrightarrow> tame e" "memo_charge memo n = (memo', Inl e) \<Longrightarrow> tame e" "tame (budget_error memo)"
  by (auto simp: check_capacity_def memo_full_def memo_charge_def budget_error_def sibling_budget_error_def
      store_budget_error_def Let_def split: if_splits sum.splits)

lemma resolve_state_reads_tame:
  assumes "backing_tame E" and "is_store_backed m"
  shows "resolve_state_reads E m keys memo = (memo', Inl e) \<Longrightarrow> tame e"
proof (induction keys arbitrary: memo)
  case (Cons key keys)
  have read: "tame e" if "resolve_state_read E m key = Inl e" for e
    using that assms
    by (auto simp: resolve_state_read_def is_store_backed_def backing_tame_def digest_error_def
        split: state_backing.splits if_splits) (metis panic_of_Inl)
  show ?case
  proof (cases "check_capacity memo (length key)")
    case (Inl e')
    then show ?thesis using Cons.prems memo_tame(1) by auto
  next
    case (Inr u)
    show ?thesis
    proof (cases "resolve_state_read E m key")
      case (Inl e')
      then show ?thesis using Cons.prems \<open>check_capacity memo (length key) = Inr u\<close> read by auto
    next
      case (Inr answer)
      obtain memo1 r where c: "memo_charge memo (length key + opt_length answer) = (memo1, r)" by fastforce
      then show ?thesis
        using Cons.prems Cons.IH \<open>check_capacity memo (length key) = Inr u\<close> Inr memo_tame(2) by (cases r) auto
    qed
  qed
qed simp

lemma st_then_Inl:
  "st_then p k = (m, Inl e) \<longleftrightarrow> p = (m, Inl e) \<or> (\<exists>m1 a. p = (m1, Inr a) \<and> k m1 a = (m, Inl e))"
  by (cases p; cases "snd p") auto

lemma resolve_tame:
  assumes "ctx_run (\<lambda>t q r. panic_of r = None) R (resolve memo read) (memo', Inl e)" and "\<forall>keys. read \<noteq> PendingStates keys"
  shows "tame e"
proof (cases read)
  case (PendingRoot target)
  show ?thesis
  proof (cases "check_capacity memo (length target)")
    case (Inr u)
    then obtain r where "retain_root memo target r = (memo', Inl e)" using assms(1) PendingRoot by auto
    then show ?thesis using memo_tame(2) by (auto simp: retain_root_def st_then_Inl)
  qed (use assms(1) PendingRoot memo_tame(1) in auto)
next
  case (PendingQuery target req)
  show ?thesis
  proof (cases "check_capacity memo (length target + length req)")
    case (Inr u)
    then obtain r where "panic_of r = None" "retain_query memo target req r = (memo', Inl e)"
      using assms(1) PendingQuery by auto
    then show ?thesis using memo_tame(2) by (auto simp: retain_query_def st_then_Inl Let_def)
  qed (use assms(1) PendingQuery memo_tame(1) in auto)
qed (use assms(2) in auto)

lemma rounds_tame:
  assumes "ctx_run (\<lambda>t q r. panic_of r = None) R (guest_rounds E m has_ctx no_ctx g d0 finish refuse memo fuel runs) (n, out)"
    and "run_ok (wx_sha256 E) d0" and "hd_env d0 \<noteq> None" and "hd_sealed d0 = (\<not> has_ctx)" and "hd_store_backed d0 = is_store_backed m"
    and "digests_ok E" and "backing_tame E"
  shows "(\<exists>e. out = refuse e \<and> tame e) \<or>
    (\<exists>memo fuel r left d. round_of E g d0 memo fuel r left d \<and> (\<forall>e. r \<noteq> Unwound e) \<and> out = finish r d)"
proof -
  have refused: "tame e" if "round_of E g d0 memo fuel r left d" "hd_pending d = Some read"
    "ctx_run (\<lambda>t q r. panic_of r = None) R (resolve_read E m has_ctx no_ctx (hd_memo d) read) (memo', Inl e)"
    for memo fuel r left d read memo' e
  proof (cases read)
    case (PendingStates keys)
    then have "is_store_backed m" "resolve_state_reads E m keys (hd_memo d) = (memo', Inl e)"
      using round_fresh(4) [OF that(1) [unfolded round_of_def] that(2)] that(3) assms(5) by (simp_all add: resolve_read_def)
    then show ?thesis using resolve_state_reads_tame assms(7) by blast
  next
    case (PendingRoot t)
    then have "has_ctx" using round_fresh(4) [OF that(1) [unfolded round_of_def] that(2)] assms(4) by simp
    then show ?thesis using resolve_tame that(3) PendingRoot by (fastforce simp: resolve_read_def simp del: resolve.simps)
  next
    case (PendingQuery t q)
    then have "has_ctx" using round_fresh(4) [OF that(1) [unfolded round_of_def] that(2)] assms(4) by simp
    then show ?thesis using resolve_tame that(3) PendingQuery by (fastforce simp: resolve_read_def simp del: resolve.simps)
  qed
  from guest_rounds_run [OF assms(1), of "\<lambda>_. True"] consider
      (budget) memo where "out = refuse (budget_error memo)"
    | (read) memo fuel r left d read memo' e where "round_of E g d0 memo fuel r left d" "hd_pending d = Some read"
        "ctx_run (\<lambda>t q r. panic_of r = None) R (resolve_read E m has_ctx no_ctx (hd_memo d) read) (memo', Inl e)" "out = refuse e"
    | (settled) memo fuel r left d where "round_of E g d0 memo fuel r left d" "out = finish r d"
    by blast
  then show ?thesis
  proof cases
    case budget
    then show ?thesis using memo_tame(3) by blast
  next
    case read
    then show ?thesis using refused by blast
  next
    case settled
    then show ?thesis using round_ok [OF settled(1) assms(2,3,6)] by blast
  qed
qed

lemma run_mutation_tame:
  assumes "ctx_run (\<lambda>t q r. panic_of r = None) R (run_mutation E m call env has_ctx) (n, out)"
    and "wasm_ok E m" and "digests_ok E" and "backing_tame E"
  shows "panic_of (out_result out) = None"
proof -
  let ?m = "m\<lparr>wm_block_env := Some env\<rparr>"
  have ok: "wasm_ok E ?m" using assms(2) by simp
  have "(\<exists>e. out = quiet_out ?m (Inl e) \<and> tame e) \<or>
    (\<exists>memo fuel r left d. round_of E (invoke call (wm_component ?m)) (mutation_data E ?m env has_ctx) memo fuel r left d \<and>
      (\<forall>e. r \<noteq> Unwound e) \<and> out = settle_mutation E ?m call has_ctx r d)"
    using rounds_tame [OF assms(1) [unfolded run_mutation_def Let_def]] mutation_data_ok [OF ok] assms(3,4)
    by (simp add: mutation_data_def is_store_backed_def)
  then show ?thesis using settle_ok(2) [OF ok assms(3)] by (auto simp: quiet_out_def panic_of_None tame_def)
qed

lemma end_result_tame: "(\<forall>e. r \<noteq> Unwound e) \<Longrightarrow> panic_of (end_result E r) = None"
  by (cases "(E, r)" rule: end_result.cases) (auto simp: panic_of_None map_err_def module_err_def wit_err_not_panicked split: sum.split)

lemma read_rounds_tame:
  assumes "ctx_run (\<lambda>t q r. panic_of r = None) R (read_rounds E m env sealed committed_only local_reads g) (n, r)"
    and "wasm_ok E m" and "digests_ok E" and "backing_tame E"
  shows "panic_of r = None"
  using rounds_tame [OF assms(1) [unfolded read_rounds_def]] read_data_ok [OF assms(2)] assms(3,4) end_result_tame
  by (auto simp: read_data_def Let_def panic_of_Inl)

lemma sealed_result_tame:
  assumes "wasm_ok E m" and "digests_ok E" and "backing_tame E"
  shows "panic_of (snd (sealed_result (read_rounds E m env True committed_only local_reads g))) = None"
proof -
  obtain n r where d: "read_rounds E m env True committed_only local_reads g = Done (n, r)"
    unfolding read_rounds_def by (metis guest_rounds_quiet prod.exhaust)
  then show ?thesis using read_rounds_tame [of "\<lambda>_ _. True" E m env True committed_only local_reads g n r] assms by (simp add: sealed_result_def)
qed

lemma lifecycle_tame:
  assumes "wasm_ok E m" and "digests_ok E" and "backing_tame E"
  shows "panic_of (snd (st_then (run_lifecycle E m call) (\<lambda>m _. publish_state E m))) = None"
proof -
  obtain n out where d: "run_mutation E m call (lifecycle_env m) False = Done (n, out)"
    "run_lifecycle E m call = (out_module out, out_result out)" by (rule run_lifecycle_Done)
  have "panic_of (out_result out) = None"
    using run_mutation_tame [of "\<lambda>_ _. True" E m call "lifecycle_env m" False n out] d(1) assms by simp
  moreover have "wasm_ok E (out_module out)" using run_lifecycle_ok [OF assms(1,2), of call] d(2) by simp
  ultimately show ?thesis
    using publish_state_ok [of E "out_module out" "fst (publish_state E (out_module out))" "snd (publish_state E (out_module out))"]
      assms(3) d(2) by (cases "out_result out") (auto simp: panic_of_None)
qed

section \<open>Everything that can happen to a module\<close>

inductive wasm_life :: "('s, 'o) wasm_env \<Rightarrow> ('s, 'o) wasm_module \<Rightarrow> bool" for E where
  life_map: "over_map E compiled mid = Inr m \<Longrightarrow> wasm_life E m"
| life_store: "over_store E compiled mid store = Inr m \<Longrightarrow> wasm_life E m"
| life_odb: "over_odb E compiled mid odb config = Inr m \<Longrightarrow> wasm_life E m"
| life_initialize: "wasm_life E m \<Longrightarrow> wasm_life E (fst (wasm_initialize E m params))"
| life_install: "wasm_life E m \<Longrightarrow> wasm_life E (fst (install E m bs expected))"
| life_swap: "wasm_life E m \<Longrightarrow> wasm_prepare_swap E m bs = Inr m' \<Longrightarrow> wasm_life E m'"
| life_step: "wasm_life E m \<Longrightarrow> mod_step (wasm_ops E) m m' \<Longrightarrow> wasm_life E m'"

lemma install_ok:
  assumes "wasm_ok E m"
  shows "wasm_ok E (fst (install E m bs expected))"
proof (cases "wm_backing m")
  case (MapBacking kvs)
  show ?thesis
  proof (cases "decode_state bs")
    case (Inr decoded)
    then show ?thesis using assms MapBacking decode_state_Inr [of bs decoded] by (auto simp: install_def wasm_ok_def)
  qed (use assms MapBacking in \<open>simp add: install_def\<close>)
next
  case (OdbBacking odb)
  then show ?thesis
    using assms by (cases "odb_install (wx_odb E) odb bs expected") (auto simp: install_def wasm_ok_def split: sum.split)
qed (use assms in \<open>simp add: install_def\<close>)

lemma wasm_life_ok:
  assumes "wasm_life E m" and "digests_ok E"
  shows "wasm_ok E m"
  using assms(1)
proof (induction rule: wasm_life.induct)
  case (life_initialize m params)
  then show ?case
    using st_then_publish_ok [OF run_lifecycle_ok [OF _ assms(2)], of m "Initialize params"] by (simp add: wasm_initialize_def)
next
  case (life_swap m bs m')
  then obtain c h i q where "m' = m\<lparr>wm_component := c, wm_code_hash := h, wm_index_guest := i, wm_committed_queries := q,
      wm_staged := [], wm_staged_objects := [], wm_block_env := None\<rparr>"
    unfolding wasm_prepare_swap_def and_then_eq_Inr by (auto split: if_splits)
  then show ?case using life_swap.IH by (simp add: wasm_ok_def)
next
  case (life_step m m')
  then show ?case using wasm_step_ok assms(2) by blast
qed (auto simp: over_map_def over_store_def over_odb_def load_ok install_ok)

end
