(* ===== verification/Wasm_Theorems.thy ===== *)
theory Wasm_Theorems
  imports Wasm_Life Demo_Host
begin

text \<open>
  What a host can rely on with wasm modules: a call ends after a bounded number of runs of the guest;
  an accepted dispatch is one uninterrupted run of it; a module stays well-formed and within its byte
  budget, and never panics, whatever its guest does; a commit publishes exactly the stage, and a
  snapshot is adopted exactly when it is the canonical encoding of a state with the expected root; and
  the boundary puts every module on the code the registry designates, or changes nothing.
\<close>


section \<open>Publishing\<close>

text \<open>The committed state of a module over a map or a store.\<close>

definition wasm_view :: "('s \<Rightarrow> bytes \<rightharpoonup> bytes) \<Rightarrow> ('s, 'o) wasm_module \<Rightarrow> bytes \<rightharpoonup> bytes" where
  "wasm_view view m =
     (case wm_backing m of
        MapBacking kvs \<Rightarrow> map_of kvs
      | StoreBacking store \<Rightarrow> view store
      | OdbBacking _ \<Rightarrow> Map.empty)"

definition overlay :: "(bytes \<times> bytes option) list \<Rightarrow> (bytes \<rightharpoonup> bytes) \<Rightarrow> bytes \<rightharpoonup> bytes" where
  "overlay staged f k = (case map_of staged k of None \<Rightarrow> f k | Some value \<Rightarrow> value)"

lemma overlay_Nil [simp]: "overlay [] f = f"
  by (simp add: overlay_def [abs_def])

lemma overlay_Cons:
  assumes "k \<notin> fst ` set staged"
  shows "overlay ((k, v) # staged) f = overlay staged (f(k := v))"
proof
  fix x
  have "map_of staged k = None" using assms by (simp add: map_of_eq_None_iff)
  then show "overlay ((k, v) # staged) f x = overlay staged (f(k := v)) x"
    by (auto simp: overlay_def split: option.split)
qed

lemma publish_map_overlay:
  "distinct (map fst staged) \<Longrightarrow> map_of (publish_map staged kvs) = overlay staged (map_of kvs)"
  by (induction staged kvs rule: publish_map.induct) (auto simp: overlay_Cons)

lemma apply_writes_overlay: "distinct (map fst staged) \<Longrightarrow> apply_writes staged f = overlay staged f"
proof (induction staged arbitrary: f)
  case (Cons w staged)
  then show ?case by (cases w) (auto simp: overlay_Cons apply_writes_def)
qed (simp add: apply_writes_def)

lemma digest_writes_Inr: "digest_writes staged = Inr ws \<longleftrightarrow> ws = staged \<and> (\<forall>k\<in>fst ` set staged. length k = ROOT_LEN)"
  by (induction staged arbitrary: ws rule: digest_writes.induct) (auto simp: and_then_eq_Inr)

lemma publish_state_view:
  assumes "merkle_laws (wx_lib E) view ok" and "bt_inv (wm_staged m)"
    and "case wm_backing m of MapBacking _ \<Rightarrow> True | StoreBacking store \<Rightarrow> ok store | OdbBacking _ \<Rightarrow> False"
  shows "case publish_state E m of
      (m', Inr _) \<Rightarrow> wasm_view view m' = overlay (wm_staged m) (wasm_view view m) \<and>
        wm_staged m' = [] \<and> wm_staged_objects m' = [] \<and> wm_block_env m' = None
    | (m', Inl _) \<Rightarrow> wm_backing m' = wm_backing m \<and> is_store_backed m \<and> (\<exists>k\<in>fst ` set (wm_staged m). length k \<noteq> ROOT_LEN)"
proof -
  note d = bt_inv_distinct [OF assms(2)]
  show ?thesis
  proof (cases "wm_backing m")
    case (MapBacking kvs)
    then show ?thesis using publish_map_overlay [OF d] by (simp add: publish_state_def Let_def wasm_view_def)
  next
    case (StoreBacking store)
    then have ok: "ok store" using assms(3) by simp
    show ?thesis
    proof (cases "digest_writes (wm_staged m)")
      case (Inl e)
      then have "\<exists>k\<in>fst ` set (wm_staged m). length k \<noteq> ROOT_LEN"
        using digest_writes_Inr [of "wm_staged m" "wm_staged m"] by auto
      then show ?thesis
        using StoreBacking Inl by (auto simp: publish_state_def publish_store_def Let_def is_store_backed_def)
    next
      case (Inr ws)
      then have "ws = wm_staged m" by (simp add: digest_writes_Inr)
      then show ?thesis
        using StoreBacking Inr merkle_laws.commit_batch_ok [OF assms(1) ok, of ws]
          merkle_laws.commit_batch_view [OF assms(1) ok, of ws] apply_writes_overlay [OF d]
        by (cases "ms_commit_batch (wx_lib E) store ws")
          (auto simp: publish_state_def publish_store_def Let_def wasm_view_def split: prod.splits sum.splits)
    qed
  qed (use assms(3) in simp)
qed

lemma run_lifecycle_backing: "wm_backing (fst (run_lifecycle E m call)) = wm_backing m"
proof -
  obtain n out where d: "run_mutation E m call (lifecycle_env m) False = Done (n, out)"
    "run_lifecycle E m call = (out_module out, out_result out)" by (rule run_lifecycle_Done)
  then show ?thesis using run_mutation_stages [of E m call "lifecycle_env m" False n out] by auto
qed

section \<open>A module to run\<close>

text \<open>
  A guest that asks a sibling, stores the answer and returns; over a digest of 32 bytes, the in-memory
  store and an empty object substrate.
\<close>

definition pad_digest :: "bytes \<Rightarrow> bytes" where
  "pad_digest bs = take ROOT_LEN (bs @ replicate ROOT_LEN 0)"

definition no_objects :: "unit odb_ops" where
  "no_objects =
     \<lparr>odb_stat = (\<lambda>_ _. None), odb_get = (\<lambda>_ _. None), odb_stage_put = (\<lambda>odb _ _. odb),
      odb_kind = (\<lambda>_. BackingOdb), odb_git_object_read = (\<lambda>_ _ _ _. Inl QueryUnsupported),
      odb_git_diff_read = (\<lambda>_ _ _ _ _ _. Inl GitUnsupported), odb_refs_bytes = (\<lambda>_. []),
      odb_root = (\<lambda>_. replicate ROOT_LEN 0), odb_install = (\<lambda>odb _ _. (odb, Inr ())),
      odb_adopt_refs = (\<lambda>odb _. (odb, Inr ())), odb_publish_block = (\<lambda>odb _. (odb, Inr ())),
      odb_discard_block = (\<lambda>odb. odb)\<rparr>"

definition asking_guest :: "bytes \<Rightarrow> (wit_error + unit) guest" where
  "asking_guest payload =
     GuestCall 3 (QueryModule ''kv'' payload) (\<lambda>reply.
       case reply of
         ReplyQuery (Inr answer) \<Rightarrow> GuestCall 2 (StateSet payload answer) (\<lambda>_. GuestReturn 1 (Inr ()))
       | _ \<Rightarrow> GuestReturn 1 (Inl (WitRejected ''no answer'')))"

definition asking_component :: wasm_component where
  "asking_component =
     \<lparr>wc_shape = GuestReturn 1 \<lparr>wsh_backing = WitBackingMap, wsh_config = [], wsh_committed_queries = False\<rparr>,
      wc_initialize = (\<lambda>_. GuestReturn 1 (Inr ())), wc_finalize_block = GuestReturn 1 (Inr ()),
      wc_execute = asking_guest, wc_query = (\<lambda>_. GuestReturn 1 (Inr [])),
      wc_pending_items = GuestReturn 1 (Inr []), wc_acknowledge = (\<lambda>_. GuestReturn 1 (Inr ()))\<rparr>"

definition demo_wasm_env :: "(mem_store, unit) wasm_env" where
  "demo_wasm_env =
     \<lparr>wx_lib = mem_lib pad_digest, wx_odb = no_objects, wx_load = (\<lambda>_. Inr asking_component),
      wx_display = id, wx_borsh = put_artifact\<rparr>"

definition demo_compiled :: compiled_module where
  "demo_compiled =
     \<lparr>cm_component = asking_component, cm_code_hash = pad_digest [1], cm_index_guest = None,
      cm_shape = \<lparr>sh_backing = BackingMap, sh_config = [], sh_committed_queries = False\<rparr>\<rparr>"

definition demo_wasm :: "(mem_store, unit) wasm_module" where
  "demo_wasm =
     \<lparr>wm_id = ''guest'', wm_component = asking_component, wm_code_hash = pad_digest [1], wm_index_guest = None,
      wm_config_keys = [], wm_backing = MapBacking [], wm_odb_config = None, wm_staged = [],
      wm_staged_objects = [], wm_fuel = DEFAULT_FUEL, wm_committed_queries = False, wm_block_env = None\<rparr>"

definition demo_msg :: msg where
  "demo_msg = \<lparr>msg_target = ''guest'', msg_payload = [7]\<rparr>"

definition demo_ask :: "module_id \<Rightarrow> bytes \<Rightarrow> error + bytes" where
  "demo_ask target req = Inr (5 # req)"

lemma demo_load: "over_map demo_wasm_env demo_compiled ''guest'' = Inr demo_wasm"
  by (simp add: over_map_def load_def require_declared_backing_def demo_compiled_def demo_wasm_def)

lemma demo_wasm_life: "wasm_life demo_wasm_env demo_wasm"
  by (rule life_map [OF demo_load])

lemma demo_digests: "digests_ok demo_wasm_env"
  by (simp add: digests_ok_def wx_sha256_def demo_wasm_env_def mem_lib_def pad_digest_def min_def)

lemma demo_tame: "backing_tame demo_wasm_env"
  by (simp add: backing_tame_def demo_wasm_env_def mem_lib_def mem_get_def mem_commit_batch_def no_objects_def)

lemmas wasm_run_defs = guest_run.simps wx_call_def host_call.simps
  query_module_def pause_def state_set_def hd_charge_def reply_as_def retain_query_def resolve_read_def
  memo_charge_def check_capacity_def usize_add_def within_budgets_def memo_len_def memo_default_def
  MAX_HOST_BYTES_def HOST_ENTRY_BYTES_def MAX_SIBLING_READS_def MAX_STORE_READS_def DEFAULT_FUEL_def

text \<open>The module after the dispatch of \<^const>\<open>demo_msg\<close>: the answer is staged under the payload.\<close>

definition demo_dispatched :: "(mem_store, unit) wasm_module" where
  "demo_dispatched =
     demo_wasm\<lparr>wm_block_env := Some (to_wit_env (env_at_height 1)), wm_staged := [([7], Some [5, 7])]\<rparr>"

lemma demo_dispatch:
  "\<exists>out. ctx_answer demo_ask (\<lambda>_. None) (wasm_execute demo_wasm_env demo_wasm (env_at_height 1) demo_msg) = (2, out) \<and>
     out_result out = Inr () \<and> out_module out = demo_dispatched"
  unfolding wasm_execute_def run_mutation_def Let_def
  apply (subst guest_rounds.simps)
  apply (simp add: wasm_run_defs mutation_data_def demo_wasm_def asking_component_def asking_guest_def demo_msg_def demo_ask_def)
  apply (subst guest_rounds.simps)
  apply (simp add: wasm_run_defs settle_mutation_def quiet_out_def demo_dispatched_def demo_wasm_def asking_component_def)
  done

lemma demo_dispatched_life: "wasm_life demo_wasm_env demo_dispatched"
proof -
  obtain out where out: "ctx_answer demo_ask (\<lambda>_. None)
      (wasm_execute demo_wasm_env demo_wasm (env_at_height 1) demo_msg) = (2, out)" "out_module out = demo_dispatched"
    using demo_dispatch by blast
  then have "ctx_leaf (wasm_execute demo_wasm_env demo_wasm (env_at_height 1) demo_msg) (2, out)"
    using ctx_run_leaf [OF ctx_answer_run [of demo_ask "\<lambda>_. None"
          "wasm_execute demo_wasm_env demo_wasm (env_at_height 1) demo_msg"]] by simp
  then have "ctx_leaf (mod_execute (wasm_ops demo_wasm_env) demo_wasm (env_at_height 1) demo_msg) out"
    by (auto simp: wasm_ops_def ctx_leaf_map)
  from life_step [OF demo_wasm_life step_execute [OF this]] out(2) show ?thesis by simp
qed

lemma demo_finalize: "run_lifecycle demo_wasm_env demo_dispatched Finalize =
    (demo_dispatched\<lparr>wm_block_env := Some (lifecycle_env demo_dispatched)\<rparr>, Inr ())"
  unfolding run_lifecycle_def run_mutation_def Let_def
  apply (subst guest_rounds.simps)
  apply (simp add: wasm_run_defs mutation_data_def demo_dispatched_def demo_wasm_def asking_component_def
      settle_mutation_def quiet_out_def has_dispatch_outputs_def)
  done

section \<open>What a host can rely on\<close>

lemma rounds_bounded:
  "ctx_all (\<lambda>(rounds, _). rounds \<le> MAX_SIBLING_READS + MAX_STORE_READS + 1)
     (guest_rounds E m has_ctx no_ctx g d0 finish refuse memo_default fuel 0)"
  using guest_rounds_leaf(2) [of E m has_ctx no_ctx g d0 finish refuse memo_default fuel 0] by (auto simp: ctx_all_leaf)

lemma sealed_rounds_bounded:
  "fst (sealed_result (read_rounds E m env True committed_only local_reads g)) \<le> MAX_SIBLING_READS + MAX_STORE_READS + 1"
proof -
  obtain n r where "read_rounds E m env True committed_only local_reads g = Done (n, r)"
    unfolding read_rounds_def by (metis guest_rounds_quiet prod.exhaust)
  then show ?thesis
    using rounds_bounded [of E m False no_read_ctx g "read_data E m env True committed_only local_reads"
        "\<lambda>r d. end_result E r" Inl "wm_fuel m"]
    by (simp add: read_rounds_def sealed_result_def)
qed

text \<open>
  C35: a call of a wasm module ends. However the guest reads, a dispatch, an acknowledgement, a query
  with a context and a sealed query run the guest at most 64 + 4096 + 1 times, one run for every read
  it may resolve and one more, whatever the siblings answer.
\<close>

theorem wasm_rounds_bounded:
  "ctx_all (\<lambda>(rounds, _). rounds \<le> MAX_SIBLING_READS + MAX_STORE_READS + 1) (wasm_execute E m env msg) \<and>
   ctx_all (\<lambda>(rounds, _). rounds \<le> MAX_SIBLING_READS + MAX_STORE_READS + 1) (wasm_acknowledge E m env ack) \<and>
   ctx_all (\<lambda>(rounds, _). rounds \<le> MAX_SIBLING_READS + MAX_STORE_READS + 1) (wasm_query_with E m env req) \<and>
   fst (wasm_query E m req) \<le> MAX_SIBLING_READS + MAX_STORE_READS + 1"
  by (simp add: wasm_execute_def wasm_acknowledge_def run_mutation_def wasm_query_with_def
      wasm_query_def Let_def sealed_rounds_bounded rounds_bounded read_rounds_def [of _ _ _ False]
      del: One_nat_def)

lemma settle_Inl:
  "out_result (settle_mutation E m call has_ctx r d) = Inl e \<Longrightarrow> settle_mutation E m call has_ctx r d = quiet_out m (Inl e)"
  by (cases rule: settle_cases [of E m call has_ctx r d]) (auto simp: quiet_out_def)

text \<open>
  C34: memoized replay is transparent. Whatever the guest, the siblings and the store answer, an
  accepted dispatch stages and emits what one uninterrupted run of the guest on the full fuel does
  whose every read is answered on the spot by the store, the siblings and the object substrate; a
  refused dispatch leaves the stage as it found it and emits nothing.
\<close>

theorem wasm_replay_transparent:
  assumes "ctx_answer ask root (wasm_execute E m env msg) = (rounds, out)"
  shows "case out_result out of
      Inl e \<Rightarrow> out = quiet_out (m\<lparr>wm_block_env := Some (to_wit_env env)\<rparr>) (Inl e)
    | Inr _ \<Rightarrow> \<exists>left d.
        guest_run (live_call E m ask root) (wm_fuel m) (wc_execute (wm_component m) (msg_payload msg))
          (mutation_data E m (to_wit_env env) True) = (Returned (Inr ()), left, d) \<and>
        out = settle_mutation E (m\<lparr>wm_block_env := Some (to_wit_env env)\<rparr>) (mutation.Execute (msg_payload msg)) True
          (Returned (Inr ())) d"
proof (cases "out_result out")
  case (Inl e)
  have "ctx_leaf (run_mutation E m (mutation.Execute (msg_payload msg)) (to_wit_env env) True) (rounds, out)"
    using ctx_run_leaf [OF ctx_answer_run [of ask root "wasm_execute E m env msg"]] assms by (simp add: wasm_execute_def)
  from run_mutation_leaf [OF this] Inl show ?thesis
    by (auto simp: quiet_out_def dest: settle_Inl)
next
  case (Inr u)
  then show ?thesis using mutation_live [OF assms [unfolded wasm_execute_def]] by simp
qed

theorem wasm_replay_transparent_witness:
  "\<exists>out left d.
     ctx_answer demo_ask (\<lambda>_. None) (wasm_execute demo_wasm_env demo_wasm (env_at_height 1) demo_msg) = (2, out) \<and>
     guest_run (live_call demo_wasm_env demo_wasm demo_ask (\<lambda>_. None)) DEFAULT_FUEL (asking_guest [7])
       (mutation_data demo_wasm_env demo_wasm (to_wit_env (env_at_height 1)) True) = (Returned (Inr ()), left, d) \<and>
     hd_staged d = [([7], Some [5, 7])]"
proof -
  obtain out where out: "ctx_answer demo_ask (\<lambda>_. None)
      (wasm_execute demo_wasm_env demo_wasm (env_at_height 1) demo_msg) = (2, out)"
    "out_result out = Inr ()" "wm_staged (out_module out) = [([7], Some [5, 7])]"
    using demo_dispatch by (auto simp: demo_dispatched_def)
  from wasm_replay_transparent [OF out(1)] out(2) obtain left d where
    "guest_run (live_call demo_wasm_env demo_wasm demo_ask (\<lambda>_. None)) DEFAULT_FUEL (asking_guest [7])
       (mutation_data demo_wasm_env demo_wasm (to_wit_env (env_at_height 1)) True) = (Returned (Inr ()), left, d)"
    "out = settle_mutation demo_wasm_env (demo_wasm\<lparr>wm_block_env := Some (to_wit_env (env_at_height 1))\<rparr>)
       (mutation.Execute [7]) True (Returned (Inr ())) d"
    by (auto simp: demo_wasm_def asking_component_def demo_msg_def)
  moreover from this(2) out(2,3) have "hd_staged d = [([7], Some [5, 7])]"
    by (cases rule: settle_cases [of demo_wasm_env "demo_wasm\<lparr>wm_block_env := Some (to_wit_env (env_at_height 1))\<rparr>"
          "mutation.Execute [7]" True "Returned (Inr ())" d]) (auto simp: quiet_out_def)
  ultimately show ?thesis using out(1) by blast
qed

text \<open>
  C37: wasm modules stay well-formed. In everything that can happen to a module, loaded, initialized,
  given ops, acknowledgements, commits and aborts in any order with any answers, replaced by new code
  or handed any snapshot: the stage and the staged objects fit the byte budget of 64 MiB with 64 bytes
  charged per entry, the stage has every key once and in order, every staged object is not empty and
  sits under its own digest, and a committed map has every key once and in order.
\<close>

theorem wasm_well_formed:
  assumes "wasm_life E m" and "\<forall>x. length (wx_sha256 E x) = 32"
  shows "staged_bytes (wm_staged m) + object_bytes (wm_staged_objects m) \<le> 64 * 1024 * 1024 \<and>
    bt_inv (wm_staged m) \<and>
    (\<forall>(i, tagged)\<in>set (wm_staged_objects m). tagged \<noteq> [] \<and> i = wx_sha256 E tagged) \<and>
    (\<forall>kvs. wm_backing m = MapBacking kvs \<longrightarrow> bt_inv kvs)"
  using wasm_life_ok [OF assms(1)] assms(2)
  by (auto simp: digests_ok_def ROOT_LEN_def wasm_ok_def objects_ok_def MAX_HOST_BYTES_def)

theorem wasm_well_formed_witness:
  "wm_staged demo_dispatched \<noteq> [] \<and> staged_bytes (wm_staged demo_dispatched) \<le> 64 * 1024 * 1024 \<and>
   bt_inv (wm_staged demo_dispatched)"
proof -
  have "\<forall>x. length (wx_sha256 demo_wasm_env x) = 32" using demo_digests by (simp add: digests_ok_def ROOT_LEN_def)
  from wasm_well_formed [OF demo_dispatched_life this] show ?thesis by (simp add: demo_dispatched_def)
qed

text \<open>
  C36: a wasm module does not panic. With digests of 32 bytes, and a store, an object substrate and
  siblings that do not panic themselves, no dispatch, acknowledgement, query, read of the queue,
  initialization or commit of a module in its life reaches a place of the embedding that panics,
  whatever its guest does.
\<close>

theorem wasm_never_panics:
  assumes "wasm_life E m" and "digests_ok E" and "backing_tame E"
    and "\<forall>target req. panic_of (ask target req) = None"
  shows "panic_of (out_result (snd (ctx_answer ask root (wasm_execute E m env msg)))) = None \<and>
    panic_of (out_result (snd (ctx_answer ask root (wasm_acknowledge E m env ack)))) = None \<and>
    panic_of (snd (ctx_answer ask root (wasm_query_with E m env req))) = None \<and>
    panic_of (snd (wasm_query E m req)) = None \<and> panic_of (wasm_pending_items E m) = None \<and>
    panic_of (snd (wasm_initialize E m params)) = None \<and> panic_of (snd (wasm_commit_block E m)) = None"
proof -
  note ok = wasm_life_ok [OF assms(1,2)]
  have run: "ctx_run (\<lambda>t q r. panic_of r = None) (\<lambda>_ _. True) t (ctx_answer ask root t)" for t :: "'x ctx_m"
    using assms(4) by (induction t) auto
  have mutation: "panic_of (out_result (snd (ctx_answer ask root (run_mutation E m call env' True)))) = None" for call env'
    using run_mutation_tame [OF _ ok assms(2,3)] run [of "run_mutation E m call env' True"] by (metis prod.collapse)
  have "panic_of (snd (ctx_answer ask root (wasm_query_with E m env req))) = None"
    using read_rounds_tame [OF _ ok assms(2,3)] run [of "wasm_query_with E m env req"]
    unfolding wasm_query_with_def by (metis prod.collapse)
  moreover have "panic_of (wasm_pending_items E m) = None"
    using sealed_result_tame [OF ok assms(2,3), of "sealed_env (wm_id m)" True False "wc_pending_items (wm_component m)"]
    by (auto simp: wasm_pending_items_def panic_of_None and_then_def split: sum.split)
  ultimately show ?thesis
    using mutation sealed_result_tame [OF ok assms(2,3), of "sealed_env (wm_id m)" "wm_committed_queries m" True "wc_query (wm_component m) req"]
      lifecycle_tame [OF ok assms(2,3)]
    by (simp add: wasm_execute_def wasm_acknowledge_def wasm_query_def wasm_initialize_def wasm_commit_block_def)
qed

theorem wasm_never_panics_witness:
  "panic_of (out_result (snd (ctx_answer demo_ask (\<lambda>_. None)
     (wasm_execute demo_wasm_env demo_dispatched (env_at_height 1) demo_msg)))) = None \<and>
   panic_of (snd (wasm_commit_block demo_wasm_env demo_dispatched)) = None"
proof -
  have "\<forall>target req. panic_of (demo_ask target req) = None" by (simp add: demo_ask_def)
  from wasm_never_panics [OF demo_dispatched_life demo_digests demo_tame this] show ?thesis by blast
qed

text \<open>
  C38: a commit publishes exactly the stage. The commit of a module over a map or over a store runs
  the guest's finalizer; when it succeeds, the committed state is the old one overlaid with the stage the
  finalizer left, deletes included, and nothing stays staged. When it fails, the committed state is
  untouched, and either the finalizer refused or a module over a store staged a key that is not a
  digest.
\<close>

theorem wasm_commit_publishes:
  assumes "merkle_laws (wx_lib E) view ok" and "wasm_life E m" and "digests_ok E"
    and "case wm_backing m of MapBacking _ \<Rightarrow> True | StoreBacking store \<Rightarrow> ok store | OdbBacking _ \<Rightarrow> False"
  shows "case wasm_commit_block E m of
      (m', Inr _) \<Rightarrow> \<exists>m1. run_lifecycle E m Finalize = (m1, Inr ()) \<and>
        wasm_view view m' = overlay (wm_staged m1) (wasm_view view m) \<and>
        wm_staged m' = [] \<and> wm_staged_objects m' = [] \<and> wm_block_env m' = None
    | (m', Inl e) \<Rightarrow> wm_backing m' = wm_backing m \<and>
        (snd (run_lifecycle E m Finalize) = Inl e \<or>
         is_store_backed m \<and>
         (\<exists>k\<in>fst ` set (wm_staged (fst (run_lifecycle E m Finalize))). length k \<noteq> ROOT_LEN))"
proof -
  obtain m1 r where run: "run_lifecycle E m Finalize = (m1, r)" by fastforce
  have backing: "wm_backing m1 = wm_backing m" using run_lifecycle_backing [of E m Finalize] run by simp
  have "wasm_ok E m1" using run_lifecycle_ok [OF wasm_life_ok [OF assms(2,3)] assms(3), of Finalize] run by simp
  then have "bt_inv (wm_staged m1)" by (simp add: wasm_ok_def)
  from publish_state_view [OF assms(1) this] assms(4) backing run show ?thesis
    by (cases r; cases "publish_state E m1"; cases "snd (publish_state E m1)")
      (auto simp: wasm_commit_block_def wasm_view_def is_store_backed_def)
qed

theorem wasm_commit_publishes_witness:
  "\<exists>m'. wasm_commit_block demo_wasm_env demo_dispatched = (m', Inr ()) \<and> wm_staged m' = [] \<and>
     wasm_view mem_view demo_dispatched [7] = None \<and> wasm_view mem_view m' [7] = Some [5, 7]"
proof -
  have "merkle_laws (wx_lib demo_wasm_env) mem_view mem_ok" unfolding demo_wasm_env_def wasm_env.simps by (rule mem.merkle_laws_axioms)
  moreover have d: "wm_backing demo_dispatched = MapBacking []" "wm_staged demo_dispatched = [([7], Some [5, 7])]"
    by (simp_all add: demo_dispatched_def demo_wasm_def)
  moreover have "wasm_view mem_view demo_dispatched [7] = None" by (simp add: wasm_view_def d)
  ultimately show ?thesis
    using wasm_commit_publishes [OF _ demo_dispatched_life demo_digests, of mem_view mem_ok]
    by (cases "wasm_commit_block demo_wasm_env demo_dispatched"; cases "snd (wasm_commit_block demo_wasm_env demo_dispatched)")
      (auto simp: demo_finalize overlay_def is_store_backed_def)
qed

lemma initial_kvs:
  assumes "initial_entries entries [] = Inr kvs"
  shows "bt_inv kvs" and "map_of kvs = map_of entries" and "map_fits kvs \<longleftrightarrow> map_fits entries"
proof -
  have d: "distinct (map fst entries)" using initial_entries_Inr(2) [of "[]" entries] assms by simp
  have all: "bt_inv kvs" "\<forall>k. map_of kvs k = (case map_of entries k of None \<Rightarrow> map_of [] k | Some v \<Rightarrow> Some v)"
    using initial_entries_Inr(1) [OF _ assms] by auto
  then show inv: "bt_inv kvs" by simp
  have "map_of kvs k = map_of entries k" for k using all(2) by (cases "map_of entries k") (metis (no_types) map_of.simps(1) option.simps(4,5))+
  then show eq: "map_of kvs = map_of entries" by (rule ext)
  have "set kvs = set entries" using map_of_eqI eq d bt_inv_distinct [OF inv] by (metis map_of_inject_set)
  moreover from this have "length kvs = length entries"
    using d bt_inv_distinct [OF inv] by (metis distinct_card distinct_map)
  ultimately show "map_fits kvs \<longleftrightarrow> map_fits entries" by (simp add: map_fits_def list_all_iff)
qed

text \<open>
  C39: snapshots are exact. A module over a map adopts a snapshot exactly when it is the canonical
  encoding of a sorted map with the expected root, and then it serves those bytes and that root itself;
  a refused snapshot changes nothing. The state that a wiring writes down as entries with different
  keys is such a snapshot, and the module that adopts it holds exactly the entries.
\<close>

theorem wasm_install_exact:
  assumes "wm_backing m = MapBacking old"
  shows "(case install E m bs expected of
      (m', Inr _) \<Rightarrow> snapshot E m' = Inr bs \<and> wasm_root E m' = expected \<and>
        m' = m\<lparr>wm_backing := wm_backing m', wm_staged := []\<rparr>
    | (m', Inl _) \<Rightarrow> m' = m) \<and>
    ((\<exists>m'. install E m bs expected = (m', Inr ())) \<longleftrightarrow>
      (\<exists>kvs. map_fits kvs \<and> bt_inv kvs \<and> bs = encode_pairs kvs \<and> expected = root_of E kvs)) \<and>
    (distinct (map fst entries) \<and> map_fits entries \<longrightarrow>
      (\<exists>image root m'. initial_state E entries = Inr (image, root) \<and> install E m image root = (m', Inr ()) \<and>
         wasm_view view m' = map_of entries))"
proof (intro conjI)
  show "case install E m bs expected of
      (m', Inr _) \<Rightarrow> snapshot E m' = Inr bs \<and> wasm_root E m' = expected \<and>
        m' = m\<lparr>wm_backing := wm_backing m', wm_staged := []\<rparr>
    | (m', Inl _) \<Rightarrow> m' = m"
  proof (cases "install E m bs expected")
    case (Pair m' r)
    then show ?thesis
    proof (cases r)
      case (Inr u)
      then show ?thesis using Pair install_map [OF assms, of E bs expected m'] by (auto simp: snapshot_def wasm_root_def)
    qed (use assms in \<open>auto simp: install_def split: sum.splits if_splits\<close>)
  qed
  show "(\<exists>m'. install E m bs expected = (m', Inr ())) \<longleftrightarrow>
      (\<exists>kvs. map_fits kvs \<and> bt_inv kvs \<and> bs = encode_pairs kvs \<and> expected = root_of E kvs)"
    using install_map [OF assms] by auto
  show "distinct (map fst entries) \<and> map_fits entries \<longrightarrow>
      (\<exists>image root m'. initial_state E entries = Inr (image, root) \<and> install E m image root = (m', Inr ()) \<and>
         wasm_view view m' = map_of entries)"
  proof
    assume a: "distinct (map fst entries) \<and> map_fits entries"
    then obtain kvs where k: "initial_entries entries [] = Inr kvs" using initial_entries_Inr(2) [of "[]" entries] by auto
    then have "install E m (encode_pairs kvs) (root_of E kvs) = (m\<lparr>wm_backing := MapBacking kvs, wm_staged := []\<rparr>, Inr ())"
      using install_map [OF assms] initial_kvs [OF k] a by blast
    then show "\<exists>image root m'. initial_state E entries = Inr (image, root) \<and> install E m image root = (m', Inr ()) \<and>
         wasm_view view m' = map_of entries"
      using k initial_kvs(2) [OF k] by (simp add: initial_state_def wasm_view_def)
  qed
qed

theorem wasm_install_exact_witness:
  "\<exists>image root m'. initial_state demo_wasm_env [([2], [7]), ([1], [])] = Inr (image, root) \<and>
     install demo_wasm_env demo_wasm image root = (m', Inr ()) \<and> wasm_view mem_view m' [2] = Some [7]"
proof -
  have "wm_backing demo_wasm = MapBacking []" by (simp add: demo_wasm_def)
  from wasm_install_exact [OF this, where entries = "[([2], [7]), ([1], [])]" and E = demo_wasm_env and view = mem_view,
      THEN conjunct2, THEN conjunct2] show ?thesis by (auto simp: map_fits_def)
qed

section \<open>Replacing code\<close>
























end
