(* ===== verification/Spec2Isabelle.thy ===== *)
theory Spec2Isabelle
  imports Kv Acl Valset_Window Host_Root Host_Theorems Host_Gate Host_Swaps Registry_Theorems Wasm_Theorems
begin

text \<open>
  \<^bold>\<open>A verification development of ducktape.\<close>

  Ducktape is a replicated state machine. A \<^emph>\<open>host\<close> (\<^verbatim>\<open>src/crates/kernel/host/src/lib.rs\<close>) holds a
  registry of \<^emph>\<open>modules\<close> and applies blocks of operations to them. A module
  (\<^verbatim>\<open>src/crates/kernel/sdk/src/lib.rs\<close>, trait \<^verbatim>\<open>Module\<close>) stages the writes of a block, commits or
  drops them as a whole, and commits to its state by a root; the host composes the roots into one
  root-hash on which the nodes of a network agree. Consensus, transport and storage are below the host;
  the system modules (membership, submit policy, code registry and others) are above it.

  \<^bold>\<open>Theories and what they model.\<close>

  \<^item> \<open>Prelude\<close>, \<open>Rust_Std\<close>: integer widths, \<^verbatim>\<open>Result\<close> as a sum (\<open>Inl\<close> is \<^verbatim>\<open>Err\<close>), and the parts of
    Rust's standard library the code calls: binary search, \<^verbatim>\<open>Vec\<close> insertion and removal, \<^verbatim>\<open>BTreeMap\<close>
    (the interface \<open>ordered_map\<close>), string trimming, integer display.
  \<^item> \<open>Sdk\<close>: envelopes, causal context, errors, declarations, \<^verbatim>\<open>Ctx\<close> and \<^verbatim>\<open>Module\<close>. Module code is a tree
    \<open>ctx_m\<close> that asks its siblings questions and ends with a result; a boxed module is a value with the
    operations of \<open>module_ops\<close>. The staging contract of a module is the locale \<open>module_laws\<close>.
  \<^item> \<open>Codec\<close>, \<open>Wire\<close>: \<^verbatim>\<open>codec.rs\<close>, \<^verbatim>\<open>hash.rs\<close>, \<^verbatim>\<open>genesis_config.rs\<close> and \<^verbatim>\<open>wire.rs\<close> of the sdk crate.
    Readers undo writers and accept nothing else.
  \<^item> \<open>Staged_Store\<close>: the overlay of \<^verbatim>\<open>staged_store.rs\<close> over the trait \<^verbatim>\<open>MerkleStore\<close> (locale
    \<open>merkle_laws\<close>), with the in-memory store of \<^verbatim>\<open>sdk-testkit\<close> as its model. The overlay refines a
    committed and a working map.
  \<^item> \<open>Kv\<close>, \<open>Acl\<close>, \<open>Valset\<close>, \<open>Valset_Window\<close>: the modules of \<^verbatim>\<open>src/crates/modules/system/{kv,acl,valset}\<close>,
    every message, query and lifecycle operation.
  \<^item> \<open>Interfaces\<close>: the wire types of the identity, dispatch, modules and saga crates that the host reads.
  \<^item> \<open>Observer\<close>, \<open>Host_Dispatch\<close>, \<open>Host_Root\<close>, \<open>Host_Block\<close>, \<open>Host_Boundary\<close>: the host. Reads and dispatches
    recorded as a witness and served again on replay; query contexts, the acl gate, one dispatch, the
    drain of a queue; the root-hash; the block engine with its isolation of units by rollback and
    re-run, prepared calls and deliveries, and the commit boundary; what happens between blocks
    (construction, the registry read, preparation of work, code swaps).
  \<^item> \<open>Host_Drain\<close>, \<open>Host_Rollback\<close>, \<open>Host_Isolation\<close>, \<open>Host_Replay\<close>, \<open>Host_Live\<close>, \<open>Host_Transactions\<close>,
    \<open>Host_Bounds\<close>, \<open>Host_Swaps\<close>: the proofs about it, each about the theories before it; \<open>Native\<close>,
    \<open>Demo_Host\<close>, \<open>Host_Gate\<close>, \<open>Host_Theorems\<close>: the modules of this development in one registry, and the
    properties.
  \<^item> \<open>Code_Registry\<close>, \<open>Registry_Blocks\<close>, \<open>Registry_Signals\<close>, \<open>Registry_Theorems\<close>: the code registry of
    \<^verbatim>\<open>src/crates/modules/system/modules\<close>, its refinement to an abstract registry, and its life over the
    blocks of a chain.
  \<^item> \<open>Module_Artifact\<close>: the frame of a deployable unit and its strict parser.
  \<^item> \<open>Wasm_Wit\<close>, \<open>Wasm_Guest\<close>, \<open>Wasm_Module\<close>: the embedding of wasm modules
    (\<^verbatim>\<open>src/crates/kernel/wasm-host/src/lib.rs\<close>): the values of the interface and their conversions; the host
    imports with their budgets and one run of a guest; compilation, the replay loop, publishing,
    snapshots and the module trait. \<open>Wasm_Laws\<close>, \<open>Wasm_Replay\<close>, \<open>Wasm_Life\<close>, \<open>Wasm_Theorems\<close>: the proofs about
    it (the module and swap contracts, replay against an uninterrupted run, the life of a module) and the
    properties, with the realization of code swaps of \<open>Host_Swaps\<close> run on wasm modules.

  \<^bold>\<open>What the theorems show.\<close> A live block equals a reference semantics in which each op is a
  transaction; a rejected or faulted block leaves the host as it was; a replay against the recorded
  witness reproduces host and outcome; a block's dispatches and the aborts of each module, counted by
  a meter on it, are bounded; the root-hash determines ids, roots and deployment hashes; the realization
  of a roster puts every entry on its designated code or changes nothing. The gate admits a submitter only in the tier its
  policy asks for. Each module refines sets, maps or an abstract registry on every branch, errors
  included, and keeps its invariant over every reachable state. Codecs are exact: a reader accepts
  the written form of one value and nothing else. A wasm dispatch, run by pausing and replaying the
  guest, is one uninterrupted run of it; it ends, stays within its byte budget and never panics,
  whatever the guest does; its commit publishes exactly its stage.

  \<^bold>\<open>Parameters.\<close> Code from third-party crates is an argument: \<^verbatim>\<open>sha2\<close> (a digest function; where a
  property needs it, injective on the inputs at hand), \<^verbatim>\<open>serde_json\<close> and \<^verbatim>\<open>borsh\<close> (a format for a type
  is the record \<open>serde\<close>; the law is that reading what was written returns it), \<^verbatim>\<open>commonware\<close> key
  decoding and authenticated storage (the store's law is \<open>merkle_laws\<close>), and \<^verbatim>\<open>wasmtime\<close>: what an export of a component does is any value of
  the codatatype \<open>guest\<close>, which spends fuel and calls the host, and loading a component is a function
  of its bytes. The object substrate of the files and forge modules is a record of operations. Every property with such a
  hypothesis is applied to concrete formats and the in-memory store by the witness after it.

  \<^bold>\<open>Bounds.\<close> The drain of a queue recurses on the dispatches left of \<open>MAX_DISPATCHES\<close>, the source's own
  budget; module code is a well-founded tree; loops over collections recurse on the list. A run of a
  guest recurses on the fuel of \<^verbatim>\<open>DEFAULT_FUEL\<close>, the replay loop on the reads left of its two read budgets.
  There is no fuel that the source does not have.

  \<^bold>\<open>Not modelled.\<close> The state-sync forwards of modules and stores (reads only, over a storage library);
  consensus, recovery, state sync, blob store, indexer and the node daemon (asynchronous tasks and
  I/O around the host); networking, services, views, the desktop application and the binaries
  (processes, sockets and user interface beside the replicated state); the application modules; of the
  wasm embedding the engine configuration, the compilation cache and the probe \<^verbatim>\<open>speaks_module_abi\<close>.
  Logging and wall-clock measurements are left out of the modelled functions.
\<close>

end
